(* ===== verification/Prelude.thy ===== *)
theory Prelude
  imports Main "HOL-Library.Word" "HOL-Library.AList"
begin

text \<open>
  Shared vocabulary of the development: the machine types of the Go source, big-endian byte
  strings, and the association-list view of a Go \<open>map\<close>.

  \<^item> \<open>uint64\<close> is a 64-bit word (\<open>+\<close>, \<open>-\<close>, \<open>*\<close> wrap around as in Go), \<open>byte\<close> an 8-bit word,
    \<open>common.Address\<close> a 160-bit word and \<open>common.Hash\<close> a 256-bit word. The order of words is
    the order of \<open>bytes.Compare\<close> on the big-endian arrays.
  \<^item> \<open>*big.Int\<close> is \<open>int\<close>.
  \<^item> A Go \<open>map\<close> whose values are only looked up, stored, deleted, counted or iterated in an
    order that does not matter is an association list with distinct keys.
\<close>

named_theorems core_defs \<open>definitions of the consensus core, unfolded by its invariant proofs\<close>
named_theorems alist_simps \<open>look-up, size and key laws of Go maps as association lists\<close>

type_synonym byte = "8 word"
type_synonym bytes = "byte list"
type_synonym uint64 = "64 word"
type_synonym address = "160 word"
type_synonym hash = "256 word"


subsection \<open>Big-endian byte strings\<close>

fun be_bytes :: "nat \<Rightarrow> bytes" where
  "be_bytes n = (if n = 0 then [] else be_bytes (n div 256) @ [of_nat (n mod 256)])"

declare be_bytes.simps [simp del]

definition be_val :: "bytes \<Rightarrow> nat" where
  "be_val bs = foldl (\<lambda>a b. a * 256 + unat b) 0 bs"

fun be_fixed :: "nat \<Rightarrow> nat \<Rightarrow> bytes" where
  "be_fixed 0 n = []"
| "be_fixed (Suc k) n = be_fixed k (n div 256) @ [of_nat (n mod 256)]"

lemma be_bytes_0 [simp]: "be_bytes 0 = []"
  by (simp add: be_bytes.simps)

lemma be_val_Nil [simp]: "be_val [] = 0"
  by (simp add: be_val_def)

lemma be_val_snoc [simp]: "be_val (bs @ [b]) = be_val bs * 256 + unat b"
  by (simp add: be_val_def)

lemma unat_of_nat_byte [simp]: "unat (of_nat (n mod 256) :: byte) = n mod 256"
  by (simp add: unat_of_nat take_bit_eq_mod)

lemma unat_byte_less [simp]: "unat (b :: byte) < 256"
  using unsigned_less [of b] by simp

lemma of_nat_unat_mod [simp]: "(of_nat ((k * 256 + unat (b :: byte)) mod 256) :: byte) = b"
proof -
  have "unat b < 256" by simp
  then have "(k * 256 + unat b) mod 256 = unat b" by simp
  then show ?thesis by simp
qed

lemma unat_byte_div [simp]: "(k * 256 + unat (b :: byte)) div 256 = k"
proof -
  have "unat b < 256" by simp
  then show ?thesis by simp
qed

lemma be_val_be_bytes [simp]: "be_val (be_bytes n) = n"
proof (induction n rule: be_bytes.induct)
  case (1 n)
  then show ?case by (subst be_bytes.simps) (simp add: div_mult_mod_eq)
qed

lemma be_bytes_be_val:
  assumes "bs = [] \<or> hd bs \<noteq> 0"
  shows "be_bytes (be_val bs) = bs"
  using assms
proof (induction bs rule: rev_induct)
  case Nil
  then show ?case by simp
next
  case (snoc b bs)
  show ?case
  proof (cases "bs = []")
    case True
    with snoc.prems have "unat b \<noteq> 0" by (simp add: unat_eq_zero)
    moreover have "unat b < 256" by simp
    ultimately show ?thesis using True
      by (simp add: be_val_def be_bytes.simps [of "unat b"])
  next
    case False
    with snoc.prems have hd: "hd bs \<noteq> 0" by simp
    with snoc.IH have IH: "be_bytes (be_val bs) = bs" by simp
    have "be_val bs \<noteq> 0" using IH False by (metis be_bytes_0)
    then show ?thesis using IH by (simp add: be_bytes.simps [of "be_val bs * 256 + unat b"])
  qed
qed

lemma hd_be_bytes: "n \<noteq> 0 \<Longrightarrow> hd (be_bytes n) \<noteq> 0"
proof (induction n rule: be_bytes.induct)
  case (1 n)
  show ?case
  proof (cases "n div 256 = 0")
    case True
    with 1 have "n mod 256 \<noteq> 0" by (metis div_mult_mod_eq mult_0 add_0)
    moreover have "unat (of_nat (n mod 256) :: byte) = n mod 256" by simp
    ultimately have "(of_nat (n mod 256) :: byte) \<noteq> 0" by (metis unat_0)
    with True 1 show ?thesis by (simp add: be_bytes.simps [of n])
  next
    case False
    then have "be_bytes (n div 256) \<noteq> []" by (subst be_bytes.simps) simp
    with False 1 show ?thesis by (simp add: be_bytes.simps [of n])
  qed
qed

lemma be_bytes_eq_Nil [simp]: "be_bytes n = [] \<longleftrightarrow> n = 0"
  by (subst be_bytes.simps) simp

lemma length_be_bytes_le: "n < 256 ^ k \<Longrightarrow> length (be_bytes n) \<le> k"
proof (induction n arbitrary: k rule: be_bytes.induct)
  case (1 n)
  show ?case
  proof (cases "n = 0")
    case False
    with 1 obtain j where k: "k = Suc j" by (cases k) auto
    with 1 have "n div 256 < 256 ^ j" by (simp add: less_mult_imp_div_less mult.commute)
    with 1 False k show ?thesis by (simp add: be_bytes.simps [of n])
  qed simp
qed

lemma be_val_less: "be_val bs < 256 ^ length bs"
proof (induction bs rule: rev_induct)
  case (snoc b bs)
  have b: "unat b < 256" by simp
  from snoc.IH have "(be_val bs + 1) * 256 \<le> 256 ^ length bs * 256"
    by (intro mult_le_mono1) simp
  then have "be_val bs * 256 + 256 \<le> 256 ^ length bs * 256" by (simp add: algebra_simps)
  with b have "be_val bs * 256 + unat b < 256 ^ length bs * 256" by linarith
  then show ?case by (simp add: mult.commute)
qed simp

lemma length_be_fixed [simp]: "length (be_fixed k n) = k"
  by (induction k arbitrary: n) auto

lemma be_val_be_fixed: "n < 256 ^ k \<Longrightarrow> be_val (be_fixed k n) = n"
proof (induction k arbitrary: n)
  case (Suc k)
  then have "n div 256 < 256 ^ k" by (simp add: less_mult_imp_div_less mult.commute)
  with Suc.IH show ?case by (simp add: div_mult_mod_eq)
qed simp

lemma unat_byte_mod [simp]: "unat (b :: byte) mod 256 = unat b"
  by simp

lemma be_fixed_be_val: "be_fixed (length bs) (be_val bs) = bs"
  by (induction bs rule: rev_induct) auto


subsection \<open>Go maps as association lists\<close>

definition distinct_keys :: "('k \<times> 'v) list \<Rightarrow> bool" where
  "distinct_keys m \<longleftrightarrow> distinct (map fst m)"

lemma distinct_keys_Nil [simp, intro]: "distinct_keys []"
  by (simp add: distinct_keys_def)

lemma distinct_keys_update [intro]: "distinct_keys m \<Longrightarrow> distinct_keys (AList.update k v m)"
  by (simp add: distinct_keys_def distinct_update)

lemma distinct_keys_delete [intro]: "distinct_keys m \<Longrightarrow> distinct_keys (AList.delete k m)"
  by (simp add: distinct_keys_def distinct_delete)

lemma distinct_keys_filter [intro]: "distinct_keys m \<Longrightarrow> distinct_keys (filter P m)"
  unfolding distinct_keys_def by (induction m) auto

lemma map_of_update [alist_simps]:
  "map_of (AList.update k v m) k' = (if k' = k then Some v else map_of m k')"
  by (simp add: update_conv')

lemma map_of_delete [alist_simps]:
  "map_of (AList.delete k m) k' = (if k' = k then None else map_of m k')"
  by (simp add: delete_conv')

lemma keys_update [alist_simps]: "fst ` set (AList.update k v m) = insert k (fst ` set m)"
  by (simp add: dom_update)

lemma alist_update_member: "e \<in> set (AList.update k v m) \<Longrightarrow> e = (k, v) \<or> e \<in> set m"
  by (induction m) (auto split: if_splits)

lemma length_distinct_keys:
  "distinct_keys m \<Longrightarrow> length m = card (fst ` set m)"
  unfolding distinct_keys_def by (metis distinct_card length_map set_map)

lemma map_of_in_keys: "map_of m k = None \<longleftrightarrow> k \<notin> fst ` set m"
  by (simp add: map_of_eq_None_iff)

lemmas alist_rules [alist_simps] = map_of_in_keys

end
