(* ===== verification/Rlp.thy ===== *)
theory Rlp
  imports Prelude
begin

text \<open>
  Recursive Length Prefix, the wire and storage format of the messages, headers and accounts
  (\<open>vendor/github.com/ethereum/go-ethereum/rlp\<close>). A value is a byte string or a list of values.
  \<open>rlp_encode\<close> follows \<open>encodeString\<close> and \<open>puthead\<close> of encode.go; \<open>rlp_split\<close> follows
  \<open>readKind\<close>, \<open>readSize\<close> and \<open>Split\<close> of raw.go with their canonicity checks, and
  \<open>rlp_decode\<close> is \<open>DecodeBytes\<close>: exactly one value and no trailing byte. A failed decode is
  \<open>None\<close>, because the callers only test the error for nil.

  The codec round-trips in both directions: what was encoded is decoded again, and a byte
  string that decodes is the encoding of its value, so no value has two encodings.
\<close>

datatype rlp = Str bytes | Lst "rlp list"

definition rlp_head :: "byte \<Rightarrow> byte \<Rightarrow> nat \<Rightarrow> bytes" where
  "rlp_head smalltag largetag n =
     (if n < 56 then [smalltag + of_nat n]
      else (largetag + of_nat (length (be_bytes n))) # be_bytes n)"

definition rlp_string :: "bytes \<Rightarrow> bytes" where
  "rlp_string b =
     (if length b = 1 \<and> hd b \<le> 0x7F then b else rlp_head 0x80 0xB7 (length b) @ b)"

primrec rlp_encode :: "rlp \<Rightarrow> bytes" where
  "rlp_encode (Str b) = rlp_string b"
| "rlp_encode (Lst xs) =
     (let c = concat (map rlp_encode xs) in rlp_head 0xC0 0xF7 (length c) @ c)"

definition rlp_readSize :: "bytes \<Rightarrow> nat \<Rightarrow> nat option" where
  "rlp_readSize b slen =
     (if length b < slen then None
      else let s = be_val (take slen b) in
        if s < 56 \<or> hd b = 0 then None else Some s)"

datatype kind = Byte | String | List

definition rlp_readKind :: "bytes \<Rightarrow> (kind \<times> nat \<times> nat) option" where
  "rlp_readKind buf =
     (case buf of [] \<Rightarrow> None | b # tail \<Rightarrow>
       let r = (if b < 0x80 then Some (Byte, 0, 1)
          else if b < 0xB8 then
            (if unat (b - 0x80) = 1 \<and> tail \<noteq> [] \<and> hd tail < 128 then None
             else Some (String, 1, unat (b - 0x80)))
          else if b < 0xC0 then
            map_option (\<lambda>s. (String, unat (b - 0xB7) + 1, s)) (rlp_readSize tail (unat (b - 0xB7)))
          else if b < 0xF8 then Some (List, 1, unat (b - 0xC0))
          else map_option (\<lambda>s. (List, unat (b - 0xF7) + 1, s)) (rlp_readSize tail (unat (b - 0xF7))))
       in case r of None \<Rightarrow> None
          | Some (k, ts, cs) \<Rightarrow> if length buf - ts < cs then None else Some (k, ts, cs))"

definition rlp_split :: "bytes \<Rightarrow> (kind \<times> bytes \<times> bytes) option" where
  "rlp_split b =
     (case rlp_readKind b of None \<Rightarrow> None
      | Some (k, ts, cs) \<Rightarrow> Some (k, take cs (drop ts b), drop (ts + cs) b))"

lemma rlp_readKind_ts:
  "rlp_readKind b = Some (k, ts, cs) \<Longrightarrow>
     ts + cs > 0 \<and> ts + cs \<le> length b \<and> (k = List \<longrightarrow> 0 < ts)"
  by (auto simp: rlp_readKind_def rlp_readSize_def Let_def
      split: list.splits if_splits option.splits)

lemma rlp_split_length:
  assumes "rlp_split b = Some (k, c, r)"
  shows "length r < length b" and "k = List \<Longrightarrow> length c < length b"
proof -
  from assms obtain ts cs where rk: "rlp_readKind b = Some (k, ts, cs)"
    and c: "c = take cs (drop ts b)" and r: "r = drop (ts + cs) b"
    by (auto simp: rlp_split_def split: option.splits)
  note bounds = rlp_readKind_ts [OF rk]
  show "length r < length b" using bounds r by auto
  show "k = List \<Longrightarrow> length c < length b" using bounds c by auto
qed

function rlp_items :: "bytes \<Rightarrow> rlp list option" where
  "rlp_items b =
     (if b = [] then Some []
      else case rlp_split b of None \<Rightarrow> None
        | Some (k, c, r) \<Rightarrow>
            (case (if k = List then map_option Lst (rlp_items c) else Some (Str c)) of
               None \<Rightarrow> None
             | Some x \<Rightarrow> map_option (Cons x) (rlp_items r)))"
  by pat_completeness auto
termination
  by (relation "measure length") (auto dest: rlp_split_length)

declare rlp_items.simps [simp del]

text \<open>The equations of the evaluator: they unfold a call only once its input is a list.\<close>

lemma rlp_items_code [code]:
  "rlp_items [] = Some []"
  "rlp_items (x # xs) =
     (case rlp_split (x # xs) of None \<Rightarrow> None
      | Some (k, c, r) \<Rightarrow>
          (case (case k of List \<Rightarrow> map_option Lst (rlp_items c) | _ \<Rightarrow> Some (Str c)) of
             None \<Rightarrow> None
           | Some x \<Rightarrow> map_option (Cons x) (rlp_items r)))"
  by (simp_all add: rlp_items.simps [of "[]"] rlp_items.simps [of "x # xs"] split: kind.split option.split)

definition rlp_decode :: "bytes \<Rightarrow> rlp option" where
  "rlp_decode b = (case rlp_items b of Some [x] \<Rightarrow> Some x | _ \<Rightarrow> None)"

text \<open>Lengths are 64-bit in the source: the codec is stated for values whose encoding is.\<close>

abbreviation rlp_fits :: "rlp \<Rightarrow> bool" where
  "rlp_fits x \<equiv> length (rlp_encode x) < 2 ^ 64"


subsection \<open>Reading back a header\<close>

lemma unat_tag: "unat (t :: byte) + n < 256 \<Longrightarrow> unat (t + of_nat n) = unat t + n"
  by (simp add: unat_word_ariths unat_of_nat take_bit_eq_mod)

lemma tag_sub: "unat (t :: byte) + n < 256 \<Longrightarrow> unat (t + of_nat n - t) = n"
  by (simp add: unat_of_nat take_bit_eq_mod)

lemma readSize_be_bytes:
  assumes "56 \<le> n"
  shows "rlp_readSize (be_bytes n @ rest) (length (be_bytes n)) = Some n"
proof -
  from assms have "n \<noteq> 0" by simp
  then have "hd (be_bytes n @ rest) \<noteq> 0" using hd_be_bytes [of n] by simp
  with assms show ?thesis by (simp add: rlp_readSize_def)
qed

lemma length_be_bytes_bounds:
  assumes "n < 2 ^ 64" "56 \<le> n"
  shows "0 < length (be_bytes n)" "length (be_bytes n) \<le> 8"
proof -
  show "0 < length (be_bytes n)" using assms by simp
  have "(2::nat) ^ 64 = 256 ^ 8" by simp
  with assms show "length (be_bytes n) \<le> 8" by (metis length_be_bytes_le)
qed

lemma rlp_split_list_head:
  assumes "length c < 2 ^ 64"
  shows "rlp_split (rlp_head 0xC0 0xF7 (length c) @ c @ rest) = Some (List, c, rest)"
proof (cases "length c < 56")
  case True
  then have "unat (0xC0 + of_nat (length c) :: byte) = 0xC0 + length c"
    and "unat (0xC0 + of_nat (length c) - 0xC0 :: byte) = length c"
    using unat_tag [of "0xC0" "length c"] tag_sub [of "0xC0" "length c"] by simp_all
  with True show ?thesis
    by (simp add: rlp_split_def rlp_readKind_def rlp_head_def word_less_nat_alt Let_def)
next
  case False
  let ?L = "length (be_bytes (length c))"
  from False assms have L: "0 < ?L" "?L \<le> 8" using length_be_bytes_bounds by auto
  then have "unat (0xF7 + of_nat ?L :: byte) = 0xF7 + ?L"
    and "unat (0xF7 + of_nat ?L - 0xF7 :: byte) = ?L"
    using unat_tag [of "0xF7" ?L] tag_sub [of "0xF7" ?L] by simp_all
  with False L show ?thesis
    by (simp add: rlp_split_def rlp_readKind_def rlp_head_def word_less_nat_alt Let_def
        readSize_be_bytes)
qed

lemma rlp_split_string_head:
  assumes "length c < 2 ^ 64" "\<not> (length c = 1 \<and> hd c \<le> 0x7F)"
  shows "rlp_split (rlp_head 0x80 0xB7 (length c) @ c @ rest) = Some (String, c, rest)"
proof (cases "length c < 56")
  case True
  then have u: "unat (0x80 + of_nat (length c) :: byte) = 0x80 + length c"
    "unat (0x80 + of_nat (length c) - 0x80 :: byte) = length c"
    using unat_tag [of "0x80" "length c"] tag_sub [of "0x80" "length c"] by simp_all
  have "length c = 1 \<Longrightarrow> \<not> hd (c @ rest) < 128"
    using assms(2) by (cases c) (auto simp: word_less_nat_alt word_le_nat_alt)
  with True u show ?thesis
    by (simp add: rlp_split_def rlp_readKind_def rlp_head_def word_less_nat_alt Let_def)
next
  case False
  let ?L = "length (be_bytes (length c))"
  from False assms have L: "0 < ?L" "?L \<le> 8" using length_be_bytes_bounds by auto
  then have "unat (0xB7 + of_nat ?L :: byte) = 0xB7 + ?L"
    and "unat (0xB7 + of_nat ?L - 0xB7 :: byte) = ?L"
    using unat_tag [of "0xB7" ?L] tag_sub [of "0xB7" ?L] by simp_all
  with False L show ?thesis
    by (simp add: rlp_split_def rlp_readKind_def rlp_head_def word_less_nat_alt Let_def
        readSize_be_bytes)
qed

lemma rlp_split_string:
  assumes "length b < 2 ^ 64"
  shows "\<exists>k. k \<noteq> List \<and> rlp_split (rlp_string b @ rest) = Some (k, b, rest)"
proof (cases "length b = 1 \<and> hd b \<le> 0x7F")
  case True
  then obtain x where b: "b = [x]" and "x \<le> 0x7F" by (cases b) auto
  then have "x < 0x80" by (simp add: word_less_nat_alt word_le_nat_alt)
  with b True show ?thesis
    by (simp add: rlp_string_def rlp_split_def rlp_readKind_def)
next
  case False
  then have s: "rlp_string b = rlp_head 0x80 0xB7 (length b) @ b" by (simp only: rlp_string_def if_False)
  show ?thesis
    using rlp_split_string_head [OF assms False, of rest] by (simp add: s)
qed


subsection \<open>Decoding what was encoded\<close>

lemma length_rlp_string: "length b \<le> length (rlp_string b)"
  by (simp add: rlp_string_def)

lemma rlp_encode_nonempty [simp]: "rlp_encode x \<noteq> []"
  by (cases x) (auto simp: rlp_string_def rlp_head_def Let_def)

lemma rlp_items_cons:
  "rlp_items (rlp_encode x @ rest) =
     (case rlp_items (rlp_encode x) of
        Some [y] \<Rightarrow> map_option (Cons y) (rlp_items rest) | _ \<Rightarrow> None)" if "rlp_fits x"
proof (cases x)
  case (Str b)
  with that have "length b < 2 ^ 64" using length_rlp_string [of b] by simp
  then obtain k k' where "k \<noteq> List" "rlp_split (rlp_string b @ rest) = Some (k, b, rest)"
    and "k' \<noteq> List" "rlp_split (rlp_string b) = Some (k', b, [])"
    using rlp_split_string [of b rest] rlp_split_string [of b "[]"] by auto
  moreover have "rlp_string b \<noteq> []" using rlp_encode_nonempty [of "Str b"] by simp
  ultimately show ?thesis using Str
    by (simp add: rlp_items.simps [of "rlp_string b @ rest"] rlp_items.simps [of "rlp_string b"]
        rlp_items.simps [of "[]"])
next
  case (Lst xs)
  let ?c = "concat (map rlp_encode xs)"
  let ?h = "rlp_head 0xC0 0xF7 (length ?c)"
  from Lst that have c: "length ?c < 2 ^ 64" by (simp add: Let_def)
  have e: "rlp_encode x = ?h @ ?c" using Lst by (simp add: Let_def)
  have h: "?h \<noteq> []" by (simp add: rlp_head_def)
  show ?thesis
    using rlp_split_list_head [OF c, of rest] rlp_split_list_head [OF c, of "[]"] h
    by (simp add: e rlp_items.simps [of "?h @ ?c @ rest"] rlp_items.simps [of "?h @ ?c"]
        rlp_items.simps [of "[]"] split: option.splits list.splits)
qed

lemma rlp_items_concat:
  assumes "\<And>x. x \<in> set xs \<Longrightarrow> rlp_fits x \<and> rlp_items (rlp_encode x) = Some [x]"
  shows "rlp_items (concat (map rlp_encode xs)) = Some xs"
  using assms
proof (induction xs)
  case Nil
  then show ?case by (simp add: rlp_items.simps)
next
  case (Cons x xs)
  then have "rlp_fits x" and "rlp_items (rlp_encode x) = Some [x]"
    and "rlp_items (concat (map rlp_encode xs)) = Some xs" by auto
  then show ?case by (simp add: rlp_items_cons)
qed

lemma length_concat_member: "x \<in> set xs \<Longrightarrow> length (f x) \<le> length (concat (map f xs))"
  by (induction xs) auto

lemma rlp_items_encode: "rlp_fits x \<Longrightarrow> rlp_items (rlp_encode x) = Some [x]"
proof (induction x)
  case (Str b)
  then have "length b < 2 ^ 64" using length_rlp_string [of b] by simp
  then obtain k where "k \<noteq> List" "rlp_split (rlp_string b) = Some (k, b, [])"
    using rlp_split_string [of b "[]"] by auto
  moreover have "rlp_string b \<noteq> []" using rlp_encode_nonempty [of "Str b"] by simp
  ultimately show ?case
    by (simp add: rlp_items.simps [of "rlp_string b"] rlp_items.simps [of "[]"])
next
  case (Lst xs)
  let ?c = "concat (map rlp_encode xs)"
  let ?h = "rlp_head 0xC0 0xF7 (length ?c)"
  from Lst.prems have c: "length ?c < 2 ^ 64" by (simp add: Let_def)
  have "rlp_items ?c = Some xs"
  proof (rule rlp_items_concat)
    fix x assume x: "x \<in> set xs"
    with c have "rlp_fits x" using length_concat_member [OF x, of rlp_encode] by simp
    with x Lst.IH show "rlp_fits x \<and> rlp_items (rlp_encode x) = Some [x]" by blast
  qed
  moreover have "?h \<noteq> []" by (simp add: rlp_head_def)
  ultimately show ?case using rlp_split_list_head [OF c, of "[]"]
    by (simp add: Let_def rlp_items.simps [of "?h @ ?c"] rlp_items.simps [of "[]"])
qed

lemma rlp_decode_encode [simp]: "rlp_fits x \<Longrightarrow> rlp_decode (rlp_encode x) = Some x"
  by (simp add: rlp_decode_def rlp_items_encode)


subsection \<open>No value has two encodings\<close>

lemma word_sub_add_of_nat: "(b :: byte) = t + of_nat (unat (b - t))"
  by simp

lemma readSize_inv:
  assumes "rlp_readSize tail n = Some s" "0 < n"
  shows "take n tail = be_bytes s" "length (be_bytes s) = n" "56 \<le> s"
proof -
  from assms have n: "n \<le> length tail" and s: "s = be_val (take n tail)" "56 \<le> s" "hd tail \<noteq> 0"
    by (auto simp: rlp_readSize_def Let_def split: if_splits)
  have "hd (take n tail) \<noteq> 0" using assms(2) s(3) by (cases tail; cases n) auto
  then have "be_bytes s = take n tail" using s(1) be_bytes_be_val by simp
  then show "take n tail = be_bytes s" "length (be_bytes s) = n" using n by simp_all
  show "56 \<le> s" by (rule s(2))
qed

lemma head_long:
  assumes "rlp_readSize tail (unat (b - large)) = Some cs" "0 < unat (b - large)"
    and "cs \<le> length tail - unat (b - large)"
  shows "b # tail = rlp_head small large cs @ take cs (drop (unat (b - large)) tail)
           @ drop (unat (b - large) + cs) tail"
proof -
  let ?n = "unat (b - large)"
  note inv = readSize_inv [OF assms(1,2)]
  have "large + of_nat (length (be_bytes cs)) = b"
    by (simp only: inv(2) flip: word_sub_add_of_nat)
  then have "rlp_head small large cs = b # be_bytes cs"
    using inv(3) by (simp add: rlp_head_def)
  moreover have "tail = take ?n tail @ take cs (drop ?n tail) @ drop (?n + cs) tail"
    by (metis append_take_drop_id drop_drop add.commute)
  ultimately show ?thesis using inv(1) by simp
qed

lemma head_short:
  assumes "unat (b - small) < 56" "unat (b - small) \<le> length tail"
  shows "b # tail = rlp_head small large (unat (b - small)) @ take (unat (b - small)) tail
           @ drop (unat (b - small)) tail"
proof -
  have "rlp_head small large (unat (b - small)) = [b]"
    using assms(1) by (simp only: rlp_head_def if_True flip: word_sub_add_of_nat)
  then show ?thesis by simp
qed

lemma rlp_string_long: "56 \<le> length c \<Longrightarrow> rlp_string c = rlp_head 0x80 0xB7 (length c) @ c"
  by (simp add: rlp_string_def)

lemma unat_minus_ge: "(t :: byte) \<le> b \<Longrightarrow> unat (b - t) = unat b - unat t"
  by (simp add: unat_sub)

lemma rlp_split_inv:
  assumes "rlp_split b = Some (k, c, r)"
  shows "b = (if k = List then rlp_head 0xC0 0xF7 (length c) @ c else rlp_string c) @ r"
proof -
  from assms obtain ts cs where rk: "rlp_readKind b = Some (k, ts, cs)"
    and c: "c = take cs (drop ts b)" and r: "r = drop (ts + cs) b"
    by (auto simp: rlp_split_def split: option.splits)
  from rk obtain h tail where b: "b = h # tail" by (cases b) (auto simp: rlp_readKind_def)
  have len: "length c = cs" using c rlp_readKind_ts [OF rk] by auto
  consider (byte) "h < 0x80" | (short) "0x80 \<le> h" "h < 0xB8" | (long) "0xB8 \<le> h" "h < 0xC0"
    | (lshort) "0xC0 \<le> h" "h < 0xF8" | (llong) "0xF8 \<le> h" by fastforce
  then show ?thesis
  proof cases
    case byte
    with rk b c r have "k = Byte" "c = [h]" "r = tail" by (auto simp: rlp_readKind_def split: if_splits)
    moreover from byte have "h \<le> 0x7F" by (simp add: word_less_nat_alt word_le_nat_alt)
    ultimately show ?thesis using b by (simp add: rlp_string_def)
  next
    case short
    let ?n = "unat (h - 0x80)"
    from short have n: "?n < 56" by (simp add: unat_minus_ge word_less_nat_alt word_le_nat_alt)
    from short rk b have k: "k = String" "ts = 1" "cs = ?n" "?n \<le> length tail"
      and one: "\<not> (?n = 1 \<and> tail \<noteq> [] \<and> hd tail < 128)"
      by (auto simp: rlp_readKind_def Let_def not_less split: if_splits)
    have "\<not> (length c = 1 \<and> hd c \<le> 0x7F)"
      using one len k c b by (cases tail) (auto simp: word_less_nat_alt word_le_nat_alt)
    then have "rlp_string c = rlp_head 0x80 0xB7 (length c) @ c" by (simp only: rlp_string_def if_False)
    moreover have "b = rlp_head 0x80 0xB7 (length c) @ c @ r"
      unfolding b len k(3) by (subst head_short [OF n k(4), of "0xB7"]) (simp add: c r b k(2,3))
    ultimately show ?thesis using k(1) by simp
  next
    case long
    let ?n = "unat (h - 0xB7)"
    from long have n: "0 < ?n" by (simp add: unat_minus_ge word_less_nat_alt word_le_nat_alt)
    from long rk b have k: "k = String" "ts = ?n + 1" "rlp_readSize tail ?n = Some cs"
      "cs \<le> length tail - ?n"
      by (auto simp: rlp_readKind_def Let_def not_less word_less_nat_alt word_le_nat_alt
          split: if_splits option.splits)
    from readSize_inv(3) [OF k(3) n] len have "rlp_string c = rlp_head 0x80 0xB7 (length c) @ c"
      by (simp add: rlp_string_long)
    moreover have "b = rlp_head 0x80 0xB7 (length c) @ c @ r"
      unfolding b len by (subst head_long [OF k(3) n k(4), of "0x80"]) (simp add: c r b k(2))
    ultimately show ?thesis using k(1) by simp
  next
    case lshort
    let ?n = "unat (h - 0xC0)"
    from lshort have n: "?n < 56" by (simp add: unat_minus_ge word_less_nat_alt word_le_nat_alt)
    from lshort rk b have k: "k = List" "ts = 1" "cs = ?n" "?n \<le> length tail"
      by (auto simp: rlp_readKind_def Let_def not_less word_less_nat_alt word_le_nat_alt
          split: if_splits option.splits)
    have "b = rlp_head 0xC0 0xF7 (length c) @ c @ r"
      unfolding b len k(3) by (subst head_short [OF n k(4), of "0xF7"]) (simp add: c r b k(2,3))
    then show ?thesis using k(1) by simp
  next
    case llong
    let ?n = "unat (h - 0xF7)"
    from llong have n: "0 < ?n" by (simp add: unat_minus_ge word_less_nat_alt word_le_nat_alt)
    from llong rk b have k: "k = List" "ts = ?n + 1" "rlp_readSize tail ?n = Some cs"
      "cs \<le> length tail - ?n"
      by (auto simp: rlp_readKind_def Let_def not_less word_less_nat_alt word_le_nat_alt
          split: if_splits option.splits)
    have "b = rlp_head 0xC0 0xF7 (length c) @ c @ r"
      unfolding b len by (subst head_long [OF k(3) n k(4), of "0xC0"]) (simp add: c r b k(2))
    then show ?thesis using k(1) by simp
  qed
qed

lemma rlp_items_inv: "rlp_items b = Some xs \<Longrightarrow> concat (map rlp_encode xs) = b"
proof (induction b arbitrary: xs rule: rlp_items.induct)
  case (1 b)
  show ?case
  proof (cases "b = []")
    case True
    with 1 show ?thesis by (simp add: rlp_items.simps)
  next
    case False
    with "1.prems" obtain k c r x ys where s: "rlp_split b = Some (k, c, r)"
      and x: "(if k = List then map_option Lst (rlp_items c) else Some (Str c)) = Some x"
      and ys: "rlp_items r = Some ys" and xs: "xs = x # ys"
      by (subst (asm) rlp_items.simps) (auto split: option.splits prod.splits)
    have "rlp_encode x = (if k = List then rlp_head 0xC0 0xF7 (length c) @ c else rlp_string c)"
      using x "1.IH"(1) [OF False s refl refl] by (auto simp: Let_def split: if_splits)
    moreover have "concat (map rlp_encode ys) = r"
      using "1.IH"(2) [OF False s refl refl x ys] .
    ultimately show ?thesis using xs rlp_split_inv [OF s] by simp
  qed
qed

lemma rlp_encode_decode: "rlp_decode b = Some x \<Longrightarrow> rlp_encode x = b"
  using rlp_items_inv [of b "[x]"] by (auto simp: rlp_decode_def split: option.splits list.splits)

lemma rlp_encode_inject:
  "rlp_fits x \<Longrightarrow> rlp_fits y \<Longrightarrow> rlp_encode x = rlp_encode y \<longleftrightarrow> x = y"
  by (metis rlp_decode_encode option.inject)


subsection \<open>Codecs as an interface\<close>

text \<open>
  What the clients of the codec rely on. An \<open>item_codec\<close> turns a typed value into an RLP value
  (\<open>to_item\<close>, \<open>None\<close> where the encoder returns an error) and back. Both directions are laws: the decoder reads back what was encoded, and it
  accepts nothing but encodings. Composed with the byte level it is a \<open>byte_codec\<close>.
\<close>

locale byte_codec =
  fixes enc :: "'a \<Rightarrow> bytes option" and dec :: "bytes \<Rightarrow> 'a option"
  assumes dec_enc: "enc x = Some b \<Longrightarrow> dec b = Some x"
    and enc_dec: "dec b = Some x \<Longrightarrow> enc x = Some b"
begin

lemma enc_inject: "enc x = Some b \<Longrightarrow> enc y = Some b \<Longrightarrow> x = y"
  using dec_enc [of x b] dec_enc [of y b] by simp

lemma dec_inject: "dec b = Some x \<Longrightarrow> dec b' = Some x \<Longrightarrow> b = b'"
  using enc_dec [of b x] enc_dec [of b' x] by simp

lemma dec_iff: "dec b = Some x \<longleftrightarrow> enc x = Some b"
  using dec_enc enc_dec by blast

end

locale item_codec =
  fixes to_item :: "'a \<Rightarrow> rlp option" and of_item :: "rlp \<Rightarrow> 'a option"
  assumes of_to: "to_item x = Some i \<Longrightarrow> of_item i = Some x"
    and to_of: "of_item i = Some x \<Longrightarrow> to_item x = Some i"
begin

lemma to_item_iff: "to_item x = Some i \<longleftrightarrow> of_item i = Some x"
  using of_to to_of by blast

lemma combine_of_to: "those (map to_item xs) = Some is \<Longrightarrow> those (map of_item is) = Some xs"
  by (induction xs arbitrary: "is") (auto simp: of_to split: option.splits)

lemma combine_to_of: "those (map of_item is) = Some xs \<Longrightarrow> those (map to_item xs) = Some is"
  by (induction "is" arbitrary: xs) (auto simp: to_of split: option.splits)

end

text \<open>
  A Go slice has fewer than $2^{63}$ elements. A value with a longer encoding cannot be held in
  memory, so the encoder has no result for it; a longer input cannot be given to the decoder.
\<close>

definition slice_len_ok :: "nat \<Rightarrow> bool" where
  "slice_len_ok n \<longleftrightarrow> n < 2 ^ 63"

lemma slice_len_ok_code [code]: "slice_len_ok n \<longleftrightarrow> int n < 2 ^ 63"
  by (simp add: slice_len_ok_def)

definition EncodeToBytes :: "('a \<Rightarrow> rlp option) \<Rightarrow> 'a \<Rightarrow> bytes option" where
  "EncodeToBytes to_item x =
     (case to_item x of None \<Rightarrow> None
      | Some i \<Rightarrow> let b = rlp_encode i in if slice_len_ok (length b) then Some b else None)"

definition DecodeBytes :: "(rlp \<Rightarrow> 'a option) \<Rightarrow> bytes \<Rightarrow> 'a option" where
  "DecodeBytes of_item b =
     (if slice_len_ok (length b) then Option.bind (rlp_decode b) of_item else None)"

sublocale item_codec \<subseteq> bytes: byte_codec "EncodeToBytes to_item" "DecodeBytes of_item"
proof
  fix x b
  assume "EncodeToBytes to_item x = Some b"
  then obtain i where i: "to_item x = Some i" "b = rlp_encode i" "slice_len_ok (length b)"
    by (auto simp: EncodeToBytes_def Let_def split: option.splits if_splits)
  then have "rlp_fits i" by (simp add: slice_len_ok_def)
  with i show "DecodeBytes of_item b = Some x" by (simp add: DecodeBytes_def of_to)
next
  fix b x
  assume "DecodeBytes of_item b = Some x"
  then obtain i where "rlp_decode b = Some i" "of_item i = Some x" "slice_len_ok (length b)"
    by (auto simp: DecodeBytes_def bind_eq_Some_conv split: if_splits)
  then show "EncodeToBytes to_item x = Some b"
    by (simp add: EncodeToBytes_def to_of rlp_encode_decode)
qed


subsection \<open>The field types of the source\<close>

definition uint64_item :: "uint64 \<Rightarrow> rlp option" where
  "uint64_item w = Some (Str (be_bytes (unat w)))"

definition item_uint64 :: "rlp \<Rightarrow> uint64 option" where
  "item_uint64 i =
     (case i of Lst _ \<Rightarrow> None
      | Str b \<Rightarrow> if 8 < length b \<or> (b \<noteq> [] \<and> hd b = 0) then None else Some (of_nat (be_val b)))"

definition bigInt_item :: "int \<Rightarrow> rlp option" where
  "bigInt_item n = (if n < 0 then None else Some (Str (be_bytes (nat n))))"

definition item_bigInt :: "rlp \<Rightarrow> int option" where
  "item_bigInt i =
     (case i of Lst _ \<Rightarrow> None
      | Str b \<Rightarrow> if b \<noteq> [] \<and> hd b = 0 then None else Some (int (be_val b)))"

definition bytes_item :: "bytes \<Rightarrow> rlp option" where
  "bytes_item b = Some (Str b)"

definition item_bytes :: "rlp \<Rightarrow> bytes option" where
  "item_bytes i = (case i of Lst _ \<Rightarrow> None | Str b \<Rightarrow> Some b)"

definition array_item :: "nat \<Rightarrow> 'w::len word \<Rightarrow> rlp option" where
  "array_item n w = Some (Str (be_fixed n (unat w)))"

definition item_array :: "nat \<Rightarrow> rlp \<Rightarrow> 'w::len word option" where
  "item_array n i =
     (case i of Lst _ \<Rightarrow> None
      | Str b \<Rightarrow> if length b = n then Some (of_nat (be_val b)) else None)"

definition list_item :: "('a \<Rightarrow> rlp option) \<Rightarrow> 'a list \<Rightarrow> rlp option" where
  "list_item f xs = map_option Lst (those (map f xs))"

definition item_list :: "(rlp \<Rightarrow> 'a option) \<Rightarrow> rlp \<Rightarrow> 'a list option" where
  "item_list f i = (case i of Str _ \<Rightarrow> None | Lst is \<Rightarrow> those (map f is))"

lemma be_val_take64: "length b \<le> 8 \<Longrightarrow> be_val b < 2 ^ 64"
proof -
  assume "length b \<le> 8"
  then have "(256::nat) ^ length b \<le> 256 ^ 8" by (intro power_increasing) auto
  with be_val_less [of b] show ?thesis by simp
qed

interpretation uint64_codec: item_codec uint64_item item_uint64
proof
  fix w :: uint64 and i
  assume "uint64_item w = Some i"
  moreover have "length (be_bytes (unat w)) \<le> 8"
    by (rule length_be_bytes_le) (use unsigned_less [of w] in simp)
  moreover have "be_bytes (unat w) \<noteq> [] \<longrightarrow> hd (be_bytes (unat w)) \<noteq> 0"
    by (simp add: hd_be_bytes)
  ultimately show "item_uint64 i = Some w"
    by (auto simp: uint64_item_def item_uint64_def simp flip: unat_eq_zero)
next
  fix i and w :: uint64
  assume "item_uint64 i = Some w"
  then obtain b where i: "i = Str b" and b: "length b \<le> 8" "b = [] \<or> hd b \<noteq> 0"
    and w: "w = of_nat (be_val b)"
    by (auto simp: item_uint64_def split: rlp.splits if_splits)
  have "be_val b < 2 ^ LENGTH(64)" using be_val_take64 [OF b(1)] by simp
  then have "unat w = be_val b"
    by (simp only: w unat_of_nat take_bit_eq_mod mod_less)
  with b(2) i show "uint64_item w = Some i" by (simp add: uint64_item_def be_bytes_be_val)
qed

interpretation bigInt_codec: item_codec bigInt_item item_bigInt
proof
  fix n i
  assume "bigInt_item n = Some i"
  then have "i = Str (be_bytes (nat n))" "0 \<le> n" by (auto simp: bigInt_item_def split: if_splits)
  then show "item_bigInt i = Some n" using hd_be_bytes [of "nat n"] by (auto simp: item_bigInt_def)
next
  fix i n
  assume "item_bigInt i = Some n"
  then show "bigInt_item n = Some i"
    by (auto simp: item_bigInt_def bigInt_item_def be_bytes_be_val split: rlp.splits if_splits)
qed

interpretation bytes_codec: item_codec bytes_item item_bytes
  by unfold_locales (auto simp: bytes_item_def item_bytes_def split: rlp.splits)

lemma array_codec:
  assumes "LENGTH('w::len) = 8 * n"
  shows "item_codec (array_item n :: 'w word \<Rightarrow> rlp option) (item_array n)"
proof
  have pow: "(2::nat) ^ LENGTH('w) = 256 ^ n" by (simp add: assms power_mult)
  fix w :: "'w word" and i
  assume "array_item n w = Some i"
  moreover have "unat w < 256 ^ n" using unsigned_less [of w, where 'a = nat] by (simp only: pow)
  ultimately show "item_array n i = Some w"
    by (auto simp: array_item_def item_array_def be_val_be_fixed)
next
  have pow: "(2::nat) ^ LENGTH('w) = 256 ^ n" by (simp add: assms power_mult)
  fix i and w :: "'w word"
  assume "item_array n i = Some w"
  then obtain b where "i = Str b" "length b = n" "w = of_nat (be_val b)"
    by (auto simp: item_array_def split: rlp.splits if_splits)
  moreover from this have "unat w = be_val b"
    using be_val_less [of b] by (simp only: unat_of_nat take_bit_eq_mod pow mod_less)
  ultimately show "array_item n w = Some i"
    using be_fixed_be_val [of b] by (simp add: array_item_def)
qed

interpretation address_codec: item_codec "array_item 20 :: address \<Rightarrow> rlp option" "item_array 20"
  by (rule array_codec) simp

interpretation hash_codec: item_codec "array_item 32 :: hash \<Rightarrow> rlp option" "item_array 32"
  by (rule array_codec) simp

lemma list_codec:
  assumes "item_codec f g"
  shows "item_codec (list_item f) (item_list g)"
proof
  fix xs i
  assume "list_item f xs = Some i"
  then obtain ys where "i = Lst ys" "those (map f xs) = Some ys" by (auto simp: list_item_def)
  then show "item_list g i = Some xs"
    using item_codec.combine_of_to [OF assms, of xs ys] by (simp add: item_list_def)
next
  fix i xs
  assume "item_list g i = Some xs"
  then obtain ys where "i = Lst ys" "those (map g ys) = Some xs"
    by (auto simp: item_list_def split: rlp.splits)
  then show "list_item f xs = Some i"
    using item_codec.combine_to_of [OF assms, of ys xs] by (simp add: list_item_def)
qed

end
