(* ===== verification/Sport_Model.thy ===== *)
theory Sport_Model
  imports Rlp
begin

text \<open>
  The data model of the Sport consensus (\<open>consensus/sport\<close>, \<open>consensus/sport/smilobftcore\<close>):
  views, subjects, proposals, the PRE-PREPARE body and the signed message envelope, with their
  RLP codecs, the states of the core and the errors of the engine.

  \<open>crypto\<close> and \<open>block_codec\<close> collect what comes from outside: the Keccak hash, public-key
  recovery, and the RLP form of a whole block body.
\<close>

subsection \<open>Errors\<close>

datatype error =
    ErrUnauthorizedAddress | ErrStoppedEngine | ErrStartedEngine
  | errInconsistentSubject | errNotFromSpeaker | errIgnored | errFutureMessage | errOldMessage
  | errInvalidMessage | errFailedDecodePreprepare | errFailedDecodePrepare | errFailedDecodeCommit
  | ErrRlp | ErrRecover
  | ErrFutureBlock | ErrUnknownAncestor | ErrBlacklistedHash
  | errInvalidBlockProposal | errInvalidSignature | errUnknownBlock | errUnauthorized
  | errInvalidDifficulty | errInvalidExtraDataFormat | errInvalidMixDigest | errInvalidNonce
  | errInvalidUncleHash | errInvalidTimestamp | errInvalidVotingChain | errInvalidVote
  | errInvalidCommittedSeals | errEmptyCommittedSeals | errMismatchTxhashes | errWaitTransactions
  | errDecodeFailed | ErrInvalidSportHeaderExtra | ErrDatabase | ErrPanic


subsection \<open>Keccak and signature recovery\<close>

record crypto =
  Keccak256 :: "bytes \<Rightarrow> bytes"
  SigToAddress :: "bytes \<Rightarrow> bytes \<Rightarrow> address option"

definition GetSignatureAddress :: "crypto \<Rightarrow> bytes \<Rightarrow> bytes \<Rightarrow> error + address" where
  "GetSignatureAddress cr data sig =
     (case SigToAddress cr (Keccak256 cr data) sig of
        None \<Rightarrow> Inl ErrRecover | Some a \<Rightarrow> Inr a)"

definition BytesToHash :: "bytes \<Rightarrow> hash" where
  "BytesToHash b = of_nat (be_val b)"

definition hash_Bytes :: "hash \<Rightarrow> bytes" where
  "hash_Bytes h = be_fixed 32 (unat h)"

lemma length_hash_Bytes [simp]: "length (hash_Bytes h) = 32"
  by (simp add: hash_Bytes_def)

lemma be_val_hash_Bytes [simp]: "be_val (hash_Bytes h) = unat h"
  using unsigned_less [where 'a = nat and w = h] by (simp add: hash_Bytes_def be_val_be_fixed)

lemma BytesToHash_hash_Bytes [simp]: "BytesToHash (hash_Bytes h) = h"
  by (simp add: BytesToHash_def)

lemma hash_Bytes_BytesToHash: "length b = 32 \<Longrightarrow> hash_Bytes (BytesToHash b) = b"
  using be_val_less [of b] be_fixed_be_val [of b]
  by (simp add: hash_Bytes_def BytesToHash_def unat_of_nat take_bit_nat_eq_self)

lemma hash_Bytes_inject [simp]: "hash_Bytes h = hash_Bytes k \<longleftrightarrow> h = k"
  by (metis BytesToHash_hash_Bytes)


subsection \<open>Configuration\<close>

record Config =
  RequestTimeout :: uint64
  MaxTimeout :: uint64
  BlockPeriod :: uint64
  SpeakerPolicy :: uint64
  Epoch :: uint64
  DataDir :: string
  MinFunds :: uint64
  CommunityAddress :: string
  MinBlocksEmptyMining :: int

definition DefaultConfig :: Config where
  "DefaultConfig =
     \<lparr>RequestTimeout = 10000, MaxTimeout = 60, BlockPeriod = 1, SpeakerPolicy = 0, Epoch = 30000,
      DataDir = [], MinFunds = 1, CommunityAddress = [], MinBlocksEmptyMining = 1000000\<rparr>"


subsection \<open>Views\<close>

record view =
  Round :: int
  Sequence :: int

definition Cmp :: "int \<Rightarrow> int \<Rightarrow> int" where
  "Cmp a b = (if a < b then -1 else if a = b then 0 else 1)"

definition view_Cmp :: "view \<Rightarrow> view \<Rightarrow> int" where
  "view_Cmp v y =
     (if Cmp (Sequence v) (Sequence y) \<noteq> 0 then Cmp (Sequence v) (Sequence y)
      else if Cmp (Round v) (Round y) \<noteq> 0 then Cmp (Round v) (Round y)
      else 0)"

definition view_item :: "view \<Rightarrow> rlp option" where
  "view_item v =
     (case (bigInt_item (Round v), bigInt_item (Sequence v)) of
        (Some r, Some s) \<Rightarrow> Some (Lst [r, s]) | _ \<Rightarrow> None)"

definition item_view :: "rlp \<Rightarrow> view option" where
  "item_view i =
     (case i of Lst [r, s] \<Rightarrow>
        (case (item_bigInt r, item_bigInt s) of
           (Some r, Some s) \<Rightarrow> Some \<lparr>Round = r, Sequence = s\<rparr> | _ \<Rightarrow> None)
      | _ \<Rightarrow> None)"


subsection \<open>Subjects\<close>

record subject =
  subj_View :: view
  Digest :: hash

definition subject_item :: "subject \<Rightarrow> rlp option" where
  "subject_item b =
     (case (view_item (subj_View b), array_item 32 (Digest b)) of
        (Some v, Some d) \<Rightarrow> Some (Lst [v, d]) | _ \<Rightarrow> None)"

definition item_subject :: "rlp \<Rightarrow> subject option" where
  "item_subject i =
     (case i of Lst [v, d] \<Rightarrow>
        (case (item_view v, item_array 32 d) of
           (Some v, Some d) \<Rightarrow> Some \<lparr>subj_View = v, Digest = d\<rparr> | _ \<Rightarrow> None)
      | _ \<Rightarrow> None)"


subsection \<open>Proposals, requests and PRE-PREPARE bodies\<close>

text \<open>
  \<open>sport.BlockProposal\<close> is an interface; its only implementation is \<open>*types.Block\<close>. The core
  reads the number, the hash and the parent hash of a proposal, and passes the block itself on:
  \<open>Content\<close> stands for that block.
\<close>

record proposal =
  Number :: int
  Hash :: hash
  ParentHash :: hash
  Content :: rlp

type_synonym request = "proposal option"

record preprepare =
  pp_View :: view
  pp_Proposal :: proposal

record block_codec =
  block_item :: "proposal \<Rightarrow> rlp option"
  item_block :: "rlp \<Rightarrow> proposal option"

definition preprepare_item :: "block_codec \<Rightarrow> preprepare \<Rightarrow> rlp option" where
  "preprepare_item bc b =
     (case (view_item (pp_View b), block_item bc (pp_Proposal b)) of
        (Some v, Some p) \<Rightarrow> Some (Lst [v, p]) | _ \<Rightarrow> None)"

definition item_preprepare :: "block_codec \<Rightarrow> rlp \<Rightarrow> preprepare option" where
  "item_preprepare bc i =
     (case i of Lst [v, p] \<Rightarrow>
        (case (item_view v, item_block bc p) of
           (Some v, Some p) \<Rightarrow> Some \<lparr>pp_View = v, pp_Proposal = p\<rparr> | _ \<Rightarrow> None)
      | _ \<Rightarrow> None)"


subsection \<open>Messages\<close>

text \<open>
  The message codes continue the numbering of the states, because both are written in one
  \<open>const\<close> block with \<open>iota\<close>: the first code is 4.
\<close>

datatype State = StateAcceptRequest | StatePreprepared | StatePrepared | StateCommitted

primrec state_ord :: "State \<Rightarrow> nat" where
  "state_ord StateAcceptRequest = 0"
| "state_ord StatePreprepared = 1"
| "state_ord StatePrepared = 2"
| "state_ord StateCommitted = 3"

definition msgPreprepare :: uint64 where "msgPreprepare = 4"
definition msgPrepare :: uint64 where "msgPrepare = 5"
definition msgCommit :: uint64 where "msgCommit = 6"
definition msgRoundChange :: uint64 where "msgRoundChange = 7"

lemmas msg_codes = msgPreprepare_def msgPrepare_def msgCommit_def msgRoundChange_def

definition state_Cmp :: "State \<Rightarrow> State \<Rightarrow> int" where
  "state_Cmp s y =
     (if state_ord s < state_ord y then -1 else if state_ord y < state_ord s then 1 else 0)"

record message =
  Code :: uint64
  Msg :: bytes
  Address :: address
  Signature :: bytes
  CommittedSeal :: bytes

definition message_item :: "message \<Rightarrow> rlp option" where
  "message_item m =
     (case (uint64_item (Code m), bytes_item (Msg m), array_item 20 (Address m),
            bytes_item (Signature m), bytes_item (CommittedSeal m)) of
        (Some c, Some b, Some a, Some s, Some cs) \<Rightarrow> Some (Lst [c, b, a, s, cs]) | _ \<Rightarrow> None)"

definition item_message :: "rlp \<Rightarrow> message option" where
  "item_message i =
     (case i of Lst [c, b, a, s, cs] \<Rightarrow>
        (case (item_uint64 c, item_bytes b, item_array 20 a, item_bytes s, item_bytes cs) of
           (Some c, Some b, Some a, Some s, Some cs) \<Rightarrow>
             Some \<lparr>Code = c, Msg = b, Address = a, Signature = s, CommittedSeal = cs\<rparr>
         | _ \<Rightarrow> None)
      | _ \<Rightarrow> None)"

definition Payload :: "message \<Rightarrow> bytes option" where
  "Payload m = EncodeToBytes message_item m"

definition PayloadNoSig :: "message \<Rightarrow> bytes option" where
  "PayloadNoSig m = EncodeToBytes message_item (m\<lparr>Signature := []\<rparr>)"

text \<open>\<open>FromPayload\<close> decodes the envelope and validates the signature over the envelope without it.\<close>

definition FromPayload ::
    "bytes \<Rightarrow> (bytes \<Rightarrow> bytes \<Rightarrow> error + address) option \<Rightarrow> error + message" where
  "FromPayload b validateFn =
     (case DecodeBytes item_message b of
        None \<Rightarrow> Inl ErrRlp
      | Some m \<Rightarrow>
          (case validateFn of None \<Rightarrow> Inr m
           | Some f \<Rightarrow>
               (case PayloadNoSig m of None \<Rightarrow> Inl ErrRlp
                | Some payload \<Rightarrow>
                    (case f payload (Signature m) of Inl e \<Rightarrow> Inl e | Inr _ \<Rightarrow> Inr m))))"

definition SportExtraSeal :: nat where
  "SportExtraSeal = 65"

definition PrepareCommittedSeal :: "hash \<Rightarrow> bytes" where
  "PrepareCommittedSeal h = be_fixed 32 (unat h) @ [ucast msgCommit]"


subsection \<open>Orders\<close>

instantiation State :: linorder
begin

definition less_eq_State :: "State \<Rightarrow> State \<Rightarrow> bool" where
  "s \<le> t \<longleftrightarrow> state_ord s \<le> state_ord t"

definition less_State :: "State \<Rightarrow> State \<Rightarrow> bool" where
  "s < t \<longleftrightarrow> state_ord s < state_ord t"

instance
proof
  fix x y :: State
  show "x \<le> y \<Longrightarrow> y \<le> x \<Longrightarrow> x = y"
    by (cases x; cases y) (simp_all add: less_eq_State_def)
qed (auto simp: less_eq_State_def less_State_def)

end

lemma state_Cmp_less [simp]: "state_Cmp s t < 0 \<longleftrightarrow> s < t"
  by (simp add: state_Cmp_def less_State_def)

lemma view_Cmp_lt [simp]:
  "view_Cmp v y < 0 \<longleftrightarrow>
     Sequence v < Sequence y \<or> (Sequence v = Sequence y \<and> Round v < Round y)"
  by (auto simp: view_Cmp_def Cmp_def)

lemma view_Cmp_gt [simp]:
  "0 < view_Cmp v y \<longleftrightarrow>
     Sequence y < Sequence v \<or> (Sequence v = Sequence y \<and> Round y < Round v)"
  by (auto simp: view_Cmp_def Cmp_def)

lemma view_Cmp_eq [simp]: "view_Cmp v y = 0 \<longleftrightarrow> v = y"
  by (auto simp: view_Cmp_def Cmp_def intro: view.equality)

lemma Cmp_simps [simp]:
  "Cmp a b < 0 \<longleftrightarrow> a < b" "0 < Cmp a b \<longleftrightarrow> b < a" "Cmp a b = 0 \<longleftrightarrow> a = b"
  "0 \<le> Cmp a b \<longleftrightarrow> b \<le> a" "Cmp a b \<le> 0 \<longleftrightarrow> a \<le> b"
  by (auto simp: Cmp_def)


subsection \<open>The codecs satisfy the interface\<close>

interpretation view_codec: item_codec view_item item_view
proof
  fix v i
  assume "view_item v = Some i"
  then show "item_view i = Some v"
    by (auto simp: view_item_def item_view_def bigInt_codec.of_to split: option.splits)
next
  fix i v
  assume "item_view i = Some v"
  then show "view_item v = Some i"
    by (auto simp: view_item_def item_view_def bigInt_codec.to_of
        split: option.splits rlp.splits list.splits)
qed

interpretation subject_codec: item_codec subject_item item_subject
proof
  fix v i
  assume "subject_item v = Some i"
  then show "item_subject i = Some v"
    by (auto simp: subject_item_def item_subject_def view_codec.of_to hash_codec.of_to
        split: option.splits)
next
  fix i v
  assume "item_subject i = Some v"
  then show "subject_item v = Some i"
    by (auto simp: subject_item_def item_subject_def view_codec.to_of hash_codec.to_of
        split: option.splits rlp.splits list.splits)
qed

interpretation message_codec: item_codec message_item item_message
proof
  fix v i
  assume "message_item v = Some i"
  then show "item_message i = Some v"
    by (auto simp: message_item_def item_message_def uint64_codec.of_to bytes_codec.of_to
        address_codec.of_to split: option.splits)
next
  fix i v
  assume "item_message i = Some v"
  then show "message_item v = Some i"
    by (auto simp: message_item_def item_message_def uint64_codec.to_of bytes_codec.to_of
        address_codec.to_of split: option.splits rlp.splits list.splits)
qed

text \<open>A block codec that satisfies the interface makes the PRE-PREPARE codec satisfy it.\<close>

lemma preprepare_codec:
  assumes "item_codec (block_item bc) (item_block bc)"
  shows "item_codec (preprepare_item bc) (item_preprepare bc)"
proof
  fix v i
  assume "preprepare_item bc v = Some i"
  then show "item_preprepare bc i = Some v"
    by (auto simp: preprepare_item_def item_preprepare_def view_codec.of_to
        item_codec.of_to [OF assms] split: option.splits)
next
  fix i v
  assume "item_preprepare bc i = Some v"
  then show "preprepare_item bc v = Some i"
    by (auto simp: preprepare_item_def item_preprepare_def view_codec.to_of
        item_codec.to_of [OF assms] split: option.splits rlp.splits list.splits)
qed

end
