(* ===== verification/Fullnode_Set.thy ===== *)
theory Fullnode_Set
  imports Complex_Main Sport_Model "HOL-Library.Char_ord" "HOL-Library.List_Lexorder" "HOL-Library.Multiset"
begin

text \<open>
  The set of fullnodes (\<open>consensus/sport/fullnode\<close>): a slice of addresses kept sorted by their
  checksummed hexadecimal string, the current speaker, the round-robin speaker selection and the
  two thresholds of the protocol, \<open>MaxFaulty\<close> and \<open>MinApprovers\<close>.

  A \<open>*fullnode\<close> holds an address and nothing else, and is compared by \<open>reflect.DeepEqual\<close>, so
  it is its address. The mutex is not modelled: every operation runs under it. The thresholds are
  computed in the source with \<open>math.Ceil\<close> on float64, which is exact for every slice length that
  fits in memory; the model rounds up in the integers.
\<close>

subsection \<open>Address strings\<close>

definition hex_digit :: "nat \<Rightarrow> char" where
  "hex_digit d = ''0123456789abcdef'' ! d"

definition hex_EncodeToString :: "bytes \<Rightarrow> string" where
  "hex_EncodeToString bs =
     concat (map (\<lambda>b. [hex_digit (unat b div 16), hex_digit (unat b mod 16)]) bs)"

definition checksum_char :: "bytes \<Rightarrow> nat \<Rightarrow> char \<Rightarrow> char" where
  "checksum_char hash i c =
     (let hashByte = (if i mod 2 = 0 then unat (hash ! (i div 2)) div 16
                      else unat (hash ! (i div 2)) mod 16)
      in if (of_char c :: nat) > 57 \<and> hashByte > 7 then char_of (of_char c - 32 :: nat) else c)"

definition Address_Hex :: "crypto \<Rightarrow> address \<Rightarrow> string" where
  "Address_Hex cr a =
     (let unchecksummed = hex_EncodeToString (be_fixed 20 (unat a));
          hash = Keccak256 cr (map of_char unchecksummed)
      in ''0x'' @ map (\<lambda>(i, c). checksum_char hash i c) (enumerate 0 unchecksummed))"


subsection \<open>The set and its operations\<close>

record fullnodeSet =
  fullnodes :: "address list"
  policy :: uint64
  speaker :: "address option"

definition Size :: "fullnodeSet \<Rightarrow> nat" where
  "Size s = length (fullnodes s)"

definition GetByIndex :: "uint64 \<Rightarrow> fullnodeSet \<Rightarrow> address option" where
  "GetByIndex i s = (if i < of_nat (Size s) then Some (fullnodes s ! unat i) else None)"

fun find_addr :: "nat \<Rightarrow> address \<Rightarrow> address list \<Rightarrow> (nat \<times> address) option" where
  "find_addr i a [] = None"
| "find_addr i a (v # vs) = (if a = v then Some (i, v) else find_addr (Suc i) a vs)"

text \<open>\<open>None\<close> is the result \<open>-1, nil\<close>.\<close>

definition GetByAddress :: "address \<Rightarrow> fullnodeSet \<Rightarrow> (nat \<times> address) option" where
  "GetByAddress a s = find_addr 0 a (fullnodes s)"

definition GetSpeaker :: "fullnodeSet \<Rightarrow> address option" where
  "GetSpeaker s = speaker s"

definition IsSpeaker :: "address \<Rightarrow> fullnodeSet \<Rightarrow> bool" where
  "IsSpeaker a s \<longleftrightarrow> GetSpeaker s = map_option snd (GetByAddress a s)"

definition calcSeed :: "fullnodeSet \<Rightarrow> address \<Rightarrow> uint64 \<Rightarrow> uint64" where
  "calcSeed s lastSpk rnd =
     (case GetByAddress lastSpk s of None \<Rightarrow> 0 | Some (idx, _) \<Rightarrow> of_nat idx) + rnd"

definition emptyAddress :: "address \<Rightarrow> bool" where
  "emptyAddress a \<longleftrightarrow> a = 0"

definition roundRobinSpeaker :: "fullnodeSet \<Rightarrow> address \<Rightarrow> uint64 \<Rightarrow> address option" where
  "roundRobinSpeaker s lastSpk rnd =
     (if Size s = 0 then None
      else let seed = (if emptyAddress lastSpk then rnd else calcSeed s lastSpk rnd + 1);
               pick = seed mod of_nat (Size s)
           in GetByIndex pick s)"

definition CalcSpeaker :: "address \<Rightarrow> uint64 \<Rightarrow> fullnodeSet \<Rightarrow> fullnodeSet" where
  "CalcSpeaker lastSpk rnd s = s\<lparr>speaker := roundRobinSpeaker s lastSpk rnd\<rparr>"

definition sort_fullnodes :: "crypto \<Rightarrow> address list \<Rightarrow> address list" where
  "sort_fullnodes cr = sort_key (Address_Hex cr)"

definition NewFullnodeSet :: "crypto \<Rightarrow> address list \<Rightarrow> uint64 \<Rightarrow> fullnodeSet" where
  "NewFullnodeSet cr addrs pol =
     (let s = \<lparr>fullnodes = sort_fullnodes cr addrs, policy = pol, speaker = None\<rparr>
      in if Size s > 0 then s\<lparr>speaker := GetByIndex 0 s\<rparr> else s)"

definition AddFullnode :: "crypto \<Rightarrow> address \<Rightarrow> fullnodeSet \<Rightarrow> fullnodeSet \<times> bool" where
  "AddFullnode cr a s =
     (if a \<in> set (fullnodes s) then (s, False)
      else (s\<lparr>fullnodes := sort_fullnodes cr (fullnodes s @ [a])\<rparr>, True))"

definition RemoveFullnode :: "address \<Rightarrow> fullnodeSet \<Rightarrow> fullnodeSet \<times> bool" where
  "RemoveFullnode a s =
     (case GetByAddress a s of None \<Rightarrow> (s, False)
      | Some (i, _) \<Rightarrow> (s\<lparr>fullnodes := take i (fullnodes s) @ drop (Suc i) (fullnodes s)\<rparr>, True))"

definition Copy :: "crypto \<Rightarrow> fullnodeSet \<Rightarrow> fullnodeSet" where
  "Copy cr s = NewFullnodeSet cr (fullnodes s) (policy s)"

definition ceil_div :: "nat \<Rightarrow> nat \<Rightarrow> nat" where
  "ceil_div a b = (a + b - 1) div b"

definition MaxFaulty :: "fullnodeSet \<Rightarrow> nat" where
  "MaxFaulty s = ceil_div (Size s + 1) 3 - 1"

definition MinApprovers :: "fullnodeSet \<Rightarrow> nat" where
  "MinApprovers s = ceil_div (2 * Size s) 3"

definition E :: "fullnodeSet \<Rightarrow> nat" where
  "E s = 1"

definition CheckFullnodeSignature ::
    "crypto \<Rightarrow> fullnodeSet \<Rightarrow> bytes \<Rightarrow> bytes \<Rightarrow> error + address" where
  "CheckFullnodeSignature cr s data sig =
     (case GetSignatureAddress cr data sig of
        Inl e \<Rightarrow> Inl e
      | Inr signer \<Rightarrow>
          (case GetByAddress signer s of Some (_, v) \<Rightarrow> Inr v | None \<Rightarrow> Inl ErrUnauthorizedAddress))"


subsection \<open>Address strings determine the address\<close>

definition unhex :: "char \<Rightarrow> nat" where
  "unhex c = (let n = (of_char c :: nat) in if n \<le> 57 then n - 48 else if n \<le> 70 then n - 55 else n - 87)"

lemma unhex_hex_digit_all:
  "\<forall>d \<in> set [0..<16]. unhex (hex_digit d) = d \<and>
     (of_char (hex_digit d) > (57 :: nat) \<longrightarrow>
        unhex (char_of (of_char (hex_digit d) - 32 :: nat)) = d)"
  by code_simp

lemma unhex_checksum: "d < 16 \<Longrightarrow> unhex (checksum_char h i (hex_digit d)) = d"
  using unhex_hex_digit_all by (auto simp: checksum_char_def Let_def)

lemma unat_byte_nibbles: "unat (b :: byte) div 16 < 16" "unat b mod 16 < 16"
  using unat_byte_less [of b] by (simp_all add: less_mult_imp_div_less del: unat_byte_less)

definition nibbles :: "bytes \<Rightarrow> nat list" where
  "nibbles bs = concat (map (\<lambda>b. [unat b div 16, unat b mod 16]) bs)"

lemma nibbles_inject: "nibbles bs = nibbles cs \<Longrightarrow> bs = cs"
proof (induction bs arbitrary: cs)
  case Nil
  then show ?case by (cases cs) (auto simp: nibbles_def)
next
  case (Cons b bs)
  then obtain c cs' where cs: "cs = c # cs'" by (cases cs) (auto simp: nibbles_def)
  with Cons have "unat b div 16 = unat c div 16" "unat b mod 16 = unat c mod 16" "bs = cs'"
    by (auto simp: nibbles_def)
  then have "unat b = unat c" by (metis div_mult_mod_eq)
  with cs \<open>bs = cs'\<close> show ?case by (simp add: word_unat_eq_iff)
qed

lemma hex_nibbles: "hex_EncodeToString bs = map hex_digit (nibbles bs)"
  by (induction bs) (auto simp: hex_EncodeToString_def nibbles_def)

lemma nibbles_less: "d \<in> set (nibbles bs) \<Longrightarrow> d < 16"
  by (auto simp: nibbles_def unat_byte_nibbles)

lemma unhex_checksummed:
  "map unhex (map (\<lambda>(i, c). checksum_char h i c) (enumerate k (map hex_digit ds))) = ds"
  if "\<forall>d \<in> set ds. d < 16"
  using that by (induction ds arbitrary: k) (auto simp: unhex_checksum)

lemma map_unhex_Address_Hex: "map unhex (drop 2 (Address_Hex cr a)) = nibbles (be_fixed 20 (unat a))"
  unfolding Address_Hex_def Let_def hex_nibbles
  using nibbles_less by (simp add: unhex_checksummed del: map_map)

lemma be_fixed_address_inject: "be_fixed 20 (unat (a :: address)) = be_fixed 20 (unat b) \<Longrightarrow> a = b"
proof -
  assume eq: "be_fixed 20 (unat a) = be_fixed 20 (unat b)"
  have "unat a < 256 ^ 20" "unat b < 256 ^ 20"
    using unsigned_less [of a, where 'a = nat] unsigned_less [of b, where 'a = nat] by simp_all
  with eq have "unat a = unat b" by (metis be_val_be_fixed)
  then show ?thesis by (simp add: word_unat_eq_iff)
qed

lemma Address_Hex_inject: "Address_Hex cr a = Address_Hex cr b \<longleftrightarrow> a = b"
  by (metis map_unhex_Address_Hex nibbles_inject be_fixed_address_inject)

lemma inj_Address_Hex: "inj_on (Address_Hex cr) A"
  by (simp add: inj_on_def Address_Hex_inject)


subsection \<open>Look-up\<close>

lemma find_addr_None [simp]: "find_addr i a vs = None \<longleftrightarrow> a \<notin> set vs"
  by (induction vs arbitrary: i) auto

lemma find_addr_Some:
  "find_addr i a vs = Some (j, v) \<Longrightarrow> v = a \<and> a \<in> set vs \<and> i \<le> j \<and> j - i < length vs \<and> vs ! (j - i) = a"
proof (induction vs arbitrary: i)
  case (Cons x vs)
  show ?case
  proof (cases "a = x")
    case False
    with Cons.prems have "find_addr (Suc i) a vs = Some (j, v)" by simp
    from Cons.IH [OF this] show ?thesis
      by (cases "j - i") (auto simp: Suc_le_eq dest: Suc_diff_Suc)
  qed (use Cons.prems in auto)
qed simp

lemma find_addr_remove1:
  "find_addr i a vs = Some (j, v) \<Longrightarrow> take (j - i) vs @ drop (Suc (j - i)) vs = remove1 a vs"
proof (induction vs arbitrary: i)
  case (Cons x vs)
  show ?case
  proof (cases "a = x")
    case False
    with Cons.prems have f: "find_addr (Suc i) a vs = Some (j, v)" by simp
    then have "Suc i \<le> j" using find_addr_Some by blast
    then have "j - i = Suc (j - Suc i)" by simp
    with Cons.IH [OF f] False show ?thesis by simp
  qed (use Cons.prems in auto)
qed simp

lemma GetByAddress_None [simp]: "GetByAddress a s = None \<longleftrightarrow> a \<notin> set (fullnodes s)"
  by (simp add: GetByAddress_def)

lemma GetByAddress_notin [simp]: "a \<notin> set (fullnodes s) \<Longrightarrow> GetByAddress a s = None"
  by simp

lemma GetByAddress_Some:
  assumes "GetByAddress a s = Some (i, v)"
  shows "v = a" "a \<in> set (fullnodes s)" "i < Size s" "fullnodes s ! i = a"
  using find_addr_Some [of 0 a "fullnodes s" i v] assms by (auto simp: GetByAddress_def Size_def)

lemma GetByAddress_member: "a \<in> set (fullnodes s) \<Longrightarrow> \<exists>i. GetByAddress a s = Some (i, a)"
  by (metis GetByAddress_None GetByAddress_Some(1) option.exhaust surj_pair)

lemma snd_GetByAddress:
  "map_option snd (GetByAddress a s) = (if a \<in> set (fullnodes s) then Some a else None)"
  using GetByAddress_member [of a s] by auto

lemma IsSpeaker_iff:
  "IsSpeaker a s \<longleftrightarrow> speaker s = (if a \<in> set (fullnodes s) then Some a else None)"
  by (simp add: IsSpeaker_def GetSpeaker_def snd_GetByAddress)

lemma fullnodes_CalcSpeaker [simp]: "fullnodes (CalcSpeaker l r s) = fullnodes s"
  and policy_CalcSpeaker [simp]: "policy (CalcSpeaker l r s) = policy s"
  and Size_CalcSpeaker [simp]: "Size (CalcSpeaker l r s) = Size s"
  by (simp_all add: CalcSpeaker_def Size_def)

lemma MaxFaulty_CalcSpeaker [simp]: "MaxFaulty (CalcSpeaker l r s) = MaxFaulty s"
  and MinApprovers_CalcSpeaker [simp]: "MinApprovers (CalcSpeaker l r s) = MinApprovers s"
  by (simp_all add: MaxFaulty_def MinApprovers_def)

lemma GetByAddress_CalcSpeaker [simp]: "GetByAddress a (CalcSpeaker l r s) = GetByAddress a s"
  by (simp add: GetByAddress_def)


subsection \<open>The set as an ordered, duplicate-free list\<close>

definition wf_set :: "crypto \<Rightarrow> fullnodeSet \<Rightarrow> bool" where
  "wf_set cr s \<longleftrightarrow> distinct (fullnodes s) \<and> sorted (map (Address_Hex cr) (fullnodes s))"

lemma mset_sort_fullnodes [simp]: "mset (sort_fullnodes cr xs) = mset xs"
  by (simp add: sort_fullnodes_def)

lemma set_sort_fullnodes [simp]: "set (sort_fullnodes cr xs) = set xs"
  by (simp add: sort_fullnodes_def)

lemma length_sort_fullnodes [simp]: "length (sort_fullnodes cr xs) = length xs"
  by (simp add: sort_fullnodes_def)

lemma sort_fullnodes_perm: "mset xs = mset ys \<Longrightarrow> sort_fullnodes cr xs = sort_fullnodes cr ys"
  unfolding sort_fullnodes_def
  by (rule properties_for_sort_key)
    (auto simp: Address_Hex_inject simp flip: replicate_count_mset_eq_filter_eq)

lemma sort_fullnodes_id: "sorted (map (Address_Hex cr) xs) \<Longrightarrow> sort_fullnodes cr xs = xs"
  by (simp add: sort_fullnodes_def sorted_sort_id sort_key_id_if_sorted)

lemma fullnodes_New [simp]: "fullnodes (NewFullnodeSet cr xs p) = sort_fullnodes cr xs"
  and policy_New [simp]: "policy (NewFullnodeSet cr xs p) = p"
  by (simp_all add: NewFullnodeSet_def Let_def)

lemma New_perm: "mset xs = mset ys \<Longrightarrow> NewFullnodeSet cr xs p = NewFullnodeSet cr ys p"
  by (simp add: NewFullnodeSet_def sort_fullnodes_perm [of xs ys])

lemma Copy_id: "wf_set cr s \<Longrightarrow> fullnodes (Copy cr s) = fullnodes s"
  by (simp add: Copy_def wf_set_def sort_fullnodes_id)

lemma wf_set_New [intro]: "distinct xs \<Longrightarrow> wf_set cr (NewFullnodeSet cr xs p)"
  by (simp add: wf_set_def sort_fullnodes_def)

lemma wf_set_CalcSpeaker [simp]: "wf_set cr (CalcSpeaker l r s) = wf_set cr s"
  by (simp add: wf_set_def)

lemma wf_set_Copy [intro]: "wf_set cr s \<Longrightarrow> wf_set cr (Copy cr s)"
  unfolding Copy_def by (rule wf_set_New) (simp add: wf_set_def)

lemma fullnodes_AddFullnode:
  "set (fullnodes (fst (AddFullnode cr a s))) = insert a (set (fullnodes s))"
  by (auto simp: AddFullnode_def)

lemma RemoveFullnode_remove1:
  "RemoveFullnode a s = (s\<lparr>fullnodes := remove1 a (fullnodes s)\<rparr>, a \<in> set (fullnodes s))"
proof (cases "GetByAddress a s")
  case None
  moreover from this have "a \<notin> set (fullnodes s)" by simp
  ultimately show ?thesis
    by (simp add: RemoveFullnode_def remove1_idem del: GetByAddress_None)
next
  case (Some x)
  then obtain i v where x: "GetByAddress a s = Some (i, v)" by (cases x) auto
  with find_addr_remove1 [of 0 a "fullnodes s" i v] GetByAddress_Some [OF x] show ?thesis
    by (simp add: RemoveFullnode_def GetByAddress_def)
qed

lemma sorted_map_remove1: "sorted (map f xs) \<Longrightarrow> sorted (map f (remove1 a xs))"
  by (induction xs) (auto dest: notin_set_remove1 set_mp [OF set_remove1_subset])

text \<open>The interface the voting snapshot and the seal check rely on: a set with an order-free content.\<close>

locale node_set =
  fixes members :: "'s \<Rightarrow> address set" and invar :: "'s \<Rightarrow> bool" and count :: "'s \<Rightarrow> nat"
    and add :: "address \<Rightarrow> 's \<Rightarrow> 's \<times> bool" and remove :: "address \<Rightarrow> 's \<Rightarrow> 's \<times> bool"
  assumes members_add: "invar s \<Longrightarrow> members (fst (add a s)) = insert a (members s)"
    and added: "invar s \<Longrightarrow> snd (add a s) \<longleftrightarrow> a \<notin> members s"
    and members_remove: "invar s \<Longrightarrow> members (fst (remove a s)) = members s - {a}"
    and removed: "invar s \<Longrightarrow> snd (remove a s) \<longleftrightarrow> a \<in> members s"
    and invar_add: "invar s \<Longrightarrow> invar (fst (add a s))"
    and invar_remove: "invar s \<Longrightarrow> invar (fst (remove a s))"
    and count_card: "invar s \<Longrightarrow> finite (members s) \<and> count s = card (members s)"
begin

fun remove_all :: "address list \<Rightarrow> 's \<Rightarrow> 's option" where
  "remove_all [] s = Some s"
| "remove_all (a # as) s = (if snd (remove a s) then remove_all as (fst (remove a s)) else None)"

lemma remove_all_iff:
  "invar s \<Longrightarrow> (\<exists>t. remove_all as s = Some t) \<longleftrightarrow> distinct as \<and> set as \<subseteq> members s"
proof (induction as arbitrary: s)
  case (Cons a as)
  have "invar (fst (remove a s))" "members (fst (remove a s)) = members s - {a}"
    using Cons.prems invar_remove members_remove by auto
  with Cons removed [of s a] show ?case by auto
qed simp

end

lemma wf_set_Add: "wf_set cr s \<Longrightarrow> wf_set cr (fst (AddFullnode cr a s))"
  by (simp add: wf_set_def AddFullnode_def sort_fullnodes_def)

lemma wf_set_Remove: "wf_set cr s \<Longrightarrow> wf_set cr (fst (RemoveFullnode a s))"
  by (simp add: wf_set_def RemoveFullnode_remove1 sorted_map_remove1)

interpretation fullnode_set: node_set "\<lambda>s. set (fullnodes s)" "wf_set cr" Size "AddFullnode cr" RemoveFullnode
  for cr
proof
  fix s a
  assume wf: "wf_set cr s"
  show "set (fullnodes (fst (AddFullnode cr a s))) = insert a (set (fullnodes s))"
    by (rule fullnodes_AddFullnode)
  show "snd (AddFullnode cr a s) \<longleftrightarrow> a \<notin> set (fullnodes s)"
    by (simp add: AddFullnode_def)
  show "set (fullnodes (fst (RemoveFullnode a s))) = set (fullnodes s) - {a}"
    using wf by (simp add: RemoveFullnode_remove1 wf_set_def set_remove1_eq)
  show "snd (RemoveFullnode a s) \<longleftrightarrow> a \<in> set (fullnodes s)"
    by (simp add: RemoveFullnode_remove1)
  show "wf_set cr (fst (AddFullnode cr a s))" using wf by (rule wf_set_Add)
  show "wf_set cr (fst (RemoveFullnode a s))" using wf by (rule wf_set_Remove)
  show "finite (set (fullnodes s)) \<and> Size s = card (set (fullnodes s))"
    using wf by (simp add: Size_def wf_set_def distinct_card)
qed


subsection \<open>Thresholds\<close>

lemma ceil_div_real:
  assumes "0 < b"
  shows "\<lceil>real a / real b\<rceil> = int (ceil_div a b)"
proof (rule ceiling_unique)
  let ?q = "ceil_div a b"
  have "?q * b + (a + b - 1) mod b = a + b - 1" by (simp add: ceil_div_def div_mult_mod_eq)
  moreover have "(a + b - 1) mod b < b" using assms by simp
  ultimately have "?q * b < a + b" "a \<le> ?q * b" using assms by linarith+
  then have q: "real ?q * real b < real a + real b" "real a \<le> real ?q * real b"
    by (metis of_nat_add of_nat_less_iff of_nat_mult) (metis of_nat_le_iff of_nat_mult \<open>a \<le> ?q * b\<close>)
  from assms q(1) have "real ?q < real a / real b + 1" by (simp add: field_simps)
  then show "of_int (int ?q) - 1 < real a / real b" by simp
  from assms q(2) show "real a / real b \<le> of_int (int ?q)" by (simp add: field_simps)
qed

lemma MaxFaulty_div: "MaxFaulty s = Size s div 3"
  by (simp add: MaxFaulty_def ceil_div_def)

lemma MinApprovers_le_Size: "MinApprovers s \<le> Size s"
  by (simp add: MinApprovers_def ceil_div_def)

lemma MinApprovers_split:
  "MinApprovers s = 2 * (Size s div 3) + (2 * (Size s mod 3) + 2) div 3"
proof -
  have "2 * Size s + 2 = (2 * (Size s div 3)) * 3 + (2 * (Size s mod 3) + 2)"
    using div_mult_mod_eq [of "Size s" 3] by linarith
  then show ?thesis by (simp add: MinApprovers_def ceil_div_def del: mult_Suc_right)
qed

lemma two_quorums:
  assumes "Size s mod 3 \<noteq> 0"
  shows "Size s + MaxFaulty s < 2 * MinApprovers s"
proof -
  obtain q r where qr: "Size s = 3 * q + r" "r < 3" "r = Size s mod 3" "q = Size s div 3"
    by (metis mult_div_mod_eq mod_less_divisor zero_less_numeral)
  with assms have "r = 1 \<or> r = 2" by linarith
  then show ?thesis using qr(1) unfolding MinApprovers_split MaxFaulty_div qr(3,4) [symmetric] by auto
qed

text \<open>The interface of a quorum system with a bound on faulty members.\<close>

locale quorum_system =
  fixes members :: "'s \<Rightarrow> address set" and quorum :: "'s \<Rightarrow> nat" and faulty :: "'s \<Rightarrow> nat"
    and ok :: "'s \<Rightarrow> bool"
  assumes finite_members: "ok s \<Longrightarrow> finite (members s)"
    and overlap: "ok s \<Longrightarrow> card (members s) + faulty s < 2 * quorum s"
begin

lemma card_overlap:
  assumes "ok s" "A \<subseteq> members s" "B \<subseteq> members s" "quorum s \<le> card A" "quorum s \<le> card B"
  shows "faulty s < card (A \<inter> B)"
proof -
  have fin: "finite A" "finite B" using assms finite_members finite_subset by blast+
  have "card (A \<union> B) \<le> card (members s)"
    using assms finite_members by (intro card_mono) auto
  moreover have "card A + card B = card (A \<union> B) + card (A \<inter> B)"
    using fin by (rule card_Un_Int)
  ultimately show ?thesis using assms(4,5) overlap [OF assms(1)] by linarith
qed

lemma honest_in_both:
  assumes "ok s" "A \<subseteq> members s" "B \<subseteq> members s" "quorum s \<le> card A" "quorum s \<le> card B"
    and "finite F" "card F \<le> faulty s"
  shows "\<exists>p \<in> A \<inter> B. p \<notin> F"
proof (rule ccontr)
  assume "\<not> ?thesis"
  then have "A \<inter> B \<subseteq> F" by blast
  then have "card (A \<inter> B) \<le> card F" using assms(6) by (rule card_mono [rotated])
  with card_overlap [OF assms(1-5)] assms(7) show False by simp
qed

end

interpretation sport_quorum: quorum_system "\<lambda>s. set (fullnodes s)" MinApprovers MaxFaulty
    "\<lambda>s. distinct (fullnodes s) \<and> Size s mod 3 \<noteq> 0"
proof
  fix s
  assume "distinct (fullnodes s) \<and> Size s mod 3 \<noteq> 0"
  then show "card (set (fullnodes s)) + MaxFaulty s < 2 * MinApprovers s"
    using two_quorums [of s] by (simp add: distinct_card Size_def)
qed simp

text \<open>
  C1. Two sets of MinApprovers fullnodes share a fullnode outside any set of MaxFaulty nodes, when
  the number of fullnodes is not a multiple of three.
\<close>
theorem quorums_share_honest_fullnode:
  assumes "distinct (fullnodes s)" "Size s mod 3 \<noteq> 0"
    and "A \<subseteq> set (fullnodes s)" "MinApprovers s \<le> card A"
    and "B \<subseteq> set (fullnodes s)" "MinApprovers s \<le> card B"
    and "finite F" "card F \<le> MaxFaulty s"
  shows "\<exists>p \<in> A \<inter> B. p \<notin> F"
  using assms by (intro sport_quorum.honest_in_both) auto

theorem quorums_share_honest_fullnode_witness:
  "\<exists>p \<in> {1, 2, 3} \<inter> {2, 3, 4}. p \<notin> {2 :: address}"
proof -
  let ?s = "\<lparr>fullnodes = [1, 2, 3, 4], policy = 0, speaker = None\<rparr>"
  have "MinApprovers ?s = 3" "MaxFaulty ?s = 1" "Size ?s = 4" by code_simp+
  then show ?thesis
    by (intro quorums_share_honest_fullnode [of ?s "{1, 2, 3}" "{2, 3, 4}" "{2}"]) simp_all
qed

lemma card_set_take: "distinct xs \<Longrightarrow> k \<le> length xs \<Longrightarrow> card (set (take k xs)) = k"
  by (simp add: distinct_card)

lemma card_set_drop: "distinct xs \<Longrightarrow> card (set (drop k xs)) = length xs - k"
  by (simp add: distinct_card)

text \<open>
  C2. When the number of fullnodes is a multiple of three, two quorums of MinApprovers fullnodes can
  meet in MaxFaulty nodes only.
\<close>
theorem quorums_may_share_only_faulty:
  assumes "distinct (fullnodes s)" "Size s mod 3 = 0"
  shows "\<exists>A B F. A \<subseteq> set (fullnodes s) \<and> card A = MinApprovers s
           \<and> B \<subseteq> set (fullnodes s) \<and> card B = MinApprovers s
           \<and> F \<subseteq> set (fullnodes s) \<and> card F = MaxFaulty s \<and> A \<inter> B \<subseteq> F"
proof -
  let ?xs = "fullnodes s" and ?k = "MaxFaulty s" and ?q = "MinApprovers s"
  have n: "length ?xs = 3 * ?k" "?q = 2 * ?k"
    using assms(2) by (auto simp: MaxFaulty_div MinApprovers_def ceil_div_def Size_def)
  let ?A = "set (take ?q ?xs)" and ?B = "set (drop ?k ?xs)"
  let ?F = "set (take ?k (drop ?k ?xs))"
  have "take ?q ?xs = take ?k ?xs @ take ?k (drop ?k ?xs)"
    using n(2) by (simp add: mult_2 take_add)
  moreover have "set (take ?k ?xs) \<inter> ?B = {}"
    using assms(1) by (rule set_take_disj_set_drop_if_distinct) simp
  ultimately have "?A \<inter> ?B \<subseteq> ?F" by auto
  moreover have "card ?A = ?q" "card ?B = ?q" "card ?F = ?k"
    using assms(1) n by (simp_all add: card_set_take card_set_drop)
  ultimately show ?thesis
    by (meson set_take_subset set_drop_subset order_trans)
qed

theorem quorums_may_share_only_faulty_witness:
  "\<exists>A B F. A \<subseteq> {1, 2, 3 :: address} \<and> card A = 2 \<and> B \<subseteq> {1, 2, 3} \<and> card B = 2
     \<and> F \<subseteq> {1, 2, 3} \<and> card F = 1 \<and> A \<inter> B \<subseteq> F"
  using quorums_may_share_only_faulty [of "\<lparr>fullnodes = [1, 2, 3], policy = 0, speaker = None\<rparr>"]
  by (simp add: Size_def MinApprovers_def MaxFaulty_def ceil_div_def)


subsection \<open>Speaker rotation\<close>

lemma add_mod_neq: "x < y \<Longrightarrow> y < n \<Longrightarrow> (b + x) mod n \<noteq> (b + y) mod (n :: nat)"
proof
  assume a: "x < y" "y < n" "(b + x) mod n = (b + y) mod n"
  have "b + x \<le> b + y" using a(1) by simp
  then have "n dvd (b + y) - (b + x)" using a(3) mod_eq_dvd_iff_nat [of "b + x" "b + y" n] by simp
  then have "n dvd y - x" by simp
  then have "n \<le> y - x" using a(1) by (intro dvd_imp_le) simp_all
  then show False using a by linarith
qed

lemma bij_betw_add_mod: "bij_betw (\<lambda>k. (b + k) mod n) {..<n} {..<n :: nat}"
proof -
  have inj: "inj_on (\<lambda>k. (b + k) mod n) {..<n}"
    by (rule linorder_inj_onI') (rule add_mod_neq, simp_all only: lessThan_iff)
  have sub: "(\<lambda>k. (b + k) mod n) ` {..<n} \<subseteq> {..<n}" by (cases "n = 0") auto
  from endo_inj_surj [OF finite_lessThan sub inj] inj show ?thesis
    unfolding bij_betw_def by blast
qed

definition seed_base :: "fullnodeSet \<Rightarrow> address \<Rightarrow> uint64 \<Rightarrow> nat" where
  "seed_base s lastSpk rnd =
     unat rnd + (if emptyAddress lastSpk then 0
                 else (case GetByAddress lastSpk s of None \<Rightarrow> 0 | Some (i, _) \<Rightarrow> i) + 1)"

lemma seed_base_less: "seed_base s l r \<le> unat r + Size s + 1"
  by (auto simp: seed_base_def dest: GetByAddress_Some(3) split: option.split)

lemma unat_of_nat_64: "n < 2 ^ 64 \<Longrightarrow> unat (of_nat n :: uint64) = n"
  by (simp add: unat_of_nat take_bit_nat_eq_self)

lemma roundRobinSpeaker_nth:
  assumes "0 < Size s" "unat r + 2 * Size s < 2 ^ 64" "k < Size s"
  shows "roundRobinSpeaker s l (r + of_nat k) = Some (fullnodes s ! ((seed_base s l r + k) mod Size s))"
proof -
  let ?seed = "if emptyAddress l then r + of_nat k else calcSeed s l (r + of_nat k) + 1"
  have seed: "?seed = of_nat (seed_base s l r + k)"
    by (simp add: seed_base_def calcSeed_def split: option.split del: GetByAddress_None)
  have "seed_base s l r + k < 2 ^ 64" using seed_base_less [of s l r] assms by linarith
  moreover have "Size s < 2 ^ 64" using assms by linarith
  ultimately have "unat (?seed mod of_nat (Size s)) = (seed_base s l r + k) mod Size s"
    unfolding seed unat_mod by (simp only: unat_of_nat_64)
  moreover from this have "?seed mod of_nat (Size s) < of_nat (Size s)"
    using assms(1) \<open>Size s < 2 ^ 64\<close> by (simp add: word_less_nat_alt unat_of_nat_64)
  ultimately show ?thesis
    using assms(1) by (simp add: roundRobinSpeaker_def Let_def GetByIndex_def)
qed

text \<open>
  C3. Over Size consecutive rounds every fullnode is the speaker exactly once, as long as the 64-bit
  seed does not wrap.
\<close>
theorem speaker_rotation:
  assumes "distinct (fullnodes s)" "0 < Size s" "unat r + 2 * Size s < 2 ^ 64"
  shows "bij_betw (\<lambda>k. GetSpeaker (CalcSpeaker l (r + of_nat k) s)) {..<Size s} (Some ` set (fullnodes s))"
proof -
  have "bij_betw ((!) (fullnodes s)) {..<Size s} (set (fullnodes s))"
    using assms(1) by (simp add: bij_betw_nth Size_def)
  then have "bij_betw (\<lambda>k. fullnodes s ! ((seed_base s l r + k) mod Size s)) {..<Size s} (set (fullnodes s))"
    using bij_betw_trans [OF bij_betw_add_mod] by (simp add: comp_def)
  then have "bij_betw (\<lambda>k. Some (fullnodes s ! ((seed_base s l r + k) mod Size s))) {..<Size s}
      (Some ` set (fullnodes s))"
    using bij_betw_trans [OF _ inj_on_imp_bij_betw [OF inj_Some]] by (simp add: comp_def)
  then show ?thesis
    by (rule bij_betw_cong [THEN iffD1, rotated])
      (use assms(2,3) in \<open>simp add: GetSpeaker_def CalcSpeaker_def roundRobinSpeaker_nth\<close>)
qed

theorem speaker_rotation_witness:
  "bij_betw (\<lambda>k. GetSpeaker (CalcSpeaker 7 (5 + of_nat k) \<lparr>fullnodes = [3, 7, 9], policy = 0, speaker = None\<rparr>))
     {..<3} (Some ` {3, 7, 9})"
  using speaker_rotation [of "\<lparr>fullnodes = [3, 7, 9], policy = 0, speaker = None\<rparr>" 5 7]
  by (simp add: Size_def numeral_3_eq_3)

end
