(* ===== verification/Round_State.thy ===== *)
theory Round_State
  imports Fullnode_Set
begin

text \<open>
  The containers of one consensus round (\<open>smilobftcore/message_set.go\<close>, \<open>roundstate.go\<close> and the
  round-change set of \<open>core_roundchange.go\<close>). A message set maps an address to the last message
  received from it; the map keeps its keys distinct. The mutexes and the \<open>view\<close> field of a
  message set, which is written once and never read by the core, are left out.
\<close>

subsection \<open>Message sets\<close>

record messageSet =
  ms_fullnodeSet :: fullnodeSet
  messages :: "(address \<times> message) list"

definition newMessageSet :: "fullnodeSet \<Rightarrow> messageSet" where
  "newMessageSet vs = \<lparr>ms_fullnodeSet = vs, messages = []\<rparr>"

definition ms_verify :: "messageSet \<Rightarrow> message \<Rightarrow> error option" where
  "ms_verify ms m =
     (if GetByAddress (Address m) (ms_fullnodeSet ms) = None then Some ErrUnauthorizedAddress else None)"

definition addVerifiedMessage :: "message \<Rightarrow> messageSet \<Rightarrow> messageSet" where
  "addVerifiedMessage m ms = ms\<lparr>messages := AList.update (Address m) m (messages ms)\<rparr>"

definition ms_Add :: "message \<Rightarrow> messageSet \<Rightarrow> error option \<times> messageSet" where
  "ms_Add m ms =
     (case ms_verify ms m of Some err \<Rightarrow> (Some err, ms) | None \<Rightarrow> (None, addVerifiedMessage m ms))"

definition ms_Values :: "messageSet \<Rightarrow> message list" where
  "ms_Values ms = map snd (messages ms)"

definition ms_Size :: "messageSet \<Rightarrow> nat" where
  "ms_Size ms = length (messages ms)"

definition ms_Get :: "messageSet \<Rightarrow> address \<Rightarrow> message option" where
  "ms_Get ms a = map_of (messages ms) a"


subsection \<open>Round state\<close>

record roundState =
  rs_round :: int
  rs_sequence :: int
  Preprepare :: "preprepare option"
  Prepares :: messageSet
  Commits :: messageSet
  lockedHash :: hash
  pendingRequest :: "request option"

definition newRoundState ::
    "view \<Rightarrow> fullnodeSet \<Rightarrow> hash \<Rightarrow> preprepare option \<Rightarrow> request option \<Rightarrow> roundState" where
  "newRoundState v vs lock pp pr =
     \<lparr>rs_round = Round v, rs_sequence = Sequence v, Preprepare = pp,
      Prepares = newMessageSet vs, Commits = newMessageSet vs, lockedHash = lock,
      pendingRequest = pr\<rparr>"

text \<open>The loop over the PREPAREs takes one off for each sender that is also in the COMMITs.\<close>

definition GetPrepareOrCommitSize :: "roundState \<Rightarrow> int" where
  "GetPrepareOrCommitSize s =
     fold (\<lambda>m result. if ms_Get (Commits s) (Address m) \<noteq> None then result - 1 else result)
       (ms_Values (Prepares s)) (int (ms_Size (Prepares s)) + int (ms_Size (Commits s)))"

definition Subject :: "roundState \<Rightarrow> subject option" where
  "Subject s =
     (case Preprepare s of None \<Rightarrow> None
      | Some pp \<Rightarrow> Some \<lparr>subj_View = \<lparr>Round = rs_round s, Sequence = rs_sequence s\<rparr>,
                         Digest = Hash (pp_Proposal pp)\<rparr>)"

definition SetPreprepare :: "preprepare \<Rightarrow> roundState \<Rightarrow> roundState" where
  "SetPreprepare pp s = s\<lparr>Preprepare := Some pp\<rparr>"

definition rs_BlockProposal :: "roundState \<Rightarrow> proposal option" where
  "rs_BlockProposal s = map_option pp_Proposal (Preprepare s)"

definition SetRound :: "int \<Rightarrow> roundState \<Rightarrow> roundState" where
  "SetRound r s = s\<lparr>rs_round := r\<rparr>"

definition SetSequence :: "int \<Rightarrow> roundState \<Rightarrow> roundState" where
  "SetSequence seq s = s\<lparr>rs_sequence := seq\<rparr>"

definition LockHash :: "roundState \<Rightarrow> roundState" where
  "LockHash s =
     (case Preprepare s of None \<Rightarrow> s | Some pp \<Rightarrow> s\<lparr>lockedHash := Hash (pp_Proposal pp)\<rparr>)"

definition UnlockHash :: "roundState \<Rightarrow> roundState" where
  "UnlockHash s = s\<lparr>lockedHash := 0\<rparr>"

definition GetLockedHash :: "roundState \<Rightarrow> hash" where
  "GetLockedHash s = lockedHash s"

definition EmptyHash :: "hash \<Rightarrow> bool" where
  "EmptyHash h \<longleftrightarrow> h = 0"

definition IsHashLocked :: "(hash \<Rightarrow> bool) \<Rightarrow> roundState \<Rightarrow> bool" where
  "IsHashLocked hasBadBlockProposal s \<longleftrightarrow>
     (if EmptyHash (lockedHash s) then False else \<not> hasBadBlockProposal (GetLockedHash s))"


subsection \<open>Round-change sets\<close>

definition big_Uint64 :: "int \<Rightarrow> uint64" where
  "big_Uint64 i = of_int \<bar>i\<bar>"

record roundChangeSet =
  rcs_fullnodeSet :: fullnodeSet
  roundChanges :: "(uint64 \<times> messageSet) list"

definition newRoundChangeSet :: "fullnodeSet \<Rightarrow> roundChangeSet" where
  "newRoundChangeSet vs = \<lparr>rcs_fullnodeSet = vs, roundChanges = []\<rparr>"

definition rcs_Add :: "int \<Rightarrow> message \<Rightarrow> roundChangeSet \<Rightarrow> (error + nat) \<times> roundChangeSet" where
  "rcs_Add r m rcs =
     (let k = big_Uint64 r;
          ms = (case map_of (roundChanges rcs) k of
                  None \<Rightarrow> newMessageSet (rcs_fullnodeSet rcs) | Some ms \<Rightarrow> ms)
      in case ms_Add m ms of
           (Some err, ms') \<Rightarrow> (Inl err, rcs\<lparr>roundChanges := AList.update k ms' (roundChanges rcs)\<rparr>)
         | (None, ms') \<Rightarrow>
             (Inr (ms_Size ms'), rcs\<lparr>roundChanges := AList.update k ms' (roundChanges rcs)\<rparr>))"

definition rcs_Clear :: "int \<Rightarrow> roundChangeSet \<Rightarrow> roundChangeSet" where
  "rcs_Clear r rcs =
     rcs\<lparr>roundChanges :=
       filter (\<lambda>(k, ms). \<not> (length (ms_Values ms) = 0 \<or> k < big_Uint64 r)) (roundChanges rcs)\<rparr>"

text \<open>\<open>big.NewInt(int64(k))\<close> reads the key as a signed number.\<close>

definition MaxRound :: "nat \<Rightarrow> roundChangeSet \<Rightarrow> int option" where
  "MaxRound num rcs =
     fold (\<lambda>(k, ms) maxRound.
             if ms_Size ms < num then maxRound
             else case maxRound of None \<Rightarrow> Some (sint k)
                  | Some m \<Rightarrow> if m < sint k then Some (sint k) else Some m)
       (roundChanges rcs) None"


subsection \<open>Message sets hold one message per fullnode\<close>

definition ms_senders :: "messageSet \<Rightarrow> address set" where
  "ms_senders ms = fst ` set (messages ms)"

definition ms_ok :: "messageSet \<Rightarrow> bool" where
  "ms_ok ms \<longleftrightarrow>
     distinct_keys (messages ms) \<and>
     (\<forall>(a, m) \<in> set (messages ms). Address m = a \<and> a \<in> set (fullnodes (ms_fullnodeSet ms)))"

lemma ms_ok_new [simp, intro]: "ms_ok (newMessageSet vs)"
  by (simp add: ms_ok_def newMessageSet_def)

lemma newMessageSet_simps [simp]:
  "messages (newMessageSet vs) = []" "ms_fullnodeSet (newMessageSet vs) = vs"
  "ms_senders (newMessageSet vs) = {}" "ms_Size (newMessageSet vs) = 0"
  by (simp_all add: newMessageSet_def ms_senders_def ms_Size_def)

lemma ms_Add_fullnodeSet [simp]: "ms_fullnodeSet (snd (ms_Add m ms)) = ms_fullnodeSet ms"
  by (simp add: ms_Add_def addVerifiedMessage_def split: option.split)

lemma ms_Add_messages:
  "messages (snd (ms_Add m ms)) =
     (if Address m \<in> set (fullnodes (ms_fullnodeSet ms)) then AList.update (Address m) m (messages ms)
      else messages ms)"
  by (simp add: ms_Add_def ms_verify_def addVerifiedMessage_def)

lemma ms_Add_error:
  "fst (ms_Add m ms) =
     (if Address m \<in> set (fullnodes (ms_fullnodeSet ms)) then None else Some ErrUnauthorizedAddress)"
  by (simp add: ms_Add_def ms_verify_def)

lemma ms_Add_set: "set (messages (snd (ms_Add m ms))) \<subseteq> insert (Address m, m) (set (messages ms))"
  by (auto simp: ms_Add_messages dest: alist_update_member)

lemma ms_ok_Add [intro]: "ms_ok ms \<Longrightarrow> ms_ok (snd (ms_Add m ms))"
  by (auto simp: ms_ok_def ms_Add_messages dest: alist_update_member)

lemma ms_senders_Add:
  "ms_senders (snd (ms_Add m ms)) =
     (if Address m \<in> set (fullnodes (ms_fullnodeSet ms)) then insert (Address m) (ms_senders ms)
      else ms_senders ms)"
  by (simp add: ms_senders_def ms_Add_messages alist_simps)

lemma ms_Size_senders: "ms_ok ms \<Longrightarrow> ms_Size ms = card (ms_senders ms)"
  by (simp add: ms_Size_def ms_senders_def ms_ok_def length_distinct_keys)

lemma ms_senders_sub: "ms_ok ms \<Longrightarrow> ms_senders ms \<subseteq> set (fullnodes (ms_fullnodeSet ms))"
  by (auto simp: ms_ok_def ms_senders_def)

lemma finite_ms_senders [simp]: "finite (ms_senders ms)"
  by (simp add: ms_senders_def)

lemma ms_Size_le: "ms_ok ms \<Longrightarrow> distinct (fullnodes (ms_fullnodeSet ms)) \<Longrightarrow> ms_Size ms \<le> Size (ms_fullnodeSet ms)"
  by (metis ms_Size_senders ms_senders_sub Size_def distinct_card card_mono finite_set)

lemma ms_Get_Add:
  "ms_Get (snd (ms_Add m ms)) a =
     (if a = Address m \<and> Address m \<in> set (fullnodes (ms_fullnodeSet ms)) then Some m else ms_Get ms a)"
  by (simp add: ms_Get_def ms_Add_messages alist_simps)

lemma ms_Get_None: "ms_Get ms a = None \<longleftrightarrow> a \<notin> ms_senders ms"
  by (simp add: ms_Get_def ms_senders_def map_of_eq_None_iff)


subsection \<open>Counting PREPAREs and COMMITs together\<close>

lemma fold_minus_count:
  "fold (\<lambda>m r. if P m then r - 1 else r) xs (r :: int) = r - int (length (filter P xs))"
  by (induction xs arbitrary: r) auto

lemma filter_senders:
  assumes "ms_ok ms"
  shows "length (filter (\<lambda>m. Address m \<in> A) (ms_Values ms)) = card (ms_senders ms \<inter> A)"
proof -
  have addr: "map Address (ms_Values ms) = map fst (messages ms)"
    using assms by (auto simp: ms_ok_def ms_Values_def)
  have "length (filter (\<lambda>m. Address m \<in> A) (ms_Values ms)) =
      length (filter (\<lambda>a. a \<in> A) (map Address (ms_Values ms)))"
    by (simp add: filter_map comp_def)
  also have "\<dots> = card (set (filter (\<lambda>a. a \<in> A) (map fst (messages ms))))"
    using assms unfolding addr by (intro distinct_card [symmetric] distinct_filter) (simp add: ms_ok_def distinct_keys_def)
  also have "set (filter (\<lambda>a. a \<in> A) (map fst (messages ms))) = ms_senders ms \<inter> A"
    by (auto simp: ms_senders_def)
  finally show ?thesis .
qed

lemma GetPrepareOrCommitSize_card:
  assumes "ms_ok (Prepares s)" "ms_ok (Commits s)"
  shows "GetPrepareOrCommitSize s = int (card (ms_senders (Prepares s) \<union> ms_senders (Commits s)))"
proof -
  let ?P = "ms_senders (Prepares s)" and ?C = "ms_senders (Commits s)"
  have "GetPrepareOrCommitSize s = int (card ?P) + int (card ?C) - int (card (?P \<inter> ?C))"
    using assms by (simp add: GetPrepareOrCommitSize_def fold_minus_count ms_Get_None filter_senders ms_Size_senders)
  moreover have "card ?P + card ?C = card (?P \<union> ?C) + card (?P \<inter> ?C)" by (rule card_Un_Int) simp_all
  ultimately show ?thesis by linarith
qed


subsection \<open>Round state\<close>

lemma Subject_None [simp]: "Subject s = None \<longleftrightarrow> Preprepare s = None"
  by (simp add: Subject_def split: option.split)

lemma newRoundState_simps [simp]:
  "rs_round (newRoundState v vs l pp pr) = Round v"
  "rs_sequence (newRoundState v vs l pp pr) = Sequence v"
  "Preprepare (newRoundState v vs l pp pr) = pp"
  "Prepares (newRoundState v vs l pp pr) = newMessageSet vs"
  "Commits (newRoundState v vs l pp pr) = newMessageSet vs"
  "lockedHash (newRoundState v vs l pp pr) = l"
  "pendingRequest (newRoundState v vs l pp pr) = pr"
  by (simp_all add: newRoundState_def)

lemma IsHashLocked_iff: "IsHashLocked bad s \<longleftrightarrow> lockedHash s \<noteq> 0 \<and> \<not> bad (lockedHash s)"
  by (simp add: IsHashLocked_def EmptyHash_def GetLockedHash_def)

lemma LockHash_frame [simp]:
  "rs_round (LockHash s) = rs_round s" "rs_sequence (LockHash s) = rs_sequence s"
  "Preprepare (LockHash s) = Preprepare s" "Prepares (LockHash s) = Prepares s"
  "Commits (LockHash s) = Commits s" "pendingRequest (LockHash s) = pendingRequest s"
  "Subject (LockHash s) = Subject s"
  by (simp_all add: LockHash_def Subject_def split: option.split)


subsection \<open>Round-change sets\<close>

definition rcs_ok :: "roundChangeSet \<Rightarrow> bool" where
  "rcs_ok rcs \<longleftrightarrow>
     distinct_keys (roundChanges rcs) \<and>
     (\<forall>(k, ms) \<in> set (roundChanges rcs). ms_ok ms \<and> ms_fullnodeSet ms = rcs_fullnodeSet rcs)"

lemma rcs_ok_new [simp, intro]: "rcs_ok (newRoundChangeSet vs)"
  by (simp add: rcs_ok_def newRoundChangeSet_def)

lemma rcs_ok_Clear [intro]: "rcs_ok rcs \<Longrightarrow> rcs_ok (rcs_Clear r rcs)"
  unfolding rcs_ok_def rcs_Clear_def by auto

lemma rcs_Add_snd:
  "snd (rcs_Add r m rcs) =
     rcs\<lparr>roundChanges := AList.update (big_Uint64 r)
       (snd (ms_Add m (case map_of (roundChanges rcs) (big_Uint64 r) of
                         None \<Rightarrow> newMessageSet (rcs_fullnodeSet rcs) | Some ms \<Rightarrow> ms)))
       (roundChanges rcs)\<rparr>"
  by (simp add: rcs_Add_def Let_def split: option.split prod.split)

lemma rcs_ok_Add [intro]: "rcs_ok rcs \<Longrightarrow> rcs_ok (snd (rcs_Add r m rcs))"
  unfolding rcs_Add_snd rcs_ok_def
  by (auto dest!: map_of_SomeD alist_update_member split: option.splits)

lemma rcs_Add_count:
  assumes "rcs_ok rcs" "fst (rcs_Add r m rcs) = Inr n"
  shows "\<exists>ms. map_of (roundChanges (snd (rcs_Add r m rcs))) (big_Uint64 r) = Some ms \<and> ms_ok ms \<and>
           n = card (ms_senders ms) \<and> Address m \<in> ms_senders ms"
proof -
  let ?ms = "case map_of (roundChanges rcs) (big_Uint64 r) of
      None \<Rightarrow> newMessageSet (rcs_fullnodeSet rcs) | Some ms \<Rightarrow> ms"
  have ok: "ms_ok ?ms" using assms(1) by (auto simp: rcs_ok_def dest!: map_of_SomeD split: option.split)
  have n: "n = ms_Size (snd (ms_Add m ?ms))" "fst (ms_Add m ?ms) = None"
    using assms(2) by (auto simp: rcs_Add_def Let_def split: prod.splits option.splits)
  show ?thesis
    using ms_ok_Add [OF ok, of m] n
    by (auto simp: rcs_Add_snd alist_simps ms_Size_senders ms_senders_Add ms_Add_error split: if_splits)
qed

lemma MaxRound_fold:
  "fold (\<lambda>(k :: uint64, ms) maxRound.
           if ms_Size ms < num then maxRound
           else case maxRound of None \<Rightarrow> Some (sint k)
                | Some m \<Rightarrow> if m < sint k then Some (sint k) else Some m) l acc =
     (let ks = set_option acc \<union> (\<lambda>x. sint (fst x)) ` {e \<in> set l. num \<le> ms_Size (snd e)}
      in if ks = {} then None else Some (Max ks))"
proof (induction l arbitrary: acc)
  case Nil
  then show ?case by (cases acc) auto
next
  case (Cons e l)
  obtain k ms where e: "e = (k, ms)" by (cases e)
  define K where "K = (\<lambda>x. sint (fst x)) ` {e \<in> set l. num \<le> ms_Size (snd e)}"
  have fin: "finite K" by (simp add: K_def)
  have K: "(\<lambda>x. sint (fst x)) ` {x \<in> set ((k, ms) # l). num \<le> ms_Size (snd x)} =
      (if ms_Size ms < num then K else insert (sint k) K)"
    by (auto simp: K_def intro: rev_image_eqI [of "(k, ms)"])
  show ?case
    unfolding e fold_Cons comp_apply Cons.IH K K_def [symmetric] prod.case
    using fin by (cases acc; cases "K = {}") (auto simp: Let_def)
qed

lemma MaxRound_Some:
  "MaxRound num rcs = Some r \<Longrightarrow> \<exists>(k, ms) \<in> set (roundChanges rcs). r = sint k \<and> num \<le> ms_Size ms"
proof -
  let ?K = "(\<lambda>x. sint (fst x)) ` {e \<in> set (roundChanges rcs). num \<le> ms_Size (snd e)}"
  assume "MaxRound num rcs = Some r"
  then have "?K \<noteq> {}" "r = Max ?K" by (auto simp: MaxRound_def MaxRound_fold Let_def split: if_splits)
  then have "r \<in> ?K" using Max_in [of ?K] by simp
  then show ?thesis by force
qed

end
