(* ===== verification/Prque.thy ===== *)
theory Prque
  imports Prelude "HOL-Library.Multiset"
begin

text \<open>
  The priority queue of the backlogs and of the pending requests
  (\<open>vendor/gopkg.in/karalabe/cookiejar.v2/collections/prque\<close>): a binary max-heap kept in an
  array, driven by \<open>container/heap\<close>. The blocks of \<open>sstack\<close> are one list. A priority is a
  \<open>float32\<close> holding a whole number, so it is an \<open>int\<close> here; \<open>float32_of_nat\<close> is the rounding of
  the conversion \<open>float32(n)\<close> (24 significant bits, ties to even).
\<close>

subsection \<open>Conversion to float32\<close>

fun bit_length :: "nat \<Rightarrow> nat" where
  "bit_length n = (if n = 0 then 0 else Suc (bit_length (n div 2)))"

declare bit_length.simps [simp del]

definition float32_of_nat :: "nat \<Rightarrow> nat" where
  "float32_of_nat n =
     (if bit_length n \<le> 24 then n
      else let k = bit_length n - 24; q = n div 2 ^ k; r = n mod 2 ^ k; h = 2 ^ (k - 1);
               q' = (if r > h \<or> (r = h \<and> odd q) then q + 1 else q)
           in q' * 2 ^ k)"

definition float32_of_int :: "int \<Rightarrow> int" where
  "float32_of_int i = (if i < 0 then - int (float32_of_nat (nat (- i))) else int (float32_of_nat (nat i)))"


subsection \<open>The heap\<close>

type_synonym 'a prque = "('a \<times> int) list"

definition prq_Less :: "'a prque \<Rightarrow> nat \<Rightarrow> nat \<Rightarrow> bool" where
  "prq_Less h i j \<longleftrightarrow> snd (h ! i) > snd (h ! j)"

definition prq_Swap :: "nat \<Rightarrow> nat \<Rightarrow> 'a prque \<Rightarrow> 'a prque" where
  "prq_Swap i j h = h[i := h ! j, j := h ! i]"

fun heap_up :: "nat \<Rightarrow> 'a prque \<Rightarrow> 'a prque" where
  "heap_up j h =
     (let i = (j - 1) div 2
      in if i = j \<or> \<not> prq_Less h j i then h else heap_up i (prq_Swap i j h))"

function heap_down :: "nat \<Rightarrow> nat \<Rightarrow> 'a prque \<Rightarrow> 'a prque" where
  "heap_down i n h =
     (let j1 = 2 * i + 1; j2 = j1 + 1;
          j = (if j2 < n \<and> prq_Less h j2 j1 then j2 else j1)
      in if j1 \<ge> n then h
         else if \<not> prq_Less h j i then h
         else heap_down j n (prq_Swap i j h))"
  by pat_completeness auto

termination
  by (relation "measure (\<lambda>(i, n, _). n - i)") (auto split: if_splits)

declare heap_up.simps [simp del] heap_down.simps [simp del]

definition prq_New :: "'a prque" where
  "prq_New = []"

definition prq_Empty :: "'a prque \<Rightarrow> bool" where
  "prq_Empty h \<longleftrightarrow> length h = 0"

definition prq_Push :: "'a \<Rightarrow> int \<Rightarrow> 'a prque \<Rightarrow> 'a prque" where
  "prq_Push x p h = heap_up (length h) (h @ [(x, p)])"

definition prq_Pop :: "'a prque \<Rightarrow> ('a \<times> int) \<times> 'a prque" where
  "prq_Pop h =
     (let n = length h - 1; h' = heap_down 0 n (prq_Swap 0 n h)
      in (last h', butlast h'))"


subsection \<open>Contents\<close>

lemma length_prq_Swap [simp]: "length (prq_Swap i j h) = length h"
  by (simp add: prq_Swap_def)

lemma mset_prq_Swap [simp]:
  "i < length h \<Longrightarrow> j < length h \<Longrightarrow> mset (prq_Swap i j h) = mset h"
  unfolding prq_Swap_def by (rule mset_swap)

lemma nth_prq_Swap:
  "i < length h \<Longrightarrow> j < length h \<Longrightarrow> k < length h \<Longrightarrow>
   prq_Swap i j h ! k = (if k = j then h ! i else if k = i then h ! j else h ! k)"
  by (simp add: prq_Swap_def nth_list_update)

lemma length_heap_up [simp]: "length (heap_up j h) = length h"
proof (induction j h rule: heap_up.induct)
  case (1 j h)
  then show ?case by (subst heap_up.simps) (simp add: Let_def)
qed

lemma mset_heap_up [simp]: "j < length h \<Longrightarrow> mset (heap_up j h) = mset h"
proof (induction j h rule: heap_up.induct)
  case (1 j h)
  then have "(j - 1) div 2 < length h" by linarith
  with 1 show ?case by (subst heap_up.simps) (simp add: Let_def)
qed

lemma length_heap_down [simp]: "length (heap_down i n h) = length h"
proof (induction i n h rule: heap_down.induct)
  case (1 i n h)
  then show ?case by (subst heap_down.simps) (simp add: Let_def)
qed

lemma heap_down_frame:
  "n \<le> length h \<Longrightarrow> i < n \<or> i = 0 \<Longrightarrow>
   mset (heap_down i n h) = mset h \<and> (\<forall>k. n \<le> k \<and> k < length h \<longrightarrow> heap_down i n h ! k = h ! k)"
proof (induction i n h rule: heap_down.induct)
  case (1 i n h)
  let ?j = "if 2 * i + 1 + 1 < n \<and> prq_Less h (2 * i + 1 + 1) (2 * i + 1) then 2 * i + 1 + 1 else 2 * i + 1"
  show ?case
  proof (cases "2 * i + 1 \<ge> n \<or> \<not> prq_Less h ?j i")
    case True
    then show ?thesis by (subst (1 2) heap_down.simps) (auto simp: Let_def)
  next
    case False
    then have j: "?j < n" "i < n" by auto
    have IH: "mset (heap_down ?j n (prq_Swap i ?j h)) = mset (prq_Swap i ?j h) \<and>
      (\<forall>k. n \<le> k \<and> k < length (prq_Swap i ?j h) \<longrightarrow>
         heap_down ?j n (prq_Swap i ?j h) ! k = prq_Swap i ?j h ! k)"
      by (rule "1.IH") (use False j 1 in auto)
    have "heap_down i n h = heap_down ?j n (prq_Swap i ?j h)"
      using False by (subst heap_down.simps) (auto simp: Let_def)
    with IH j 1(2) show ?thesis by (auto simp: nth_prq_Swap)
  qed
qed

lemma length_prq_Push [simp]: "length (prq_Push x p h) = Suc (length h)"
  by (simp add: prq_Push_def)

lemma mset_prq_Push: "mset (prq_Push x p h) = add_mset (x, p) (mset h)"
  by (simp add: prq_Push_def)

lemma length_prq_Pop [simp]: "length (snd (prq_Pop h)) = length h - 1"
  by (simp add: prq_Pop_def Let_def)
lemma prq_Pop_less: "\<not> prq_Empty q \<Longrightarrow> (x, q') = prq_Pop q \<Longrightarrow> length q' < length q"
  using length_prq_Pop [of q] by (cases q) (auto simp: prq_Empty_def dest: arg_cong [of _ _ snd])


subsection \<open>Heap order\<close>

definition parent :: "nat \<Rightarrow> nat" where
  "parent k = (k - 1) div 2"

abbreviation prio :: "'a prque \<Rightarrow> nat \<Rightarrow> int" where
  "prio h k \<equiv> snd (h ! k)"

definition heap_upto :: "nat \<Rightarrow> 'a prque \<Rightarrow> bool" where
  "heap_upto n h \<longleftrightarrow> (\<forall>k. 0 < k \<and> k < n \<longrightarrow> prio h (parent k) \<ge> prio h k)"

definition prq_ok :: "'a prque \<Rightarrow> bool" where
  "prq_ok h \<longleftrightarrow> heap_upto (length h) h"

text \<open>The order holds everywhere but below position \<open>i\<close>, respectively above it.\<close>

definition hole_down :: "nat \<Rightarrow> nat \<Rightarrow> 'a prque \<Rightarrow> bool" where
  "hole_down n i h \<longleftrightarrow>
     (\<forall>k. 0 < k \<and> k < n \<and> parent k \<noteq> i \<longrightarrow> prio h (parent k) \<ge> prio h k) \<and>
     (\<forall>k. 0 < k \<and> k < n \<and> parent k = i \<and> 0 < i \<longrightarrow> prio h (parent i) \<ge> prio h k)"

definition hole_up :: "nat \<Rightarrow> nat \<Rightarrow> 'a prque \<Rightarrow> bool" where
  "hole_up n j h \<longleftrightarrow>
     (\<forall>k. 0 < k \<and> k < n \<and> k \<noteq> j \<longrightarrow> prio h (parent k) \<ge> prio h k) \<and>
     (\<forall>k. 0 < k \<and> k < n \<and> parent k = j \<and> 0 < j \<longrightarrow> prio h (parent j) \<ge> prio h k)"

lemma parent_less: "0 < k \<Longrightarrow> parent k < k"
  by (simp add: parent_def less_mult_imp_div_less)

lemma parent_le: "parent k \<le> k"
  by (simp add: parent_def div_le_dividend le_trans)

lemma heap_up_unfold:
  "heap_up j h = (if parent j = j \<or> \<not> prq_Less h j (parent j) then h
                  else heap_up (parent j) (prq_Swap (parent j) j h))"
  by (subst heap_up.simps) (simp add: Let_def parent_def)

lemma child_cases: "0 < k \<Longrightarrow> parent k = i \<Longrightarrow> k = 2 * i + 1 \<or> k = 2 * i + 2"
  unfolding parent_def by linarith

lemma hole_up_step:
  assumes "hole_up n j h" "j < n" "n \<le> length h" "0 < j" "prq_Less h j (parent j)"
  shows "hole_up n (parent j) (prq_Swap (parent j) j h)"
proof -
  let ?i = "parent j" and ?h = "prq_Swap (parent j) j h"
  have i: "?i < j" using assms(4) by (rule parent_less)
  have nth: "k < n \<Longrightarrow> ?h ! k = (if k = j then h ! ?i else if k = ?i then h ! j else h ! k)" for k
    using assms(2,3) i by (intro nth_prq_Swap) auto
  have up: "0 < k \<Longrightarrow> k < n \<Longrightarrow> k \<noteq> j \<Longrightarrow> prio h (parent k) \<ge> prio h k" for k
    using assms(1) by (auto simp: hole_up_def)
  have dn: "0 < k \<Longrightarrow> k < n \<Longrightarrow> parent k = j \<Longrightarrow> prio h ?i \<ge> prio h k" for k
    using assms(1,4) by (auto simp: hole_up_def)
  have lt: "prio h ?i < prio h j" using assms(5) by (simp add: prq_Less_def)
  have "prio ?h (parent k) \<ge> prio ?h k" if k: "0 < k" "k < n" "k \<noteq> ?i" for k
  proof -
    have pk: "parent k < k" "parent k < n" using k parent_less [of k] by auto
    show ?thesis
    proof (cases "k = j")
      case True
      then show ?thesis using nth [of k] nth [of ?i] lt i k by auto
    next
      case False
      then show ?thesis
        using nth [of k] nth [of "parent k"] up [of k] dn [of k] lt k pk by auto
    qed
  qed
  moreover have "prio ?h (parent ?i) \<ge> prio ?h k"
    if k: "0 < k" "k < n" "parent k = ?i" "0 < ?i" for k
  proof -
    have pi: "parent ?i < ?i" using k(4) by (rule parent_less)
    have ii: "prio h (parent ?i) \<ge> prio h ?i" using up [of ?i] k(4) i assms(2) by auto
    have ki: "k \<noteq> ?i" using parent_less [OF k(1)] k(3) by auto
    show ?thesis
      using nth [of "parent ?i"] nth [of k] up [of k] ii pi k ki i assms(2) by (cases "k = j") auto
  qed
  ultimately show ?thesis unfolding hole_up_def by blast
qed

lemma heap_up_heap: "hole_up n j h \<Longrightarrow> j < n \<Longrightarrow> n \<le> length h \<Longrightarrow> heap_upto n (heap_up j h)"
proof (induction j h rule: heap_up.induct)
  case (1 j h)
  show ?case
  proof (cases "parent j = j \<or> \<not> prq_Less h j (parent j)")
    case True
    have "prio h (parent k) \<ge> prio h k" if "0 < k" "k < n" for k
    proof (cases "k = j")
      case True
      with that have "parent j < j" using parent_less by blast
      with True \<open>parent j = j \<or> _\<close> show ?thesis by (auto simp: prq_Less_def)
    qed (use 1 that in \<open>auto simp: hole_up_def\<close>)
    with True show ?thesis by (subst heap_up_unfold) (auto simp: heap_upto_def)
  next
    case False
    then have j: "0 < j" using parent_le [of j] by (cases j) auto
    then have "parent j < n" using 1 parent_less [OF j] by auto
    then have "heap_upto n (heap_up (parent j) (prq_Swap (parent j) j h))"
      using False "1.prems" j by (intro "1.IH" [OF parent_def]) (auto intro: hole_up_step)
    then show ?thesis using False by (subst heap_up_unfold) auto
  qed
qed

definition max_child :: "nat \<Rightarrow> nat \<Rightarrow> 'a prque \<Rightarrow> nat" where
  "max_child i n h =
     (if 2 * i + 2 < n \<and> prq_Less h (2 * i + 2) (2 * i + 1) then 2 * i + 2 else 2 * i + 1)"

lemma heap_down_unfold:
  "heap_down i n h =
     (if 2 * i + 1 \<ge> n \<or> \<not> prq_Less h (max_child i n h) i then h
      else heap_down (max_child i n h) n (prq_Swap i (max_child i n h) h))"
  by (subst heap_down.simps) (auto simp: Let_def max_child_def)

lemma max_child:
  assumes "2 * i + 1 < n"
  shows "max_child i n h < n" "parent (max_child i n h) = i" "i < max_child i n h"
    "0 < k \<Longrightarrow> k < n \<Longrightarrow> parent k = i \<Longrightarrow> prio h k \<le> prio h (max_child i n h)"
proof -
  show "max_child i n h < n" "parent (max_child i n h) = i" "i < max_child i n h"
    using assms by (auto simp: max_child_def parent_def)
  show "0 < k \<Longrightarrow> k < n \<Longrightarrow> parent k = i \<Longrightarrow> prio h k \<le> prio h (max_child i n h)"
    using child_cases [of k i] by (auto simp: max_child_def prq_Less_def)
qed

lemma hole_down_step:
  assumes "hole_down n i h" "n \<le> length h" "2 * i + 1 < n" "prq_Less h (max_child i n h) i"
  shows "hole_down n (max_child i n h) (prq_Swap i (max_child i n h) h)"
proof -
  let ?j = "max_child i n h" and ?h = "prq_Swap i (max_child i n h) h"
  note j = max_child [OF assms(3), where h = h]
  have nth: "k < n \<Longrightarrow> ?h ! k = (if k = ?j then h ! i else if k = i then h ! ?j else h ! k)" for k
    using assms(2) j(1,3) by (intro nth_prq_Swap) auto
  have up: "0 < k \<Longrightarrow> k < n \<Longrightarrow> parent k \<noteq> i \<Longrightarrow> prio h (parent k) \<ge> prio h k" for k
    using assms(1) by (auto simp: hole_down_def)
  have dn: "0 < k \<Longrightarrow> k < n \<Longrightarrow> parent k = i \<Longrightarrow> 0 < i \<Longrightarrow> prio h (parent i) \<ge> prio h k" for k
    using assms(1) by (auto simp: hole_down_def)
  have lt: "prio h i < prio h ?j" using assms(4) by (simp add: prq_Less_def)
  have "prio ?h (parent k) \<ge> prio ?h k" if k: "0 < k" "k < n" "parent k \<noteq> ?j" for k
  proof -
    have pk: "parent k < k" "parent k < n" using k parent_less [of k] by auto
    show ?thesis
    proof (cases "parent k = i")
      case True
      then show ?thesis using nth [of k] nth [of i] lt j(4) [of k] j(1,3) k pk by (cases "k = ?j") auto
    next
      case False
      with j(2) have kj: "k \<noteq> ?j" by auto
      show ?thesis
      proof (cases "k = i")
        case True
        then show ?thesis using nth [of i] nth [of "parent i"] dn [of ?j] j k pk kj by auto
      next
        case ki: False
        then show ?thesis using nth [of k] nth [of "parent k"] up [of k] False k pk kj by auto
      qed
    qed
  qed
  moreover have "prio ?h (parent ?j) \<ge> prio ?h k"
    if k: "0 < k" "k < n" "parent k = ?j" "0 < ?j" for k
  proof -
    have "k \<noteq> ?j" "k \<noteq> i" "parent k \<noteq> i" using parent_less [OF k(1)] k(3) j(3) by auto
    then show ?thesis using nth [of k] nth [of i] up [of k] k j by auto
  qed
  ultimately show ?thesis unfolding hole_down_def by blast
qed

lemma heap_down_heap: "hole_down n i h \<Longrightarrow> n \<le> length h \<Longrightarrow> heap_upto n (heap_down i n h)"
proof (induction "n - i" arbitrary: i h rule: less_induct)
  case less
  show ?case
  proof (cases "2 * i + 1 \<ge> n \<or> \<not> prq_Less h (max_child i n h) i")
    case True
    have "prio h (parent k) \<ge> prio h k" if k: "0 < k" "k < n" for k
    proof (cases "parent k = i")
      case p: True
      with child_cases [OF k(1) p] k(2) have c: "2 * i + 1 < n" by auto
      with True max_child(4) [OF c k p, where h = h] p show ?thesis by (auto simp: prq_Less_def)
    qed (use less.prems k in \<open>auto simp: hole_down_def\<close>)
    with True show ?thesis by (subst heap_down_unfold) (auto simp: heap_upto_def)
  next
    case False
    then have c: "2 * i + 1 < n" and l: "prq_Less h (max_child i n h) i" by auto
    have "heap_upto n (heap_down (max_child i n h) n (prq_Swap i (max_child i n h) h))"
      using hole_down_step [OF less.prems c l] less.prems max_child(1,3) [OF c, where h = h]
      by (intro less.hyps) auto
    with False show ?thesis by (subst heap_down_unfold) simp
  qed
qed

lemma heap_top:
  assumes "heap_upto n h" "k < n"
  shows "prio h k \<le> prio h 0"
  using assms(2)
proof (induction k rule: less_induct)
  case (less k)
  show ?case
  proof (cases "k = 0")
    case False
    with less have "prio h k \<le> prio h (parent k)" using assms(1) by (auto simp: heap_upto_def)
    also have "\<dots> \<le> prio h 0" using less False parent_less [of k] by auto
    finally show ?thesis .
  qed simp
qed

lemma heap_upto_cong:
  assumes "heap_upto n h" "\<And>k. k < n \<Longrightarrow> h' ! k = h ! k"
  shows "heap_upto n h'"
  unfolding heap_upto_def
proof (intro allI impI, elim conjE)
  fix k
  assume k: "0 < k" "k < n"
  then have "parent k < n" using parent_le [of k] by simp
  with k assms show "prio h' (parent k) \<ge> prio h' k" by (simp add: heap_upto_def)
qed


subsection \<open>The queue interface\<close>

text \<open>What the core relies on: a bag of prioritised items whose \<open>Pop\<close> takes a maximal one.\<close>

locale prio_queue =
  fixes content :: "'q \<Rightarrow> ('a \<times> int) multiset" and invar :: "'q \<Rightarrow> bool"
    and empty_queue :: 'q and is_empty :: "'q \<Rightarrow> bool"
    and push :: "'a \<Rightarrow> int \<Rightarrow> 'q \<Rightarrow> 'q" and pop :: "'q \<Rightarrow> ('a \<times> int) \<times> 'q"
  assumes invar_empty: "invar empty_queue" and content_empty: "content empty_queue = {#}"
    and is_empty_iff: "invar q \<Longrightarrow> is_empty q \<longleftrightarrow> content q = {#}"
    and invar_push: "invar q \<Longrightarrow> invar (push x p q)"
    and content_push: "invar q \<Longrightarrow> content (push x p q) = add_mset (x, p) (content q)"
    and invar_pop: "invar q \<Longrightarrow> content q \<noteq> {#} \<Longrightarrow> invar (snd (pop q))"
    and content_pop: "invar q \<Longrightarrow> content q \<noteq> {#} \<Longrightarrow> content q = add_mset (fst (pop q)) (content (snd (pop q)))"
    and pop_max: "invar q \<Longrightarrow> content q \<noteq> {#} \<Longrightarrow> y \<in># content q \<Longrightarrow> snd y \<le> snd (fst (pop q))"
begin

lemma pop_push_content:
  "invar q \<Longrightarrow> content q \<noteq> {#} \<Longrightarrow>
   content (push (fst (fst (pop q))) (snd (fst (pop q))) (snd (pop q))) = content q"
  using content_push [OF invar_pop] content_pop by simp

lemma pop_content_subset: "invar q \<Longrightarrow> content q \<noteq> {#} \<Longrightarrow> content (snd (pop q)) \<subseteq># content q"
  by (subst (2) content_pop) simp_all

end

lemma prq_ok_New: "prq_ok prq_New"
  by (simp add: prq_ok_def heap_upto_def prq_New_def)

lemma prq_ok_Push: "prq_ok h \<Longrightarrow> prq_ok (prq_Push x p h)"
proof -
  assume ok: "prq_ok h"
  let ?h = "h @ [(x, p)]"
  have "hole_up (Suc (length h)) (length h) ?h"
    unfolding hole_up_def
  proof (intro conjI allI impI; elim conjE)
    fix k assume k: "0 < k" "k < Suc (length h)" "k \<noteq> length h"
    then have "prio h (parent k) \<ge> prio h k" using ok by (auto simp: prq_ok_def heap_upto_def)
    then show "prio ?h (parent k) \<ge> prio ?h k" using k parent_less [of k] by (simp add: nth_append)
  next
    fix k assume "0 < k" "k < Suc (length h)" "parent k = length h"
    then show "prio ?h (parent (length h)) \<ge> prio ?h k" using parent_less [of k] by auto
  qed
  from heap_up_heap [OF this] show ?thesis by (simp add: prq_ok_def prq_Push_def)
qed

lemma prq_Pop_heap:
  assumes "prq_ok h" "h \<noteq> []"
  defines "n \<equiv> length h - 1"
  shows "heap_upto n (heap_down 0 n (prq_Swap 0 n h))" "heap_down 0 n (prq_Swap 0 n h) ! n = h ! 0"
proof -
  have n: "n < length h" "length h = Suc n" using assms(2) by (auto simp: n_def)
  have nth: "k < length h \<Longrightarrow> prq_Swap 0 n h ! k = (if k = n then h ! 0 else if k = 0 then h ! n else h ! k)" for k
    using n by (intro nth_prq_Swap) auto
  have "hole_down n 0 (prq_Swap 0 n h)"
    unfolding hole_down_def
  proof (intro conjI allI impI; elim conjE)
    fix k assume k: "0 < k" "k < n" "parent k \<noteq> 0"
    then have "prio h (parent k) \<ge> prio h k"
      using assms(1) n by (auto simp: prq_ok_def heap_upto_def)
    then show "prio (prq_Swap 0 n h) (parent k) \<ge> prio (prq_Swap 0 n h) k"
      using nth [of k] nth [of "parent k"] k parent_less [of k] n by auto
  qed simp
  then show "heap_upto n (heap_down 0 n (prq_Swap 0 n h))"
    using n by (intro heap_down_heap) auto
  have "heap_down 0 n (prq_Swap 0 n h) ! n = prq_Swap 0 n h ! n"
    using heap_down_frame [of n "prq_Swap 0 n h" 0] n by auto
  then show "heap_down 0 n (prq_Swap 0 n h) ! n = h ! 0" using nth [of n] n by simp
qed

lemma fst_prq_Pop:
  assumes "prq_ok h" "h \<noteq> []"
  shows "fst (prq_Pop h) = h ! 0"
proof -
  let ?d = "heap_down 0 (length h - 1) (prq_Swap 0 (length h - 1) h)"
  have "?d \<noteq> []" using assms(2) by (metis length_heap_down length_prq_Swap length_0_conv)
  then have "last ?d = ?d ! (length h - 1)" by (simp add: last_conv_nth)
  with prq_Pop_heap(2) [OF assms] show ?thesis by (simp add: prq_Pop_def Let_def)
qed

lemma prq_ok_Pop:
  assumes "prq_ok h" "h \<noteq> []"
  shows "prq_ok (snd (prq_Pop h))"
proof -
  have "heap_upto (length h - 1) (snd (prq_Pop h))"
    by (rule heap_upto_cong [OF prq_Pop_heap(1) [OF assms]])
      (simp add: prq_Pop_def Let_def nth_butlast)
  then show ?thesis by (simp add: prq_ok_def)
qed

lemma mset_prq_Pop:
  assumes "h \<noteq> []"
  shows "mset h = add_mset (fst (prq_Pop h)) (mset (snd (prq_Pop h)))"
proof -
  obtain n where n: "length h = Suc n" using assms by (cases h) auto
  let ?d = "heap_down 0 n (prq_Swap 0 n h)"
  have "mset ?d = mset h"
    using heap_down_frame [of n "prq_Swap 0 n h" 0] mset_prq_Swap [of 0 h n] n by simp
  moreover have "length ?d = Suc n" using n by simp
  then have "?d = butlast ?d @ [last ?d]" by (metis append_butlast_last_id list.size(3) nat.distinct(1))
  then have "mset ?d = mset (butlast ?d @ [last ?d])" by simp
  ultimately show ?thesis by (simp add: prq_Pop_def Let_def n)
qed

interpretation prq: prio_queue mset prq_ok prq_New prq_Empty prq_Push prq_Pop
proof
  fix q :: "'a prque" and x p and y :: "'a \<times> int"
  show "prq_ok (prq_New :: 'a prque)" by (rule prq_ok_New)
  show "mset (prq_New :: 'a prque) = {#}" by (simp add: prq_New_def)
  assume ok: "prq_ok q"
  show "prq_Empty q \<longleftrightarrow> mset q = {#}" by (simp add: prq_Empty_def)
  show "prq_ok (prq_Push x p q)" using ok by (rule prq_ok_Push)
  show "mset (prq_Push x p q) = add_mset (x, p) (mset q)" by (rule mset_prq_Push)
  assume "mset q \<noteq> {#}"
  then have q: "q \<noteq> []" by simp
  show "prq_ok (snd (prq_Pop q))" using ok q by (rule prq_ok_Pop)
  show "mset q = add_mset (fst (prq_Pop q)) (mset (snd (prq_Pop q)))" using q by (rule mset_prq_Pop)
  assume "y \<in># mset q"
  then obtain k where "k < length q" "y = q ! k" by (auto simp: in_set_conv_nth)
  then show "snd y \<le> snd (fst (prq_Pop q))"
    using heap_top [of "length q" q k] ok q by (simp add: fst_prq_Pop prq_ok_def)
qed

subsection \<open>Rounding to float32\<close>

lemma bit_length_bounds: "0 < n \<Longrightarrow> 2 ^ (bit_length n - 1) \<le> n \<and> n < 2 ^ bit_length n"
proof (induction n rule: bit_length.induct)
  case (1 n)
  show ?case
  proof (cases "n div 2 = 0")
    case True
    with 1 have "n = 1" by (simp add: div_eq_0_iff)
    then show ?thesis by (simp add: bit_length.simps)
  next
    case False
    with 1 have "2 ^ (bit_length (n div 2) - 1) \<le> n div 2" "n div 2 < 2 ^ bit_length (n div 2)" by auto
    moreover have "0 < bit_length (n div 2)" using False by (subst bit_length.simps) simp
    then obtain k where "bit_length (n div 2) = Suc k" by (cases "bit_length (n div 2)") auto
    moreover have "bit_length n = Suc (bit_length (n div 2))" using 1 by (subst bit_length.simps) simp
    ultimately show ?thesis by simp linarith
  qed
qed

lemma bit_length_le: "n < 2 ^ k \<Longrightarrow> bit_length n \<le> k"
proof (rule ccontr)
  assume n: "n < 2 ^ k" "\<not> bit_length n \<le> k"
  then have "0 < n" by (cases n) (auto simp: bit_length.simps)
  with bit_length_bounds have "2 ^ (bit_length n - 1) \<le> n" by blast
  moreover have "2 ^ k \<le> (2 :: nat) ^ (bit_length n - 1)" using n(2) by (intro power_increasing) auto
  ultimately show False using n(1) by linarith
qed

lemma bit_length_mono: "n \<le> m \<Longrightarrow> bit_length n \<le> bit_length m"
proof (cases "m = 0")
  case False
  assume "n \<le> m"
  with False bit_length_bounds [of m] show ?thesis by (intro bit_length_le) auto
qed simp

lemma float32_exact: "n < 2 ^ 24 \<Longrightarrow> float32_of_nat n = n"
  using bit_length_le [of n 24] by (simp add: float32_of_nat_def)

definition round_at :: "nat \<Rightarrow> nat \<Rightarrow> nat" where
  "round_at k n = (let q = n div 2 ^ k; r = n mod 2 ^ k; h = 2 ^ (k - 1)
                   in if r > h \<or> (r = h \<and> odd q) then q + 1 else q)"

lemma float32_round_at:
  "24 < bit_length n \<Longrightarrow>
   float32_of_nat n = round_at (bit_length n - 24) n * 2 ^ (bit_length n - 24)"
  by (simp add: float32_of_nat_def round_at_def Let_def)

lemma round_at_mono: "n \<le> m \<Longrightarrow> round_at k n \<le> round_at k m"
proof -
  assume "n \<le> m"
  then have q: "n div 2 ^ k \<le> m div 2 ^ k" by (rule div_le_mono)
  show ?thesis
  proof (cases "n div 2 ^ k = m div 2 ^ k")
    case True
    then have "n mod 2 ^ k \<le> m mod 2 ^ k"
      using \<open>n \<le> m\<close> by (simp add: modulo_nat_def mult.commute)
    with True show ?thesis by (auto simp: round_at_def Let_def)
  next
    case False
    with q show ?thesis by (auto simp: round_at_def Let_def)
  qed
qed

lemma float32_bounds:
  assumes "24 < bit_length n"
  shows "2 ^ (bit_length n - 1) \<le> float32_of_nat n" "float32_of_nat n \<le> 2 ^ bit_length n"
proof -
  let ?k = "bit_length n - 24"
  have n: "2 ^ (bit_length n - 1) \<le> n" "n < 2 ^ bit_length n"
    using bit_length_bounds [of n] assms by (cases "n = 0"; auto simp: bit_length.simps)+
  have e: "bit_length n - 1 = 23 + ?k" "bit_length n = 24 + ?k" using assms by simp_all
  have lo: "2 ^ 23 * 2 ^ ?k \<le> n" using n(1) unfolding e(1) power_add by simp
  then have "2 ^ 23 \<le> n div 2 ^ ?k" by (metis div_le_mono nonzero_mult_div_cancel_right power_not_zero zero_neq_numeral)
  then have "2 ^ 23 \<le> round_at ?k n" by (auto simp: round_at_def Let_def)
  then show "2 ^ (bit_length n - 1) \<le> float32_of_nat n"
    unfolding e(1) power_add float32_round_at [OF assms] by (rule mult_le_mono1)
  have "n < 2 ^ 24 * 2 ^ ?k" using n(2) e(2) by (metis power_add)
  then have "n div 2 ^ ?k < 2 ^ 24" by (simp add: less_mult_imp_div_less)
  then have "round_at ?k n \<le> 2 ^ 24" by (auto simp: round_at_def Let_def)
  then have "float32_of_nat n \<le> 2 ^ 24 * 2 ^ ?k"
    unfolding float32_round_at [OF assms] by (rule mult_le_mono1)
  then show "float32_of_nat n \<le> 2 ^ bit_length n" by (metis e(2) power_add)
qed

lemma float32_mono: "n \<le> m \<Longrightarrow> float32_of_nat n \<le> float32_of_nat m"
proof -
  assume nm: "n \<le> m"
  note b = bit_length_mono [OF nm]
  consider "bit_length m \<le> 24" | "bit_length n \<le> 24" "24 < bit_length m"
    | "24 < bit_length n" "bit_length n = bit_length m" | "24 < bit_length n" "bit_length n < bit_length m"
    using b by linarith
  then show ?thesis
  proof cases
    case 2
    then have "n < 2 ^ 24" using bit_length_bounds [of n] power_increasing [of "bit_length n" 24 "2::nat"]
      by (cases "n = 0") auto
    moreover have "(2 :: nat) ^ 24 \<le> 2 ^ (bit_length m - 1)" using 2 by (intro power_increasing) auto
    ultimately show ?thesis using float32_bounds(1) [OF 2(2)] float32_exact [of n] by linarith
  next
    case 3
    then show ?thesis using round_at_mono [OF nm] by (simp add: float32_round_at)
  next
    case 4
    then have "float32_of_nat n \<le> 2 ^ bit_length n" using float32_bounds(2) by blast
    also have "\<dots> \<le> 2 ^ (bit_length m - 1)" using 4 by (intro power_increasing) auto
    also have "\<dots> \<le> float32_of_nat m" using 4 by (intro float32_bounds(1)) auto
    finally show ?thesis .
  qed (use nm b in \<open>simp add: float32_of_nat_def\<close>)
qed

end
