(* ===== verification/Bft_Core.thy ===== *)
theory Bft_Core
  imports Round_State Prque "HOL-Library.Monad_Syntax"
begin

text \<open>
  The consensus core (\<open>consensus/sport/smilobftcore\<close>): one definition per method of \<open>*core\<close>, in
  explicit state-passing style. A method returns \<open>None\<close> where the Go code would panic on a nil
  pointer, and otherwise the new core; methods that return a Go \<open>error\<close> pair it with the core.

  \<^item> \<open>backend\<close> is the interface \<open>sport.Backend\<close> as seen during the handling of one event.
  \<^item> Calls that leave the core (broadcast, gossip, delivery of a committed block, events posted to
    the mux) are appended to \<open>outbox\<close> in the order of the calls. Events posted by \<open>go sendEvent\<close>
    may be delivered in any order; so may the seals of a commit, which the source collects from a
    Go map.
  \<^item> An armed timer is the duration it was armed with; a stopped or absent timer is \<open>None\<close>.
  \<^item> Logging, metrics and \<open>consensusTimestamp\<close>, which only feeds them, are left out. Log
    arguments that dereference a pointer are kept, because they can panic.
  \<^item> The core, its message sets and its round-change set share one fullnode set in memory. The
    only field written through that sharing is the speaker, which the sets never read.
\<close>

subsection \<open>State\<close>

datatype event =
    RequestEvent "proposal option"
  | MessageEvent bytes
  | backlogEvent address message
  | timeoutEvent
  | FinalCommittedEvent

datatype effect =
    EBroadcast fullnodeSet bytes
  | EGossip fullnodeSet bytes
  | ECommit proposal "bytes list"
  | EPost event

record backend =
  b_Address :: address
  b_Fullnodes :: "proposal \<Rightarrow> fullnodeSet"
  b_ParentFullnodes :: "proposal \<Rightarrow> fullnodeSet"
  b_Commit :: "proposal \<Rightarrow> bytes list \<Rightarrow> error option"
  b_Verify :: "proposal \<Rightarrow> int \<times> error option"
  b_Sign :: "bytes \<Rightarrow> error + bytes"
  b_LastBlockProposal :: "proposal option \<times> address"
  b_HasBlockProposal :: "hash \<Rightarrow> int \<Rightarrow> bool"
  b_GetSpeaker :: "uint64 \<Rightarrow> address"
  b_HasBadBlockProposal :: "hash \<Rightarrow> bool"
  b_crypto :: crypto
  b_codec :: block_codec
  b_f2i_overflow :: uint64

text \<open>
  \<open>b_f2i_overflow\<close> is the value of the conversion of a too large \<open>float64\<close> to \<open>int64\<close>, which the
  Go specification leaves to the implementation.
\<close>

record core =
  config :: Config
  core_address :: address
  core_state :: State
  futurePreprepareTimer :: "(int \<times> event) option"
  core_fullnodeSet :: "fullnodeSet option"
  waitingForRoundChange :: bool
  backlogs :: "(address \<times> message prque) list"
  current :: "roundState option"
  core_roundChangeSet :: "roundChangeSet option"
  roundChangeTimer :: "int option"
  pendingRequests :: "request prque"
  outbox :: "effect list"

definition New :: "backend \<Rightarrow> Config \<Rightarrow> core" where
  "New b cfg =
     \<lparr>config = cfg, core_address = b_Address b, core_state = StateAcceptRequest,
      futurePreprepareTimer = None, core_fullnodeSet = None, waitingForRoundChange = False,
      backlogs = [], current = None, core_roundChangeSet = None, roundChangeTimer = None,
      pendingRequests = prq_New, outbox = []\<rparr>"

definition emit :: "effect \<Rightarrow> core \<Rightarrow> core" where
  "emit ef c = c\<lparr>outbox := outbox c @ [ef]\<rparr>"

definition currentView :: "core \<Rightarrow> view option" where
  "currentView c = do { rs \<leftarrow> current c; Some \<lparr>Round = rs_round rs, Sequence = rs_sequence rs\<rparr> }"

definition core_IsSpeaker :: "backend \<Rightarrow> core \<Rightarrow> bool" where
  "core_IsSpeaker b c =
     (case core_fullnodeSet c of None \<Rightarrow> False | Some vs \<Rightarrow> IsSpeaker (b_Address b) vs)"

definition IsCurrentBlockProposal :: "hash \<Rightarrow> core \<Rightarrow> bool" where
  "IsCurrentBlockProposal h c =
     (case current c of None \<Rightarrow> False
      | Some rs \<Rightarrow> (case pendingRequest rs of Some (Some p) \<Rightarrow> Hash p = h | _ \<Rightarrow> False))"


subsection \<open>Priorities\<close>

definition msgPriority :: "uint64 \<Rightarrow> uint64" where
  "msgPriority code =
     (if code = msgPreprepare then 1 else if code = msgCommit then 2 else if code = msgPrepare then 3 else 0)"

definition toPriority :: "uint64 \<Rightarrow> view \<Rightarrow> int" where
  "toPriority msgCode v =
     (if msgCode = msgRoundChange then - int (float32_of_nat (unat (big_Uint64 (Sequence v) * 1000)))
      else - int (float32_of_nat
             (unat (big_Uint64 (Sequence v) * 1000 + big_Uint64 (Round v) * 10 + msgPriority msgCode))))"


subsection \<open>Message checks\<close>

definition checkMessage :: "uint64 \<Rightarrow> view \<Rightarrow> core \<Rightarrow> error option option" where
  "checkMessage msgCode v c = do {
     cv \<leftarrow> currentView c;
     Some (if msgCode = msgRoundChange then
             (if Cmp (Sequence v) (Sequence cv) > 0 then Some errFutureMessage
              else if view_Cmp v cv < 0 then Some errOldMessage
              else None)
           else if view_Cmp v cv > 0 then Some errFutureMessage
           else if view_Cmp v cv < 0 then Some errOldMessage
           else if waitingForRoundChange c then Some errFutureMessage
           else if core_state c = StateAcceptRequest then
             (if msgCode > msgPreprepare then Some errFutureMessage else None)
           else None) }"

definition checkRequestMsg :: "request \<Rightarrow> core \<Rightarrow> error option option" where
  "checkRequestMsg r c =
     (case r of None \<Rightarrow> Some (Some errInvalidMessage)
      | Some p \<Rightarrow> do {
          rs \<leftarrow> current c;
          Some (let d = Cmp (rs_sequence rs) (Number p)
                in if d > 0 then Some errOldMessage
                   else if d < 0 then Some errFutureMessage
                   else None) })"


subsection \<open>Backlogs and pending requests\<close>

text \<open>
  Both queues are processed by the same loop: pop; drop the item, or post it, or push it back with
  its priority and stop.
\<close>

datatype verdict = Skip | Future | Post

function drain :: "('a \<Rightarrow> verdict option) \<Rightarrow> 'a prque \<Rightarrow> ('a list \<times> 'a prque) option" where
  "drain check q =
     (if prq_Empty q then Some ([], q)
      else case prq_Pop q of ((m, pr), q') \<Rightarrow>
        (case check m of
           None \<Rightarrow> None
         | Some Future \<Rightarrow> Some ([], prq_Push m pr q')
         | Some Skip \<Rightarrow> drain check q'
         | Some Post \<Rightarrow> map_option (apfst ((#) m)) (drain check q')))"
  by pat_completeness auto

termination
  by (relation "measure (\<lambda>(_, q). length q)") (auto dest: prq_Pop_less)

declare drain.simps [simp del]

lemma drain_code [code]:
  "drain check [] = Some ([], [])"
  "drain check (x # xs) =
     (case prq_Pop (x # xs) of ((m, pr), q') \<Rightarrow>
        (case check m of
           None \<Rightarrow> None
         | Some Future \<Rightarrow> Some ([], prq_Push m pr q')
         | Some Skip \<Rightarrow> drain check q'
         | Some Post \<Rightarrow> map_option (apfst ((#) m)) (drain check q')))"
  by (simp_all add: drain.simps [of check "[]"] drain.simps [of check "x # xs"] prq_Empty_def)

text \<open>The view a message carries: a PRE-PREPARE body has its own, every other body is a subject.\<close>

definition msg_view :: "block_codec \<Rightarrow> message \<Rightarrow> view option" where
  "msg_view bc m =
     (if Code m = msgPreprepare then map_option pp_View (DecodeBytes (item_preprepare bc) (Msg m))
      else map_option subj_View (DecodeBytes item_subject (Msg m)))"

definition storeBacklog :: "backend \<Rightarrow> message \<Rightarrow> address \<Rightarrow> core \<Rightarrow> core" where
  "storeBacklog b m src c =
     (if src = core_address c then c
      else let backlog = (case map_of (backlogs c) src of None \<Rightarrow> prq_New | Some q \<Rightarrow> q);
               backlog' = (case msg_view (b_codec b) m of None \<Rightarrow> backlog
                           | Some v \<Rightarrow> prq_Push m (toPriority (Code m) v) backlog)
           in c\<lparr>backlogs := AList.update src backlog' (backlogs c)\<rparr>)"

definition backlog_verdict :: "backend \<Rightarrow> core \<Rightarrow> message \<Rightarrow> verdict option" where
  "backlog_verdict b c m =
     (case msg_view (b_codec b) m of None \<Rightarrow> Some Skip
      | Some v \<Rightarrow> do {
          err \<leftarrow> checkMessage (Code m) v c;
          Some (case err of None \<Rightarrow> Post
                | Some e \<Rightarrow> if e = errFutureMessage then Future else Skip) })"

fun processBacklogs ::
    "backend \<Rightarrow> core \<Rightarrow> (address \<times> message prque) list \<Rightarrow>
     ((address \<times> message prque) list \<times> event list) option" where
  "processBacklogs b c [] = Some ([], [])"
| "processBacklogs b c ((srcAddress, backlog) # rest) = do {
     vs \<leftarrow> core_fullnodeSet c;
     (case GetByAddress srcAddress vs of
        None \<Rightarrow> processBacklogs b c rest
      | Some (_, src) \<Rightarrow> do {
          (posted, backlog') \<leftarrow> drain (backlog_verdict b c) backlog;
          (bs, evs) \<leftarrow> processBacklogs b c rest;
          Some ((srcAddress, backlog') # bs, map (backlogEvent src) posted @ evs) }) }"

definition processBacklog :: "backend \<Rightarrow> core \<Rightarrow> core option" where
  "processBacklog b c = do {
     (bs, evs) \<leftarrow> processBacklogs b c (backlogs c);
     Some (c\<lparr>backlogs := bs, outbox := outbox c @ map EPost evs\<rparr>) }"

definition big_Int64 :: "int \<Rightarrow> uint64" where
  "big_Int64 i = of_int i"

definition storeRequestMsg :: "proposal \<Rightarrow> core \<Rightarrow> core" where
  "storeRequestMsg p c =
     c\<lparr>pendingRequests :=
       prq_Push (Some p) (float32_of_int (sint (- big_Int64 (Number p)))) (pendingRequests c)\<rparr>"

definition request_verdict :: "core \<Rightarrow> request \<Rightarrow> verdict option" where
  "request_verdict c r = do {
     err \<leftarrow> checkRequestMsg r c;
     (case err of None \<Rightarrow> Some Post
      | Some e \<Rightarrow> if e = errFutureMessage then Some Future
                  else if r = None then None else Some Skip) }"

definition processPendingRequests :: "core \<Rightarrow> core option" where
  "processPendingRequests c = do {
     (rs, q) \<leftarrow> drain (request_verdict c) (pendingRequests c);
     Some (c\<lparr>pendingRequests := q, outbox := outbox c @ map EPost (map RequestEvent rs)\<rparr>) }"

definition setState :: "backend \<Rightarrow> State \<Rightarrow> core \<Rightarrow> core option" where
  "setState b st c = do {
     c \<leftarrow> Some (if core_state c \<noteq> st then c\<lparr>core_state := st\<rparr> else c);
     c \<leftarrow> (if st = StateAcceptRequest then processPendingRequests c else Some c);
     processBacklog b c }"


subsection \<open>Timers\<close>

definition stopFuturePreprepareTimer :: "core \<Rightarrow> core" where
  "stopFuturePreprepareTimer c = c\<lparr>futurePreprepareTimer := None\<rparr>"

definition stopTimer :: "core \<Rightarrow> core" where
  "stopTimer c = (stopFuturePreprepareTimer c)\<lparr>roundChangeTimer := None\<rparr>"

text \<open>\<open>time.Duration(math.Pow(2, float64(round)))\<close>: exact while the power fits an \<open>int64\<close>.\<close>

definition pow2_Duration :: "uint64 \<Rightarrow> uint64 \<Rightarrow> uint64" where
  "pow2_Duration overflow rnd = (if rnd < 63 then 2 ^ unat rnd else overflow)"

definition round_timeout :: "uint64 \<Rightarrow> Config \<Rightarrow> uint64 \<Rightarrow> uint64" where
  "round_timeout overflow cfg rnd =
     (let timeout = RequestTimeout cfg * 1000000
      in if rnd > 0 then
           let timeout = timeout + pow2_Duration overflow rnd * 1000000000;
               thisTimeout = MaxTimeout cfg * 1000000000
           in if sint timeout > sint thisTimeout then thisTimeout else timeout
         else timeout)"

definition newRoundChangeTimer :: "backend \<Rightarrow> core \<Rightarrow> core option" where
  "newRoundChangeTimer b c = do {
     c \<leftarrow> Some (stopTimer c);
     rs \<leftarrow> current c;
     Some (c\<lparr>roundChangeTimer :=
       Some (sint (round_timeout (b_f2i_overflow b) (config c) (big_Uint64 (rs_round rs))))\<rparr>) }"


subsection \<open>Sending\<close>

definition signMessage :: "backend \<Rightarrow> message \<Rightarrow> error + bytes" where
  "signMessage b m =
     (case PayloadNoSig m of None \<Rightarrow> Inl ErrRlp
      | Some data \<Rightarrow>
          (case b_Sign b data of Inl err \<Rightarrow> Inl err
           | Inr sig \<Rightarrow>
               (case Payload (m\<lparr>Signature := sig\<rparr>) of None \<Rightarrow> Inl ErrRlp
                | Some payload \<Rightarrow> Inr payload)))"

definition finalizeMessage :: "backend \<Rightarrow> message \<Rightarrow> core \<Rightarrow> (error + bytes) option" where
  "finalizeMessage b m c = do {
     seal \<leftarrow> (if Code m = msgCommit then do {
                rs \<leftarrow> current c;
                Some (case rs_BlockProposal rs of None \<Rightarrow> Inr []
                      | Some p \<Rightarrow> b_Sign b (PrepareCommittedSeal (Hash p))) }
              else Some (Inr []));
     Some (case seal of Inl err \<Rightarrow> Inl err
       | Inr seal \<Rightarrow> signMessage b (m\<lparr>Address := core_address c, CommittedSeal := seal\<rparr>)) }"

definition broadcast :: "backend \<Rightarrow> message \<Rightarrow> core \<Rightarrow> core option" where
  "broadcast b m c = do {
     r \<leftarrow> finalizeMessage b m c;
     (case r of Inl _ \<Rightarrow> Some c
      | Inr payload \<Rightarrow> do {
          vs \<leftarrow> core_fullnodeSet c;
          Some (emit (EBroadcast vs payload) c) }) }"

definition new_message :: "uint64 \<Rightarrow> bytes \<Rightarrow> message" where
  "new_message code body = \<lparr>Code = code, Msg = body, Address = 0, Signature = [], CommittedSeal = []\<rparr>"

definition sendPreprepare :: "backend \<Rightarrow> request \<Rightarrow> core \<Rightarrow> core option" where
  "sendPreprepare b r c = do {
     rs \<leftarrow> current c;
     p \<leftarrow> r;
     if Cmp (rs_sequence rs) (Number p) = 0 \<and> core_IsSpeaker b c then do {
       curView \<leftarrow> currentView c;
       (case EncodeToBytes (preprepare_item (b_codec b)) \<lparr>pp_View = curView, pp_Proposal = p\<rparr> of
          None \<Rightarrow> Some c
        | Some body \<Rightarrow> broadcast b (new_message msgPreprepare body) c) }
     else Some c }"

definition sendPrepare :: "backend \<Rightarrow> core \<Rightarrow> core option" where
  "sendPrepare b c = do {
     rs \<leftarrow> current c;
     sub \<leftarrow> Subject rs;
     (case EncodeToBytes subject_item sub of
        None \<Rightarrow> Some c
      | Some body \<Rightarrow> broadcast b (new_message msgPrepare body) c) }"

definition broadcastCommit :: "backend \<Rightarrow> subject \<Rightarrow> core \<Rightarrow> core option" where
  "broadcastCommit b sub c =
     (case EncodeToBytes subject_item sub of
        None \<Rightarrow> Some c
      | Some body \<Rightarrow> broadcast b (new_message msgCommit body) c)"

definition sendCommit :: "backend \<Rightarrow> core \<Rightarrow> core option" where
  "sendCommit b c = do {
     rs \<leftarrow> current c;
     sub \<leftarrow> Subject rs;
     broadcastCommit b sub c }"

definition sendCommitForOldBlock :: "backend \<Rightarrow> view \<Rightarrow> hash \<Rightarrow> core \<Rightarrow> core option" where
  "sendCommitForOldBlock b v digest c = broadcastCommit b \<lparr>subj_View = v, Digest = digest\<rparr> c"


subsection \<open>Rounds\<close>

definition updateRoundState :: "backend \<Rightarrow> view \<Rightarrow> fullnodeSet \<Rightarrow> bool \<Rightarrow> core \<Rightarrow> core" where
  "updateRoundState b v vs roundChange c =
     (case current c of
        Some rs \<Rightarrow>
          if roundChange then
            if IsHashLocked (b_HasBadBlockProposal b) rs then
              c\<lparr>current := Some (newRoundState v vs (GetLockedHash rs) (Preprepare rs) (pendingRequest rs))\<rparr>
            else c\<lparr>current := Some (newRoundState v vs 0 None (pendingRequest rs))\<rparr>
          else c\<lparr>current := Some (newRoundState v vs 0 None None)\<rparr>
      | None \<Rightarrow> c\<lparr>current := Some (newRoundState v vs 0 None None)\<rparr>)"

definition catchUpRound :: "backend \<Rightarrow> view \<Rightarrow> core \<Rightarrow> core option" where
  "catchUpRound b v c = do {
     _ \<leftarrow> current c;
     vs \<leftarrow> core_fullnodeSet c;
     c \<leftarrow> Some (c\<lparr>waitingForRoundChange := True\<rparr>);
     c \<leftarrow> Some (updateRoundState b v vs True c);
     rcs \<leftarrow> core_roundChangeSet c;
     c \<leftarrow> Some (c\<lparr>core_roundChangeSet := Some (rcs_Clear (Round v) rcs)\<rparr>);
     newRoundChangeTimer b c }"

definition sendRoundChange :: "backend \<Rightarrow> int \<Rightarrow> core \<Rightarrow> core option" where
  "sendRoundChange b rnd c = do {
     cv \<leftarrow> currentView c;
     if Cmp (Round cv) rnd \<ge> 0 then Some c
     else do {
       c \<leftarrow> catchUpRound b \<lparr>Round = rnd, Sequence = Sequence cv\<rparr> c;
       cv \<leftarrow> currentView c;
       (case EncodeToBytes subject_item \<lparr>subj_View = cv, Digest = 0\<rparr> of
          None \<Rightarrow> Some c
        | Some payload \<Rightarrow> broadcast b (new_message msgRoundChange payload) c) } }"

definition sendNextRoundChange :: "backend \<Rightarrow> core \<Rightarrow> core option" where
  "sendNextRoundChange b c = do {
     cv \<leftarrow> currentView c;
     sendRoundChange b (Round cv + 1) c }"

text \<open>
  \<open>startNewRound\<close> first decides between a new sequence, a round change and returning at once;
  \<open>NoRound\<close> is the early return. \<open>enterRound\<close> is the part after the choice of the new view.
\<close>

datatype roundChoice = NoRound | NewSequence | RoundChange

definition chooseRound :: "proposal option \<Rightarrow> int \<Rightarrow> core \<Rightarrow> roundChoice option" where
  "chooseRound lastBlockProposal rnd c =
     (case current c of
        None \<Rightarrow> Some NewSequence
      | Some rs \<Rightarrow> do {
          p \<leftarrow> lastBlockProposal;
          Some (if Cmp (Number p) (rs_sequence rs) \<ge> 0 then NewSequence
                else if Cmp (Number p) (sint (big_Int64 (rs_sequence rs) - 1)) = 0 then
                  (if Cmp rnd 0 = 0 then NoRound
                   else if Cmp rnd (rs_round rs) < 0 then NoRound
                   else RoundChange)
                else NoRound) })"

definition enterRound :: "backend \<Rightarrow> view \<Rightarrow> address \<Rightarrow> bool \<Rightarrow> core \<Rightarrow> core option" where
  "enterRound b newView lastSpeaker roundChange c = do {
     vs \<leftarrow> core_fullnodeSet c;
     c \<leftarrow> Some (c\<lparr>core_roundChangeSet := Some (newRoundChangeSet vs)\<rparr>);
     c \<leftarrow> Some (updateRoundState b newView vs roundChange c);
     c \<leftarrow> Some (c\<lparr>core_fullnodeSet := Some (CalcSpeaker lastSpeaker (big_Uint64 (Round newView)) vs),
                 waitingForRoundChange := False\<rparr>);
     c \<leftarrow> setState b StateAcceptRequest c;
     c \<leftarrow> (case current c of
            Some rs \<Rightarrow>
              if roundChange \<and> core_IsSpeaker b c then
                if IsHashLocked (b_HasBadBlockProposal b) rs then do {
                  p \<leftarrow> rs_BlockProposal rs;
                  sendPreprepare b (Some p) c }
                else (case pendingRequest rs of
                        Some r \<Rightarrow> do { p \<leftarrow> r; sendPreprepare b (Some p) c }
                      | None \<Rightarrow> Some c)
              else Some c
          | None \<Rightarrow> Some c);
     newRoundChangeTimer b c }"

definition startNewRound :: "backend \<Rightarrow> int \<Rightarrow> core \<Rightarrow> core option" where
  "startNewRound b rnd c =
     (let (lastBlockProposal, lastSpeaker) = b_LastBlockProposal b
      in do {
        ch \<leftarrow> chooseRound lastBlockProposal rnd c;
        (case ch of
           NoRound \<Rightarrow> Some c
         | RoundChange \<Rightarrow> do {
             rs \<leftarrow> current c;
             enterRound b \<lparr>Round = rnd, Sequence = rs_sequence rs\<rparr> lastSpeaker True c }
         | NewSequence \<Rightarrow> do {
             p \<leftarrow> lastBlockProposal;
             enterRound b \<lparr>Round = 0, Sequence = Number p + 1\<rparr> lastSpeaker False
               (c\<lparr>core_fullnodeSet := Some (b_Fullnodes b p)\<rparr>) }) })"

definition copySeal :: "bytes \<Rightarrow> bytes" where
  "copySeal seal = take SportExtraSeal (seal @ replicate SportExtraSeal 0)"

definition commit :: "backend \<Rightarrow> core \<Rightarrow> core option" where
  "commit b c = do {
     c \<leftarrow> setState b StateCommitted c;
     rs \<leftarrow> current c;
     (case rs_BlockProposal rs of None \<Rightarrow> Some c
      | Some p \<Rightarrow>
          let committedSeals = map (\<lambda>m. copySeal (CommittedSeal m)) (ms_Values (Commits rs));
              c = emit (ECommit p committedSeals) c
          in case b_Commit b p committedSeals of None \<Rightarrow> Some c
             | Some err \<Rightarrow> sendNextRoundChange b (c\<lparr>current := Some (UnlockHash rs)\<rparr>)) }"


subsection \<open>Handlers\<close>

type_synonym result = "(error option \<times> core) option"

definition handleRequest :: "backend \<Rightarrow> request \<Rightarrow> core \<Rightarrow> result" where
  "handleRequest b r c = do {
     rs \<leftarrow> current c;
     err \<leftarrow> checkRequestMsg r c;
     (case err of Some e \<Rightarrow> Some (Some e, c)
      | None \<Rightarrow> do {
          c \<leftarrow> Some (c\<lparr>current := Some (rs\<lparr>pendingRequest := Some r\<rparr>)\<rparr>);
          c \<leftarrow> (if core_state c = StateAcceptRequest then sendPreprepare b r c else Some c);
          Some (None, c) }) }"

definition acceptPreprepare :: "preprepare \<Rightarrow> core \<Rightarrow> core option" where
  "acceptPreprepare pp c = do {
     rs \<leftarrow> current c;
     Some (c\<lparr>current := Some (SetPreprepare pp rs)\<rparr>) }"

text \<open>What follows a successful \<open>Verify\<close> in \<open>handlePreprepare\<close>.\<close>

definition preprepareVerified :: "backend \<Rightarrow> preprepare \<Rightarrow> core \<Rightarrow> core option" where
  "preprepareVerified b pp c =
     (if core_state c = StateAcceptRequest then do {
        rs \<leftarrow> current c;
        if IsHashLocked (b_HasBadBlockProposal b) rs then
          if Hash (pp_Proposal pp) = GetLockedHash rs then do {
            c \<leftarrow> acceptPreprepare pp c;
            c \<leftarrow> setState b StatePrepared c;
            sendCommit b c }
          else sendNextRoundChange b c
        else do {
          c \<leftarrow> acceptPreprepare pp c;
          c \<leftarrow> setState b StatePreprepared c;
          sendPrepare b c } }
      else Some c)"

definition handlePreprepare :: "backend \<Rightarrow> message \<Rightarrow> address \<Rightarrow> core \<Rightarrow> result" where
  "handlePreprepare b m src c =
     (case DecodeBytes (item_preprepare (b_codec b)) (Msg m) of
        None \<Rightarrow> Some (Some errFailedDecodePreprepare, c)
      | Some pp \<Rightarrow> do {
          err \<leftarrow> checkMessage msgPreprepare (pp_View pp) c;
          (case err of
             Some e \<Rightarrow>
               if e = errOldMessage then
                 let p = pp_Proposal pp;
                     vs = Copy (b_crypto b) (b_ParentFullnodes b p);
                     previousSpeaker = b_GetSpeaker b (big_Uint64 (Number p) - 1);
                     vs = CalcSpeaker previousSpeaker (big_Uint64 (Round (pp_View pp))) vs
                 in if IsSpeaker src vs \<and> b_HasBlockProposal b (Hash p) (Number p) then do {
                      c \<leftarrow> sendCommitForOldBlock b (pp_View pp) (Hash p) c;
                      Some (None, c) }
                    else Some (Some e, c)
               else Some (Some e, c)
           | None \<Rightarrow> do {
               vs \<leftarrow> core_fullnodeSet c;
               if \<not> IsSpeaker src vs then Some (Some errNotFromSpeaker, c)
               else (case b_Verify b (pp_Proposal pp) of
                 (duration, Some e) \<Rightarrow>
                   if e = ErrFutureBlock then
                     Some (Some e, (stopFuturePreprepareTimer c)
                       \<lparr>futurePreprepareTimer := Some (duration, backlogEvent src m)\<rparr>)
                   else do {
                     c \<leftarrow> sendNextRoundChange b c;
                     Some (Some e, c) }
               | (_, None) \<Rightarrow> do {
                   c \<leftarrow> preprepareVerified b pp c;
                   Some (None, c) }) }) })"

definition verifyPrepare :: "subject \<Rightarrow> roundState \<Rightarrow> error option" where
  "verifyPrepare prepare rs = (if Some prepare \<noteq> Subject rs then Some errInconsistentSubject else None)"

definition acceptPrepare :: "message \<Rightarrow> core \<Rightarrow> core option" where
  "acceptPrepare m c = do {
     rs \<leftarrow> current c;
     Some (c\<lparr>current := Some (rs\<lparr>Prepares := snd (ms_Add m (Prepares rs))\<rparr>)\<rparr>) }"

definition handlePrepare :: "backend \<Rightarrow> message \<Rightarrow> address \<Rightarrow> core \<Rightarrow> result" where
  "handlePrepare b m src c =
     (case DecodeBytes item_subject (Msg m) of
        None \<Rightarrow> Some (Some errFailedDecodePrepare, c)
      | Some prepare \<Rightarrow> do {
          err \<leftarrow> checkMessage msgPrepare (subj_View prepare) c;
          (case err of Some e \<Rightarrow> Some (Some e, c)
           | None \<Rightarrow> do {
               rs \<leftarrow> current c;
               (case verifyPrepare prepare rs of Some e \<Rightarrow> Some (Some e, c)
                | None \<Rightarrow> do {
                    c \<leftarrow> acceptPrepare m c;
                    rs \<leftarrow> current c;
                    vs \<leftarrow> core_fullnodeSet c;
                    if ((IsHashLocked (b_HasBadBlockProposal b) rs \<and> Digest prepare = GetLockedHash rs)
                        \<or> GetPrepareOrCommitSize rs \<ge> int (MinApprovers vs))
                       \<and> state_Cmp (core_state c) StatePrepared < 0
                    then do {
                      c \<leftarrow> Some (c\<lparr>current := Some (LockHash rs)\<rparr>);
                      c \<leftarrow> setState b StatePrepared c;
                      c \<leftarrow> sendCommit b c;
                      Some (None, c) }
                    else Some (None, c) }) }) })"

definition verifyCommit :: "subject \<Rightarrow> roundState \<Rightarrow> error option" where
  "verifyCommit com rs = (if Some com \<noteq> Subject rs then Some errInconsistentSubject else None)"

definition acceptCommit :: "message \<Rightarrow> core \<Rightarrow> core option" where
  "acceptCommit m c = do {
     rs \<leftarrow> current c;
     Some (c\<lparr>current := Some (rs\<lparr>Commits := snd (ms_Add m (Commits rs))\<rparr>)\<rparr>) }"

definition handleCommit :: "backend \<Rightarrow> message \<Rightarrow> address \<Rightarrow> core \<Rightarrow> result" where
  "handleCommit b m src c =
     (case DecodeBytes item_subject (Msg m) of
        None \<Rightarrow> Some (Some errFailedDecodeCommit, c)
      | Some com \<Rightarrow> do {
          err \<leftarrow> checkMessage msgCommit (subj_View com) c;
          (case err of Some e \<Rightarrow> Some (Some e, c)
           | None \<Rightarrow> do {
               rs \<leftarrow> current c;
               (case verifyCommit com rs of Some e \<Rightarrow> Some (Some e, c)
                | None \<Rightarrow> do {
                    c \<leftarrow> acceptCommit m c;
                    rs \<leftarrow> current c;
                    vs \<leftarrow> core_fullnodeSet c;
                    if ms_Size (Commits rs) \<ge> MinApprovers vs
                       \<and> state_Cmp (core_state c) StateCommitted < 0
                    then do {
                      c \<leftarrow> commit b (c\<lparr>current := Some (LockHash rs)\<rparr>);
                      Some (None, c) }
                    else Some (None, c) }) }) })"

definition handleFinalCommitted :: "backend \<Rightarrow> core \<Rightarrow> core option" where
  "handleFinalCommitted b c = startNewRound b 0 c"

definition handleRoundChange :: "backend \<Rightarrow> message \<Rightarrow> address \<Rightarrow> core \<Rightarrow> result" where
  "handleRoundChange b m src c =
     (case DecodeBytes item_subject (Msg m) of
        None \<Rightarrow> Some (Some errInvalidMessage, c)
      | Some rc \<Rightarrow> do {
          err \<leftarrow> checkMessage msgRoundChange (subj_View rc) c;
          (case err of Some e \<Rightarrow> Some (Some e, c)
           | None \<Rightarrow> do {
               cv \<leftarrow> currentView c;
               roundView \<leftarrow> Some (subj_View rc);
               rcs \<leftarrow> core_roundChangeSet c;
               (case rcs_Add (Round roundView) m rcs of
                  (Inl e, rcs) \<Rightarrow> Some (Some e, c\<lparr>core_roundChangeSet := Some rcs\<rparr>)
                | (Inr messageCount, rcs) \<Rightarrow> do {
                    c \<leftarrow> Some (c\<lparr>core_roundChangeSet := Some rcs\<rparr>);
                    vs \<leftarrow> core_fullnodeSet c;
                    if waitingForRoundChange c \<and> messageCount = MaxFaulty vs + E vs then
                      if Cmp (Round cv) (Round roundView) < 0 then do {
                        c \<leftarrow> sendRoundChange b (Round roundView) c;
                        Some (None, c) }
                      else Some (None, c)
                    else if messageCount = MinApprovers vs
                            \<and> (waitingForRoundChange c \<or> Cmp (Round cv) (Round roundView) < 0) then do {
                      c \<leftarrow> startNewRound b (Round roundView) c;
                      Some (None, c) }
                    else if Cmp (Round cv) (Round roundView) < 0 then Some (Some errIgnored, c)
                    else Some (None, c) }) }) })"

definition testBacklog :: "backend \<Rightarrow> message \<Rightarrow> address \<Rightarrow> error option \<times> core \<Rightarrow> error option \<times> core" where
  "testBacklog b m src r =
     (case r of (err, c) \<Rightarrow>
        if err = Some errFutureMessage then (err, storeBacklog b m src c) else (err, c))"

definition handleCheckedMsg :: "backend \<Rightarrow> message \<Rightarrow> address \<Rightarrow> core \<Rightarrow> result" where
  "handleCheckedMsg b m src c =
     (if Code m = msgPreprepare then map_option (testBacklog b m src) (handlePreprepare b m src c)
      else if Code m = msgPrepare then map_option (testBacklog b m src) (handlePrepare b m src c)
      else if Code m = msgCommit then map_option (testBacklog b m src) (handleCommit b m src c)
      else if Code m = msgRoundChange then map_option (testBacklog b m src) (handleRoundChange b m src c)
      else Some (Some errInvalidMessage, c))"

definition handleMsg :: "backend \<Rightarrow> bytes \<Rightarrow> core \<Rightarrow> result" where
  "handleMsg b payload c = do {
     vs \<leftarrow> core_fullnodeSet c;
     (case FromPayload payload (Some (CheckFullnodeSignature (b_crypto b) vs)) of
        Inl e \<Rightarrow> Some (Some e, c)
      | Inr m \<Rightarrow>
          (case GetByAddress (Address m) vs of
             None \<Rightarrow> Some (Some ErrUnauthorizedAddress, c)
           | Some (_, src) \<Rightarrow> handleCheckedMsg b m src c)) }"

definition handleTimeoutMsg :: "backend \<Rightarrow> core \<Rightarrow> core option" where
  "handleTimeoutMsg b c = do {
     maxRound \<leftarrow> (if waitingForRoundChange c then Some None
                  else do {
                    vs \<leftarrow> core_fullnodeSet c;
                    rcs \<leftarrow> core_roundChangeSet c;
                    (case MaxRound (MaxFaulty vs + E vs) rcs of
                       None \<Rightarrow> Some None
                     | Some r \<Rightarrow> do {
                         rs \<leftarrow> current c;
                         Some (if Cmp r (rs_round rs) > 0 then Some r else None) }) });
     (case maxRound of
        Some r \<Rightarrow> sendRoundChange b r c
      | None \<Rightarrow>
          (case fst (b_LastBlockProposal b) of
             None \<Rightarrow> sendNextRoundChange b c
           | Some p \<Rightarrow> do {
               rs \<leftarrow> current c;
               if Cmp (Number p) (rs_sequence rs) \<ge> 0 then startNewRound b 0 c
               else sendNextRoundChange b c })) }"


subsection \<open>The engine\<close>

definition Start :: "backend \<Rightarrow> core \<Rightarrow> core option" where
  "Start b c = startNewRound b 0 c"

text \<open>\<open>Stop\<close> stops the timers and the subscriptions; the event loop then clears \<open>current\<close>.\<close>

definition Stop :: "core \<Rightarrow> core" where
  "Stop c = (stopTimer c)\<lparr>current := None\<rparr>"

definition handleEvent :: "backend \<Rightarrow> event \<Rightarrow> core \<Rightarrow> core option" where
  "handleEvent b ev c =
     (case ev of
        RequestEvent bp \<Rightarrow> do {
          p \<leftarrow> bp;
          (err, c) \<leftarrow> handleRequest b (Some p) c;
          Some (if err = Some errFutureMessage then storeRequestMsg p c else c) }
      | MessageEvent payload \<Rightarrow> do {
          (err, c) \<leftarrow> handleMsg b payload c;
          if err = None then do {
            vs \<leftarrow> core_fullnodeSet c;
            Some (emit (EGossip vs payload) c) }
          else Some c }
      | backlogEvent src m \<Rightarrow> do {
          (err, c) \<leftarrow> handleCheckedMsg b m src c;
          if err = None then
            (case Payload m of None \<Rightarrow> Some c
             | Some p \<Rightarrow> do {
                 vs \<leftarrow> core_fullnodeSet c;
                 Some (emit (EGossip vs p) c) })
          else Some c }
      | timeoutEvent \<Rightarrow> handleTimeoutMsg b c
      | FinalCommittedEvent \<Rightarrow> handleFinalCommitted b c)"

end
