(* ===== verification/Core_Frame.thy ===== *)
theory Core_Frame imports Bft_Core begin

text \<open>
  What each method of the core leaves unchanged, and that it does not panic. The methods that only
  send or reschedule work (\<open>setState\<close>, \<open>broadcast\<close>, the timers) are described once by what they
  append to the outbox; the invariant proofs use these descriptions and never unfold the methods
  again.
\<close>

lemmas bind_Some = Option.bind_eq_Some_conv

subsection \<open>Queues\<close>

definition queues_ok :: "core \<Rightarrow> bool" where
  "queues_ok c \<longleftrightarrow>
     prq_ok (pendingRequests c) \<and> None \<notin> fst ` set (pendingRequests c) \<and>
     distinct_keys (backlogs c) \<and> (\<forall>(a, q) \<in> set (backlogs c). prq_ok q)"

lemma prq_Pop_cases:
  assumes "prq_ok q" "\<not> prq_Empty q"
  obtains m pr q' where "prq_Pop q = ((m, pr), q')" "prq_ok q'" "mset q = add_mset (m, pr) (mset q')"
    "length q' < length q" "\<And>y. y \<in> set q \<Longrightarrow> snd y \<le> pr"
proof -
  obtain m pr q' where p: "prq_Pop q = ((m, pr), q')" by (metis surj_pair)
  have q: "mset q \<noteq> {#}" using assms by (simp add: prq_Empty_def)
  show ?thesis
  proof (rule that [OF p])
    show "prq_ok q'" using prq.invar_pop [OF assms(1) q] p by simp
    show "mset q = add_mset (m, pr) (mset q')" using prq.content_pop [OF assms(1) q] p by simp
    show "length q' < length q" using prq_Pop_less [OF assms(2) p [symmetric]] .
    show "snd y \<le> pr" if "y \<in> set q" for y using prq.pop_max [OF assms(1) q, of y] that p by simp
  qed
qed

lemma drain_total:
  "prq_ok q \<Longrightarrow> (\<And>m. m \<in> fst ` set q \<Longrightarrow> check m \<noteq> None) \<Longrightarrow> drain check q \<noteq> None"
proof (induction check q rule: drain.induct)
  case (1 check q)
  show ?case
  proof (cases "prq_Empty q")
    case True
    then show ?thesis by (subst drain.simps) simp
  next
    case False
    with "1.prems"(1) obtain m pr q' where p: "prq_Pop q = ((m, pr), q')" "prq_ok q'"
      "mset q = add_mset (m, pr) (mset q')" by (rule prq_Pop_cases)
    have "set_mset (mset q) = insert (m, pr) (set_mset (mset q'))" using p(3) by simp
    then have s: "set q = insert (m, pr) (set q')" by simp
    then have q': "check x \<noteq> None" if "x \<in> fst ` set q'" for x using "1.prems"(2) that by auto
    have m: "check m \<noteq> None" using "1.prems"(2) s by auto
    then obtain v where v: "check m = Some v" by auto
    have "v = Skip \<or> v = Post \<Longrightarrow> drain check q' \<noteq> None"
      using "1.IH"(1,2) [OF False p(1) [symmetric] refl v] p(2) q' by auto
    then show ?thesis
      using False p(1) v by (subst drain.simps) (cases v; auto)
  qed
qed

lemma drain_spec:
  "prq_ok q \<Longrightarrow> drain check q = Some (ps, q') \<Longrightarrow>
     prq_ok q' \<and> set q' \<subseteq> set q \<and> set ps \<subseteq> fst ` set q"
proof (induction check q arbitrary: ps rule: drain.induct)
  case (1 check q)
  show ?case
  proof (cases "prq_Empty q")
    case True
    with 1 show ?thesis by (simp add: drain.simps)
  next
    case False
    with "1.prems"(1) obtain m pr r where p: "prq_Pop q = ((m, pr), r)" "prq_ok r"
      "mset q = add_mset (m, pr) (mset r)" by (rule prq_Pop_cases)
    have "set_mset (mset q) = insert (m, pr) (set_mset (mset r))" using p(3) by simp
    then have s: "set q = insert (m, pr) (set r)" by simp
    have d: "(case check m of None \<Rightarrow> None | Some Future \<Rightarrow> Some ([], prq_Push m pr r)
         | Some Skip \<Rightarrow> drain check r | Some Post \<Rightarrow> map_option (apfst ((#) m)) (drain check r)) = Some (ps, q')"
      using "1.prems"(2) False p(1) by (subst (asm) drain.simps) simp
    then obtain v where v: "check m = Some v" by (cases "check m") auto
    note IH = "1.IH" [OF False p(1) [symmetric] refl v _ p(2)]
    show ?thesis
    proof (cases v)
      case Future
      have "set (prq_Push m pr r) = insert (m, pr) (set r)"
        using mset_prq_Push [of m pr r] by (metis set_mset_add_mset_insert set_mset_mset)
      with d v Future p(2) s show ?thesis by (auto intro: prq_ok_Push)
    next
      case Skip
      with d v s IH(1) show ?thesis by auto
    next
      case Post
      with d v obtain ps' where "drain check r = Some (ps', q')" "ps = m # ps'" by auto
      with Post s IH(2) show ?thesis by auto
    qed
  qed
qed

lemma checkMessage_total: "current c \<noteq> None \<Longrightarrow> checkMessage code v c \<noteq> None"
  by (auto simp: checkMessage_def currentView_def)

lemma backlog_verdict_total: "current c \<noteq> None \<Longrightarrow> backlog_verdict b c m \<noteq> None"
  by (auto simp: backlog_verdict_def checkMessage_def currentView_def split: option.split)

lemma request_verdict_total: "current c \<noteq> None \<Longrightarrow> request_verdict c (Some p) \<noteq> None"
  by (auto simp: request_verdict_def checkRequestMsg_def Let_def)

lemma processBacklogs_total:
  assumes "current c \<noteq> None" "core_fullnodeSet c \<noteq> None"
  shows "\<forall>(a, q) \<in> set bl. prq_ok q \<Longrightarrow> \<exists>bs evs. processBacklogs b c bl = Some (bs, evs)"
proof (induction bl)
  case (Cons e bl)
  obtain a q where e: "e = (a, q)" by (cases e)
  with Cons have q: "prq_ok q" and IH: "\<exists>bs evs. processBacklogs b c bl = Some (bs, evs)" by auto
  have "drain (backlog_verdict b c) q \<noteq> None"
    using q backlog_verdict_total [OF assms(1)] by (intro drain_total) auto
  with IH assms(2) e show ?case by (auto split: option.split)
qed simp

lemma processBacklogs_queues:
  "processBacklogs b c bl = Some (bs, evs) \<Longrightarrow> \<forall>(a, q) \<in> set bl. prq_ok q \<Longrightarrow> distinct_keys bl \<Longrightarrow>
   fst ` set bs \<subseteq> fst ` set bl \<and> distinct_keys bs \<and> (\<forall>(a, q) \<in> set bs. prq_ok q)"
proof (induction bl arbitrary: bs evs)
  case (Cons e bl)
  obtain a q where e: "e = (a, q)" by (cases e)
  show ?case
  proof (cases "\<exists>vs. core_fullnodeSet c = Some vs \<and> a \<in> set (fullnodes vs)")
    case True
    then obtain vs i where vs: "core_fullnodeSet c = Some vs" "GetByAddress a vs = Some (i, a)"
      using GetByAddress_member by blast
    with Cons.prems(1) e obtain ps q' bs' evs' where
      d: "drain (backlog_verdict b c) q = Some (ps, q')" "processBacklogs b c bl = Some (bs', evs')"
         "bs = (a, q') # bs'"
      by (auto simp: bind_Some)
    have "prq_ok q'" using drain_spec [OF _ d(1)] Cons.prems(2) e by auto
    with d(3) Cons.IH [OF d(2)] Cons.prems(2,3) e show ?thesis
      by (auto simp: distinct_keys_def)
  next
    case False
    with Cons.prems(1) e obtain vs where "core_fullnodeSet c = Some vs" "a \<notin> set (fullnodes vs)"
      by (cases "core_fullnodeSet c") auto
    then have "processBacklogs b c bl = Some (bs, evs)" using Cons.prems(1) e by simp
    from Cons.IH [OF this] Cons.prems(2,3) e show ?thesis by (auto simp: distinct_keys_def)
  qed
qed simp

lemma processBacklog_total:
  "queues_ok c \<Longrightarrow> current c \<noteq> None \<Longrightarrow> core_fullnodeSet c \<noteq> None \<Longrightarrow> processBacklog b c \<noteq> None"
  using processBacklogs_total [of c "backlogs c" b] by (auto simp: queues_ok_def processBacklog_def)

lemma processPendingRequests_total:
  assumes "queues_ok c" "current c \<noteq> None"
  shows "processPendingRequests c \<noteq> None"
proof -
  have "drain (request_verdict c) (pendingRequests c) \<noteq> None"
  proof (rule drain_total)
    fix m assume "m \<in> fst ` set (pendingRequests c)"
    then obtain p where "m = Some p" using assms(1) by (cases m) (auto simp: queues_ok_def)
    then show "request_verdict c m \<noteq> None" using request_verdict_total [OF assms(2)] by simp
  qed (use assms in \<open>simp add: queues_ok_def\<close>)
  then show ?thesis by (auto simp: processPendingRequests_def)
qed

lemma processBacklog_frame:
  "processBacklog b c = Some c' \<Longrightarrow> \<exists>bl evs. c' = c\<lparr>backlogs := bl, outbox := outbox c @ map EPost evs\<rparr>"
  by (auto simp: processBacklog_def bind_Some)

lemma processPendingRequests_frame:
  "processPendingRequests c = Some c' \<Longrightarrow>
   \<exists>pq evs. c' = c\<lparr>pendingRequests := pq, outbox := outbox c @ map EPost evs\<rparr>"
  by (auto simp: processPendingRequests_def bind_Some simp del: map_map)

lemma processPendingRequests_queues:
  assumes "queues_ok c" "processPendingRequests c = Some c'"
  shows "queues_ok c'"
proof -
  obtain rs q where d: "drain (request_verdict c) (pendingRequests c) = Some (rs, q)"
    "c' = c\<lparr>pendingRequests := q, outbox := outbox c @ map EPost (map RequestEvent rs)\<rparr>"
    using assms(2) by (auto simp: processPendingRequests_def bind_Some)
  have "prq_ok q" "set q \<subseteq> set (pendingRequests c)"
    using drain_spec [OF _ d(1)] assms(1) by (auto simp: queues_ok_def)
  with assms(1) d(2) show ?thesis by (auto simp: queues_ok_def)
qed

lemma processBacklog_queues:
  assumes "queues_ok c" "processBacklog b c = Some c'"
  shows "queues_ok c'"
proof -
  obtain bs evs where d: "processBacklogs b c (backlogs c) = Some (bs, evs)"
    "c' = c\<lparr>backlogs := bs, outbox := outbox c @ map EPost evs\<rparr>"
    using assms(2) by (auto simp: processBacklog_def bind_Some)
  with assms(1) processBacklogs_queues [OF d(1)] show ?thesis by (auto simp: queues_ok_def)
qed

lemma setState_total:
  assumes "queues_ok c" "current c \<noteq> None" "core_fullnodeSet c \<noteq> None"
  shows "setState b st c \<noteq> None"
proof -
  let ?c = "if core_state c \<noteq> st then c\<lparr>core_state := st\<rparr> else c"
  have ok: "queues_ok ?c" "current ?c \<noteq> None" "core_fullnodeSet ?c \<noteq> None"
    using assms by (auto simp: queues_ok_def)
  have "\<exists>c1. (if st = StateAcceptRequest then processPendingRequests ?c else Some ?c) = Some c1 \<and>
      queues_ok c1 \<and> current c1 \<noteq> None \<and> core_fullnodeSet c1 \<noteq> None"
  proof (cases "st = StateAcceptRequest")
    case True
    obtain c1 where c1: "processPendingRequests ?c = Some c1"
      using processPendingRequests_total [OF ok(1,2)] by blast
    from processPendingRequests_queues [OF ok(1) c1] processPendingRequests_frame [OF c1] ok True c1
    show ?thesis by auto
  qed (use ok in auto)
  then show ?thesis using processBacklog_total by (fastforce simp: setState_def)
qed

lemma setState_frame:
  assumes "setState b st c = Some c'"
  shows "\<exists>pq bl evs. c' = c\<lparr>core_state := st, pendingRequests := pq, backlogs := bl,
                            outbox := outbox c @ map EPost evs\<rparr>"
proof -
  let ?c = "if core_state c \<noteq> st then c\<lparr>core_state := st\<rparr> else c"
  have eq: "?c = c\<lparr>core_state := st\<rparr>" by auto
  obtain c1 where c1: "(if st = StateAcceptRequest then processPendingRequests ?c else Some ?c) = Some c1"
    "processBacklog b c1 = Some c'"
    using assms unfolding setState_def by (auto simp: bind_Some split: if_splits)
  have "\<exists>pq evs. c1 = c\<lparr>core_state := st, pendingRequests := pq, outbox := outbox c @ map EPost evs\<rparr>"
  proof (cases "st = StateAcceptRequest")
    case True
    with c1(1) have "processPendingRequests (c\<lparr>core_state := st\<rparr>) = Some c1" unfolding eq by simp
    from processPendingRequests_frame [OF this] show ?thesis by simp
  next
    case False
    with c1(1) have "c1 = c\<lparr>core_state := st\<rparr>" unfolding eq by simp
    then show ?thesis by (intro exI [of _ "pendingRequests c"] exI [of _ "[]"]) simp
  qed
  with processBacklog_frame [OF c1(2)] show ?thesis
    by (auto simp flip: map_append) blast
qed

lemma setState_queues:
  assumes "queues_ok c" "setState b st c = Some c'"
  shows "queues_ok c'"
proof -
  let ?c = "if core_state c \<noteq> st then c\<lparr>core_state := st\<rparr> else c"
  obtain c1 where c1: "(if st = StateAcceptRequest then processPendingRequests ?c else Some ?c) = Some c1"
    "processBacklog b c1 = Some c'"
    using assms(2) unfolding setState_def by (auto simp: bind_Some split: if_splits)
  have "queues_ok ?c" using assms(1) by (auto simp: queues_ok_def)
  then have "queues_ok c1"
    using c1(1) processPendingRequests_queues by (auto split: if_splits)
  then show ?thesis using c1(2) by (rule processBacklog_queues)
qed


subsection \<open>What the outbox says\<close>

text \<open>
  The vote a broadcast casts: the subject of a COMMIT message. An effect is quiet when it neither
  casts such a vote nor delivers a block.
\<close>

definition commit_vote :: "effect \<Rightarrow> subject option" where
  "commit_vote e =
     (case e of
        EBroadcast vs payload \<Rightarrow>
          (case DecodeBytes item_message payload of
             Some m \<Rightarrow> if Code m = msgCommit then DecodeBytes item_subject (Msg m) else None
           | None \<Rightarrow> None)
      | _ \<Rightarrow> None)"

definition quiet :: "effect \<Rightarrow> bool" where
  "quiet e \<longleftrightarrow> commit_vote e = None \<and> (\<forall>p seals. e \<noteq> ECommit p seals)"

lemma quiet_EPost [simp]: "quiet (EPost ev)" and quiet_EGossip [simp]: "quiet (EGossip vs p)"
  by (simp_all add: quiet_def commit_vote_def)

lemma quiet_posts [simp]: "e \<in> set (map EPost evs) \<Longrightarrow> quiet e"
  by auto

lemma quiet_not_commit: "quiet e \<Longrightarrow> e \<noteq> ECommit p seals" and quiet_vote: "quiet e \<Longrightarrow> commit_vote e = None"
  by (simp_all add: quiet_def)

lemma finalizeMessage_decodes:
  assumes "finalizeMessage b m c = Some (Inr payload)"
  shows "\<exists>m'. DecodeBytes item_message payload = Some m' \<and> Code m' = Code m \<and> Msg m' = Msg m"
proof -
  obtain sl where "(case sl of Inl err \<Rightarrow> Inl err
     | Inr seal \<Rightarrow> signMessage b (m\<lparr>Address := core_address c, CommittedSeal := seal\<rparr>)) = Inr payload"
    using assms unfolding finalizeMessage_def bind_Some by blast
  then obtain seal where "signMessage b (m\<lparr>Address := core_address c, CommittedSeal := seal\<rparr>) = Inr payload"
    by (cases sl) auto
  then obtain sig where
    "Payload (m\<lparr>Address := core_address c, CommittedSeal := seal, Signature := sig\<rparr>) = Some payload"
    by (auto simp: signMessage_def split: sum.splits option.splits)
  then have "DecodeBytes item_message payload =
      Some (m\<lparr>Address := core_address c, CommittedSeal := seal, Signature := sig\<rparr>)"
    unfolding Payload_def by (rule message_codec.bytes.dec_enc)
  then show ?thesis by simp
qed

lemma broadcast_frame:
  assumes "broadcast b m c = Some c'"
  shows "\<exists>es. c' = c\<lparr>outbox := outbox c @ es\<rparr> \<and> length es \<le> 1 \<and>
     (\<forall>e \<in> set es. (\<forall>p s. e \<noteq> ECommit p s) \<and>
        commit_vote e = (if Code m = msgCommit then DecodeBytes item_subject (Msg m) else None))"
proof -
  obtain r where r: "finalizeMessage b m c = Some r"
    "(case r of Inl _ \<Rightarrow> Some c
      | Inr payload \<Rightarrow> do { vs \<leftarrow> core_fullnodeSet c; Some (emit (EBroadcast vs payload) c) }) = Some c'"
    using assms by (auto simp: broadcast_def bind_Some)
  show ?thesis
  proof (cases r)
    case (Inl e)
    with r show ?thesis by (auto intro: exI [of _ "[]"])
  next
    case (Inr payload)
    with r finalizeMessage_decodes obtain vs m' where
      "c' = emit (EBroadcast vs payload) c" "DecodeBytes item_message payload = Some m'"
      "Code m' = Code m" "Msg m' = Msg m" by (fastforce simp: bind_Some)
    then show ?thesis
      by (intro exI [of _ "[EBroadcast vs payload]"]) (simp add: emit_def commit_vote_def)
  qed
qed

lemma broadcast_total: "current c \<noteq> None \<Longrightarrow> core_fullnodeSet c \<noteq> None \<Longrightarrow> broadcast b m c \<noteq> None"
  by (auto simp: broadcast_def finalizeMessage_def split: sum.split option.split)

lemma broadcast_quiet:
  assumes "broadcast b (new_message code body) c = Some c'" "code \<noteq> msgCommit"
  shows "\<exists>es. c' = c\<lparr>outbox := outbox c @ es\<rparr> \<and> (\<forall>e \<in> set es. quiet e)"
  using broadcast_frame [OF assms(1)] assms(2) by (auto simp: quiet_def new_message_def)

lemma same_outbox: "\<exists>es. c = c\<lparr>outbox := outbox c @ es\<rparr> \<and> (\<forall>e \<in> set es. P e)"
  by (intro exI [of _ "[]"]) simp

lemma sendPreprepare_frame:
  "sendPreprepare b r c = Some c' \<Longrightarrow> \<exists>es. c' = c\<lparr>outbox := outbox c @ es\<rparr> \<and> (\<forall>e \<in> set es. quiet e)"
  by (auto simp: sendPreprepare_def bind_Some msg_codes same_outbox
      dest!: broadcast_quiet split: if_splits option.splits)

lemma sendPreprepare_total:
  "current c \<noteq> None \<Longrightarrow> core_fullnodeSet c \<noteq> None \<Longrightarrow> sendPreprepare b (Some p) c \<noteq> None"
  using broadcast_total by (auto simp: sendPreprepare_def currentView_def split: option.split)

lemma sendPrepare_frame:
  "sendPrepare b c = Some c' \<Longrightarrow> \<exists>es. c' = c\<lparr>outbox := outbox c @ es\<rparr> \<and> (\<forall>e \<in> set es. quiet e)"
  by (auto simp: sendPrepare_def bind_Some msg_codes same_outbox
      dest!: broadcast_quiet split: if_splits option.splits)

lemma sendPrepare_total:
  "current c = Some rs \<Longrightarrow> Preprepare rs \<noteq> None \<Longrightarrow> core_fullnodeSet c \<noteq> None \<Longrightarrow> sendPrepare b c \<noteq> None"
  using broadcast_total [of c] by (auto simp: sendPrepare_def Subject_def split: option.split)

lemma broadcastCommit_frame:
  assumes "broadcastCommit b sub c = Some c'"
  shows "\<exists>es. c' = c\<lparr>outbox := outbox c @ es\<rparr> \<and> length es \<le> 1 \<and>
     (\<forall>e \<in> set es. commit_vote e = Some sub \<and> (\<forall>p s. e \<noteq> ECommit p s))"
proof (cases "EncodeToBytes subject_item sub")
  case None
  with assms show ?thesis by (intro exI [of _ "[]"]) (simp add: broadcastCommit_def)
next
  case (Some body)
  with assms have bc: "broadcast b (new_message msgCommit body) c = Some c'" by (simp add: broadcastCommit_def)
  have "DecodeBytes item_subject body = Some sub" using Some by (rule subject_codec.bytes.dec_enc)
  with broadcast_frame [OF bc] show ?thesis by (auto simp: new_message_def)
qed

lemma broadcastCommit_total:
  "current c \<noteq> None \<Longrightarrow> core_fullnodeSet c \<noteq> None \<Longrightarrow> broadcastCommit b sub c \<noteq> None"
  using broadcast_total by (auto simp: broadcastCommit_def split: option.split)

lemma sendCommit_frame:
  assumes "sendCommit b c = Some c'" "current c = Some rs"
  shows "\<exists>es sub. Subject rs = Some sub \<and> c' = c\<lparr>outbox := outbox c @ es\<rparr> \<and> length es \<le> 1 \<and>
     (\<forall>e \<in> set es. commit_vote e = Some sub \<and> (\<forall>p s. e \<noteq> ECommit p s))"
  using assms broadcastCommit_frame by (fastforce simp: sendCommit_def bind_Some)

lemma sendCommit_total:
  "current c = Some rs \<Longrightarrow> Preprepare rs \<noteq> None \<Longrightarrow> core_fullnodeSet c \<noteq> None \<Longrightarrow> sendCommit b c \<noteq> None"
  using broadcastCommit_total [of c] by (auto simp: sendCommit_def Subject_def)


subsection \<open>Changing rounds\<close>

definition nextRoundState :: "backend \<Rightarrow> view \<Rightarrow> fullnodeSet \<Rightarrow> roundState \<Rightarrow> roundState" where
  "nextRoundState b v vs rs =
     (if IsHashLocked (b_HasBadBlockProposal b) rs
      then newRoundState v vs (lockedHash rs) (Preprepare rs) (pendingRequest rs)
      else newRoundState v vs 0 None (pendingRequest rs))"

lemma nextRoundState_simps [simp]:
  "rs_round (nextRoundState b v vs rs) = Round v" "rs_sequence (nextRoundState b v vs rs) = Sequence v"
  "Prepares (nextRoundState b v vs rs) = newMessageSet vs" "Commits (nextRoundState b v vs rs) = newMessageSet vs"
  "pendingRequest (nextRoundState b v vs rs) = pendingRequest rs"
  by (simp_all add: nextRoundState_def)

lemma updateRoundState_current:
  "updateRoundState b v vs rc c =
     c\<lparr>current := Some (case current c of
         Some rs \<Rightarrow> if rc then nextRoundState b v vs rs else newRoundState v vs 0 None None
       | None \<Rightarrow> newRoundState v vs 0 None None)\<rparr>"
  by (simp add: updateRoundState_def nextRoundState_def GetLockedHash_def split: option.split)

lemma newRoundChangeTimer_frame:
  "newRoundChangeTimer b c = Some c' \<Longrightarrow>
   \<exists>t. c' = c\<lparr>futurePreprepareTimer := None, roundChangeTimer := Some t\<rparr>"
  by (auto simp: newRoundChangeTimer_def bind_Some stopTimer_def stopFuturePreprepareTimer_def)

lemma newRoundChangeTimer_total: "current c \<noteq> None \<Longrightarrow> newRoundChangeTimer b c \<noteq> None"
  by (auto simp: newRoundChangeTimer_def stopTimer_def stopFuturePreprepareTimer_def)

lemma catchUpRound_frame:
  assumes "catchUpRound b v c = Some c'"
  shows "\<exists>rs vs rcs t. current c = Some rs \<and> core_fullnodeSet c = Some vs \<and> core_roundChangeSet c = Some rcs \<and>
     c' = c\<lparr>waitingForRoundChange := True, current := Some (nextRoundState b v vs rs),
            core_roundChangeSet := Some (rcs_Clear (Round v) rcs),
            futurePreprepareTimer := None, roundChangeTimer := Some t\<rparr>"
  using assms
  by (auto simp: catchUpRound_def bind_Some updateRoundState_current dest!: newRoundChangeTimer_frame)

lemma catchUpRound_total:
  "current c \<noteq> None \<Longrightarrow> core_fullnodeSet c \<noteq> None \<Longrightarrow> core_roundChangeSet c \<noteq> None \<Longrightarrow> catchUpRound b v c \<noteq> None"
  using newRoundChangeTimer_total by (auto simp: catchUpRound_def updateRoundState_current)

lemma sendRoundChange_same: "current c = Some rs \<Longrightarrow> rnd \<le> rs_round rs \<Longrightarrow> sendRoundChange b rnd c = Some c"
  by (simp add: sendRoundChange_def currentView_def)

lemma sendRoundChange_frame:
  assumes "sendRoundChange b rnd c = Some c'" "current c = Some rs" "rs_round rs < rnd"
  shows "\<exists>vs rcs t es. core_fullnodeSet c = Some vs \<and> core_roundChangeSet c = Some rcs \<and>
     c' = c\<lparr>waitingForRoundChange := True,
            current := Some (nextRoundState b \<lparr>Round = rnd, Sequence = rs_sequence rs\<rparr> vs rs),
            core_roundChangeSet := Some (rcs_Clear rnd rcs),
            futurePreprepareTimer := None, roundChangeTimer := Some t, outbox := outbox c @ es\<rparr> \<and>
     (\<forall>e \<in> set es. quiet e)"
proof -
  obtain c1 where c1: "catchUpRound b \<lparr>Round = rnd, Sequence = rs_sequence rs\<rparr> c = Some c1"
    and cv: "(do { cv \<leftarrow> currentView c1;
       (case EncodeToBytes subject_item \<lparr>subj_View = cv, Digest = 0\<rparr> of None \<Rightarrow> Some c1
        | Some payload \<Rightarrow> broadcast b (new_message msgRoundChange payload) c1) }) = Some c'"
    using assms by (auto simp: sendRoundChange_def currentView_def bind_Some)
  from cv have "\<exists>es. c' = c1\<lparr>outbox := outbox c1 @ es\<rparr> \<and> (\<forall>e \<in> set es. quiet e)"
    by (auto simp: bind_Some msg_codes same_outbox dest!: broadcast_quiet split: option.splits)
  with catchUpRound_frame [OF c1] assms(2) show ?thesis by auto blast
qed

lemma sendRoundChange_total:
  assumes "current c \<noteq> None" "core_fullnodeSet c \<noteq> None" "core_roundChangeSet c \<noteq> None"
  shows "sendRoundChange b rnd c \<noteq> None"
proof -
  obtain rs where rs: "current c = Some rs" using assms(1) by auto
  obtain c1 where c1: "catchUpRound b \<lparr>Round = rnd, Sequence = rs_sequence rs\<rparr> c = Some c1"
    using catchUpRound_total [OF assms] by blast
  from catchUpRound_frame [OF c1] have "current c1 \<noteq> None" "core_fullnodeSet c1 \<noteq> None" by auto
  with c1 rs broadcast_total [of c1] show ?thesis
    by (auto simp: sendRoundChange_def currentView_def split: option.split)
qed

lemma sendNextRoundChange_frame:
  assumes "sendNextRoundChange b c = Some c'" "current c = Some rs"
  shows "\<exists>vs rcs t es. core_fullnodeSet c = Some vs \<and> core_roundChangeSet c = Some rcs \<and>
     c' = c\<lparr>waitingForRoundChange := True,
            current := Some (nextRoundState b \<lparr>Round = rs_round rs + 1, Sequence = rs_sequence rs\<rparr> vs rs),
            core_roundChangeSet := Some (rcs_Clear (rs_round rs + 1) rcs),
            futurePreprepareTimer := None, roundChangeTimer := Some t, outbox := outbox c @ es\<rparr> \<and>
     (\<forall>e \<in> set es. quiet e)"
  using assms by (intro sendRoundChange_frame) (auto simp: sendNextRoundChange_def currentView_def)

lemma sendNextRoundChange_total:
  "current c \<noteq> None \<Longrightarrow> core_fullnodeSet c \<noteq> None \<Longrightarrow> core_roundChangeSet c \<noteq> None \<Longrightarrow> sendNextRoundChange b c \<noteq> None"
  using sendRoundChange_total by (auto simp: sendNextRoundChange_def currentView_def)

text \<open>The message a new speaker sends on entering a round by round change.\<close>

definition reproposal :: "backend \<Rightarrow> bool \<Rightarrow> core \<Rightarrow> core option" where
  "reproposal b roundChange c =
     (case current c of
        Some rs \<Rightarrow>
          if roundChange \<and> core_IsSpeaker b c then
            if IsHashLocked (b_HasBadBlockProposal b) rs then do {
              p \<leftarrow> rs_BlockProposal rs;
              sendPreprepare b (Some p) c }
            else (case pendingRequest rs of
                    Some r \<Rightarrow> do { p \<leftarrow> r; sendPreprepare b (Some p) c }
                  | None \<Rightarrow> Some c)
          else Some c
      | None \<Rightarrow> Some c)"

lemma reproposal_frame:
  "reproposal b rc c = Some c' \<Longrightarrow> \<exists>es. c' = c\<lparr>outbox := outbox c @ es\<rparr> \<and> (\<forall>e \<in> set es. quiet e)"
  by (auto simp: reproposal_def bind_Some same_outbox dest!: sendPreprepare_frame
      split: option.splits if_splits)

definition entered :: "backend \<Rightarrow> view \<Rightarrow> bool \<Rightarrow> fullnodeSet \<Rightarrow> core \<Rightarrow> roundState" where
  "entered b v rc vs c =
     (case current c of
        Some rs \<Rightarrow> if rc then nextRoundState b v vs rs else newRoundState v vs 0 None None
      | None \<Rightarrow> newRoundState v vs 0 None None)"

definition entered_core :: "backend \<Rightarrow> view \<Rightarrow> address \<Rightarrow> bool \<Rightarrow> fullnodeSet \<Rightarrow> core \<Rightarrow> core" where
  "entered_core b v lastSpk rc vs c =
     c\<lparr>core_roundChangeSet := Some (newRoundChangeSet vs), current := Some (entered b v rc vs c),
       core_fullnodeSet := Some (CalcSpeaker lastSpk (big_Uint64 (Round v)) vs),
       waitingForRoundChange := False\<rparr>"

lemma enterRound_steps:
  "enterRound b v lastSpk rc c = do {
     vs \<leftarrow> core_fullnodeSet c;
     c \<leftarrow> setState b StateAcceptRequest (entered_core b v lastSpk rc vs c);
     c \<leftarrow> reproposal b rc c;
     newRoundChangeTimer b c }"
  by (cases "core_fullnodeSet c")
    (simp_all add: enterRound_def updateRoundState_current entered_def entered_core_def reproposal_def)

lemma enterRound_frame:
  assumes "enterRound b v lastSpk rc c = Some c'"
  shows "\<exists>vs pq bl t es. core_fullnodeSet c = Some vs \<and>
     c' = (entered_core b v lastSpk rc vs c)
        \<lparr>core_state := StateAcceptRequest, pendingRequests := pq, backlogs := bl,
         futurePreprepareTimer := None, roundChangeTimer := Some t, outbox := outbox c @ es\<rparr> \<and>
     (\<forall>e \<in> set es. quiet e)"
proof -
  obtain vs c1 c2 where vs: "core_fullnodeSet c = Some vs"
    and c1: "setState b StateAcceptRequest (entered_core b v lastSpk rc vs c) = Some c1"
    and c2: "reproposal b rc c1 = Some c2" and c': "newRoundChangeTimer b c2 = Some c'"
    using assms by (auto simp: enterRound_steps bind_Some)
  obtain pq bl evs where f1: "c1 = (entered_core b v lastSpk rc vs c)\<lparr>core_state := StateAcceptRequest,
      pendingRequests := pq, backlogs := bl, outbox := outbox c @ map EPost evs\<rparr>"
    using setState_frame [OF c1] by (auto simp: entered_core_def)
  obtain es where f2: "c2 = c1\<lparr>outbox := outbox c1 @ es\<rparr>" "\<forall>e \<in> set es. quiet e"
    using reproposal_frame [OF c2] by auto
  obtain t where f3: "c' = c2\<lparr>futurePreprepareTimer := None, roundChangeTimer := Some t\<rparr>"
    using newRoundChangeTimer_frame [OF c'] by auto
  have "c' = (entered_core b v lastSpk rc vs c)
        \<lparr>core_state := StateAcceptRequest, pendingRequests := pq, backlogs := bl,
         futurePreprepareTimer := None, roundChangeTimer := Some t, outbox := outbox c @ (map EPost evs @ es)\<rparr>"
    unfolding f3 f2 f1 by simp
  moreover have "\<forall>e \<in> set (map EPost evs @ es). quiet e" using f2(2) by auto
  ultimately show ?thesis using vs by blast
qed

lemma enterRound_queues:
  assumes "enterRound b v lastSpk rc c = Some c'" "queues_ok c"
  shows "queues_ok c'"
proof -
  obtain vs c1 c2 where c1: "setState b StateAcceptRequest (entered_core b v lastSpk rc vs c) = Some c1"
    and c2: "reproposal b rc c1 = Some c2" and c': "newRoundChangeTimer b c2 = Some c'"
    using assms by (auto simp: enterRound_steps bind_Some)
  have "queues_ok c1" using assms(2) by (intro setState_queues [OF _ c1]) (simp add: queues_ok_def entered_core_def)
  with reproposal_frame [OF c2] newRoundChangeTimer_frame [OF c'] show ?thesis
    by (auto simp: queues_ok_def)
qed

lemma reproposal_total:
  assumes "current c = Some rs" "core_fullnodeSet c \<noteq> None" "pendingRequest rs \<noteq> Some None"
    and "lockedHash rs \<noteq> 0 \<Longrightarrow> Preprepare rs \<noteq> None"
  shows "reproposal b rc c \<noteq> None"
proof -
  have "sendPreprepare b (Some p) c \<noteq> None" for p
    using assms by (intro sendPreprepare_total) auto
  with assms show ?thesis
    by (auto simp: reproposal_def rs_BlockProposal_def IsHashLocked_iff split: option.split)
qed

lemma entered_safe:
  assumes "\<And>rs. current c = Some rs \<Longrightarrow> pendingRequest rs \<noteq> Some None"
    and "\<And>rs. current c = Some rs \<Longrightarrow> lockedHash rs \<noteq> 0 \<Longrightarrow> Preprepare rs \<noteq> None"
  shows "pendingRequest (entered b v rc vs c) \<noteq> Some None"
    and "lockedHash (entered b v rc vs c) \<noteq> 0 \<Longrightarrow> Preprepare (entered b v rc vs c) \<noteq> None"
  using assms by (auto simp: entered_def nextRoundState_def split: option.splits if_splits)

lemma enterRound_total:
  assumes "queues_ok c" "core_fullnodeSet c \<noteq> None"
    and "\<And>rs. current c = Some rs \<Longrightarrow> pendingRequest rs \<noteq> Some None"
    and "\<And>rs. current c = Some rs \<Longrightarrow> lockedHash rs \<noteq> 0 \<Longrightarrow> Preprepare rs \<noteq> None"
  shows "enterRound b v lastSpk rc c \<noteq> None"
proof -
  obtain vs where vs: "core_fullnodeSet c = Some vs" using assms(2) by auto
  let ?c = "entered_core b v lastSpk rc vs c"
  have "queues_ok ?c" "current ?c \<noteq> None" "core_fullnodeSet ?c \<noteq> None"
    using assms(1) by (simp_all add: queues_ok_def entered_core_def)
  then obtain c1 where c1: "setState b StateAcceptRequest ?c = Some c1" using setState_total by blast
  have cur: "current c1 = Some (entered b v rc vs c)" "core_fullnodeSet c1 \<noteq> None"
    using setState_frame [OF c1] by (auto simp: entered_core_def)
  then obtain c2 where c2: "reproposal b rc c1 = Some c2"
    using reproposal_total [OF cur entered_safe [of c b v rc vs]] assms(3,4) by blast
  then have "current c2 \<noteq> None" using reproposal_frame cur by fastforce
  then have "newRoundChangeTimer b c2 \<noteq> None" by (rule newRoundChangeTimer_total)
  with vs c1 c2 show ?thesis by (simp add: enterRound_steps)
qed

lemma chooseRound_Some:
  assumes "current c = Some rs" "chooseRound (Some p) rnd c = Some ch"
  shows "ch = NewSequence \<Longrightarrow> rs_sequence rs \<le> Number p"
    "ch = RoundChange \<Longrightarrow> Number p < rs_sequence rs \<and> rs_round rs \<le> rnd \<and> rnd \<noteq> 0"
  using assms by (auto simp: chooseRound_def split: if_splits)

lemma startNewRound_cases:
  assumes "startNewRound b rnd c = Some c'"
  obtains (same) "c' = c" "current c \<noteq> None"
  | (sequence) p where "fst (b_LastBlockProposal b) = Some p"
      "\<And>rs. current c = Some rs \<Longrightarrow> rs_sequence rs \<le> Number p"
      "enterRound b \<lparr>Round = 0, Sequence = Number p + 1\<rparr> (snd (b_LastBlockProposal b)) False
         (c\<lparr>core_fullnodeSet := Some (b_Fullnodes b p)\<rparr>) = Some c'"
  | (change) rs where "current c = Some rs" "rs_round rs \<le> rnd" "rnd \<noteq> 0"
      "enterRound b \<lparr>Round = rnd, Sequence = rs_sequence rs\<rparr> (snd (b_LastBlockProposal b)) True c = Some c'"
proof -
  obtain lp ls where b: "b_LastBlockProposal b = (lp, ls)" by (cases "b_LastBlockProposal b")
  show ?thesis
  proof (cases "current c")
    case None
    with assms b sequence show ?thesis
      by (auto simp: startNewRound_def chooseRound_def bind_Some)
  next
    case (Some rs)
    then obtain p ch where p: "lp = Some p" and ch: "chooseRound (Some p) rnd c = Some ch"
      using assms b by (auto simp: startNewRound_def chooseRound_def bind_Some)
    show ?thesis
    proof (cases ch)
      case NewSequence
      with assms b Some p ch chooseRound_Some [OF Some ch] show ?thesis
        by (intro sequence [of p]) (auto simp: startNewRound_def)
    next
      case RoundChange
      with assms b Some p ch chooseRound_Some [OF Some ch] change show ?thesis
        by (auto simp: startNewRound_def)
    next
      case NoRound
      with assms b Some p ch same show ?thesis by (auto simp: startNewRound_def)
    qed
  qed
qed

lemma startNewRound_total:
  assumes "queues_ok c" "fst (b_LastBlockProposal b) \<noteq> None" "current c \<noteq> None \<Longrightarrow> core_fullnodeSet c \<noteq> None"
    and "\<And>rs. current c = Some rs \<Longrightarrow> pendingRequest rs \<noteq> Some None"
    and "\<And>rs. current c = Some rs \<Longrightarrow> lockedHash rs \<noteq> 0 \<Longrightarrow> Preprepare rs \<noteq> None"
  shows "startNewRound b rnd c \<noteq> None"
proof -
  obtain p ls where b: "b_LastBlockProposal b = (Some p, ls)"
    using assms(2) by (cases "b_LastBlockProposal b") auto
  obtain ch where ch: "chooseRound (Some p) rnd c = Some ch"
    by (cases "current c") (simp_all add: chooseRound_def)
  have "queues_ok (c\<lparr>core_fullnodeSet := Some (b_Fullnodes b p)\<rparr>)"
    using assms(1) by (simp add: queues_ok_def)
  then have 1: "enterRound b v ls False (c\<lparr>core_fullnodeSet := Some (b_Fullnodes b p)\<rparr>) \<noteq> None" for v
    using assms(4,5) by (intro enterRound_total) auto
  have 2: "ch = RoundChange \<Longrightarrow> \<exists>rs. current c = Some rs"
    using ch by (auto simp: chooseRound_def split: option.splits)
  have 3: "current c \<noteq> None \<Longrightarrow> enterRound b v ls True c \<noteq> None" for v
    using assms by (intro enterRound_total) auto
  show ?thesis
    using b ch 1 2 3 by (auto simp: startNewRound_def split: roundChoice.split)
qed


subsection \<open>Delivering a block\<close>

definition committedSeals :: "roundState \<Rightarrow> bytes list" where
  "committedSeals rs = map (\<lambda>m. copySeal (CommittedSeal m)) (ms_Values (Commits rs))"

lemma commit_cases:
  assumes "commit b c = Some c'" "current c = Some rs" "rs_BlockProposal rs = Some p"
  obtains pq bl evs c1 where
    "c1 = c\<lparr>core_state := StateCommitted, pendingRequests := pq, backlogs := bl,
            outbox := outbox c @ map EPost evs @ [ECommit p (committedSeals rs)]\<rparr>"
    "c' = c1 \<or> sendNextRoundChange b (c1\<lparr>current := Some (UnlockHash rs)\<rparr>) = Some c'"
    "queues_ok c \<longrightarrow> queues_ok c1"
proof -
  obtain c0 where c0: "setState b StateCommitted c = Some c0" using assms(1) by (auto simp: commit_def bind_Some)
  obtain pq bl evs where f: "c0 = c\<lparr>core_state := StateCommitted, pendingRequests := pq, backlogs := bl,
      outbox := outbox c @ map EPost evs\<rparr>"
    using setState_frame [OF c0] by auto
  let ?c1 = "emit (ECommit p (committedSeals rs)) c0"
  have "c' = ?c1 \<or> sendNextRoundChange b (?c1\<lparr>current := Some (UnlockHash rs)\<rparr>) = Some c'"
    using assms c0 f by (auto simp: commit_def Let_def committedSeals_def split: option.splits)
  moreover have "?c1 = c\<lparr>core_state := StateCommitted, pendingRequests := pq, backlogs := bl,
            outbox := outbox c @ map EPost evs @ [ECommit p (committedSeals rs)]\<rparr>"
    by (simp add: emit_def f)
  moreover have "queues_ok c \<longrightarrow> queues_ok ?c1"
    using setState_queues [OF _ c0] by (simp add: queues_ok_def emit_def)
  ultimately show ?thesis using that by blast
qed

lemma commit_total:
  assumes "queues_ok c" "current c \<noteq> None" "core_fullnodeSet c \<noteq> None" "core_roundChangeSet c \<noteq> None"
  shows "commit b c \<noteq> None"
proof -
  obtain c0 where c0: "setState b StateCommitted c = Some c0" using setState_total [OF assms(1-3)] by blast
  then have "current c0 \<noteq> None" "core_fullnodeSet c0 \<noteq> None" "core_roundChangeSet c0 \<noteq> None"
    using setState_frame [OF c0] assms by auto
  then show ?thesis
    using c0 sendNextRoundChange_total
    by (auto simp: commit_def Let_def emit_def split: option.split)
qed

end
