(* ===== verification/Core_Inv.thy ===== *)
theory Core_Inv imports Core_Frame begin

text \<open>
  The invariant of the consensus core and its consequences: the core never panics, the message
  sets of the current round hold only messages on the current subject, a block is delivered only
  with a quorum of COMMITs, views only grow, and a COMMIT is cast at most once per view.
\<close>

subsection \<open>The invariant\<close>

definition votes_ok :: "uint64 \<Rightarrow> subject option \<Rightarrow> fullnodeSet \<Rightarrow> messageSet \<Rightarrow> bool" where
  "votes_ok code sub vs ms \<longleftrightarrow>
     ms_ok ms \<and> fullnodes (ms_fullnodeSet ms) = fullnodes vs \<and>
     (\<forall>m \<in> snd ` set (messages ms). Code m = code \<and> sub \<noteq> None \<and> DecodeBytes item_subject (Msg m) = sub)"

definition rs_ok :: "fullnodeSet \<Rightarrow> roundState \<Rightarrow> bool" where
  "rs_ok vs rs \<longleftrightarrow>
     votes_ok msgPrepare (Subject rs) vs (Prepares rs) \<and> votes_ok msgCommit (Subject rs) vs (Commits rs) \<and>
     (lockedHash rs \<noteq> 0 \<longrightarrow> Preprepare rs \<noteq> None) \<and> pendingRequest rs \<noteq> Some None \<and> 0 \<le> rs_round rs"

definition phase_ok :: "bool \<Rightarrow> State \<Rightarrow> roundState \<Rightarrow> bool" where
  "phase_ok waiting st rs \<longleftrightarrow>
     (waiting \<or> st = StateAcceptRequest \<longrightarrow> messages (Prepares rs) = [] \<and> messages (Commits rs) = []) \<and>
     (\<not> waiting \<and> st \<noteq> StateAcceptRequest \<longrightarrow> Preprepare rs \<noteq> None)"

definition running_ok :: "roundState \<Rightarrow> core \<Rightarrow> bool" where
  "running_ok rs c \<longleftrightarrow>
     (\<exists>vs rcs. core_fullnodeSet c = Some vs \<and> core_roundChangeSet c = Some rcs \<and> rs_ok vs rs \<and>
        rcs_ok rcs \<and> fullnodes (rcs_fullnodeSet rcs) = fullnodes vs) \<and>
     phase_ok (waitingForRoundChange c) (core_state c) rs"

definition core_inv :: "core \<Rightarrow> bool" where
  "core_inv c \<longleftrightarrow> queues_ok c \<and> (\<forall>rs. current c = Some rs \<longrightarrow> running_ok rs c)"

definition live :: "core \<Rightarrow> bool" where
  "live c \<longleftrightarrow> core_inv c \<and> current c \<noteq> None"

lemmas inv_defs = live_def core_inv_def running_ok_def rs_ok_def phase_ok_def

lemma live_facts:
  assumes "live c"
  obtains rs vs rcs where "current c = Some rs" "core_fullnodeSet c = Some vs" "core_roundChangeSet c = Some rcs"
    "rs_ok vs rs" "rcs_ok rcs" "fullnodes (rcs_fullnodeSet rcs) = fullnodes vs" "queues_ok c"
    "phase_ok (waitingForRoundChange c) (core_state c) rs"
  using assms by (auto simp: live_def core_inv_def running_ok_def)

lemma votes_ok_new [simp]: "fullnodes ws = fullnodes vs \<Longrightarrow> votes_ok code sub vs (newMessageSet ws)"
  by (simp add: votes_ok_def)

lemma votes_ok_empty: "votes_ok code sub vs ms \<Longrightarrow> messages ms = [] \<Longrightarrow> votes_ok code sub' vs ms"
  by (simp add: votes_ok_def)

lemma votes_ok_Add:
  assumes "votes_ok code sub vs ms" "Code m = code" "sub \<noteq> None" "DecodeBytes item_subject (Msg m) = sub"
  shows "votes_ok code sub vs (snd (ms_Add m ms))"
  using assms ms_Add_set [of m ms] by (auto simp: votes_ok_def)

lemma live_core_inv: "live c \<Longrightarrow> core_inv c"
  by (simp add: live_def)

lemma live_outbox [simp]: "live (c\<lparr>outbox := es\<rparr>) = live c"
  by (simp add: live_def core_inv_def running_ok_def queues_ok_def)

lemma live_emit [simp]: "live (emit e c) = live c"
  by (simp add: emit_def)

lemma live_timer [simp]: "live (c\<lparr>futurePreprepareTimer := t\<rparr>) = live c"
  by (simp add: live_def core_inv_def running_ok_def queues_ok_def)

lemma live_setState:
  assumes "live c" "setState b st c = Some c'" "\<And>rs. current c = Some rs \<Longrightarrow> phase_ok (waitingForRoundChange c) st rs"
  shows "live c'"
proof -
  have "queues_ok c'" using assms(1,2) setState_queues by (auto simp: live_def core_inv_def)
  with setState_frame [OF assms(2)] assms(1,3) show ?thesis
    by (auto simp: live_def core_inv_def running_ok_def)
qed

lemma rs_ok_next:
  assumes "rs_ok vs rs" "0 \<le> Round v"
  shows "rs_ok vs (nextRoundState b v vs rs)"
  using assms by (auto simp: rs_ok_def nextRoundState_def IsHashLocked_iff)

lemma rcs_Clear_fullnodeSet [simp]: "rcs_fullnodeSet (rcs_Clear r rcs) = rcs_fullnodeSet rcs"
  by (simp add: rcs_Clear_def)

lemma live_sendRoundChange:
  assumes "live c" "sendRoundChange b rnd c = Some c'"
  shows "live c'"
proof -
  from assms(1) obtain rs vs rcs where l: "current c = Some rs" "core_fullnodeSet c = Some vs"
    "core_roundChangeSet c = Some rcs" "rs_ok vs rs" "rcs_ok rcs"
    "fullnodes (rcs_fullnodeSet rcs) = fullnodes vs" "queues_ok c" by (rule live_facts)
  show ?thesis
  proof (cases "rnd \<le> rs_round rs")
    case True
    with sendRoundChange_same [OF l(1), of rnd b] assms show ?thesis by simp
  next
    case False
    have "0 \<le> rnd" using False l(4) by (simp add: rs_ok_def)
    then have "rs_ok vs (nextRoundState b \<lparr>Round = rnd, Sequence = rs_sequence rs\<rparr> vs rs)"
      using rs_ok_next [OF l(4), of "\<lparr>Round = rnd, Sequence = rs_sequence rs\<rparr>"] by simp
    with sendRoundChange_frame [OF assms(2) l(1)] False l show ?thesis
      by (auto simp: live_def core_inv_def running_ok_def queues_ok_def phase_ok_def)
  qed
qed

lemma live_sendNextRoundChange: "live c \<Longrightarrow> sendNextRoundChange b c = Some c' \<Longrightarrow> live c'"
  using live_sendRoundChange by (auto simp: sendNextRoundChange_def bind_Some)

lemma rs_ok_entered:
  assumes "\<And>rs. current c = Some rs \<Longrightarrow> rs_ok ws rs" "0 \<le> Round v"
  shows "rs_ok vs (entered b v rc vs c)"
  using assms by (auto simp: entered_def rs_ok_def nextRoundState_def IsHashLocked_iff split: option.split)

lemma live_enterRound:
  assumes "enterRound b v lastSpk rc c = Some c'" "queues_ok c" "0 \<le> Round v"
    and "\<And>rs. current c = Some rs \<Longrightarrow> \<exists>ws. rs_ok ws rs"
  shows "live c'"
proof -
  obtain vs pq bl t es where vs: "core_fullnodeSet c = Some vs" and c': "c' = (entered_core b v lastSpk rc vs c)
        \<lparr>core_state := StateAcceptRequest, pendingRequests := pq, backlogs := bl,
         futurePreprepareTimer := None, roundChangeTimer := Some t, outbox := outbox c @ es\<rparr>"
    using enterRound_frame [OF assms(1)] by auto
  have "queues_ok c'" using enterRound_queues [OF assms(1,2)] .
  moreover obtain ws where "\<And>rs. current c = Some rs \<Longrightarrow> rs_ok ws rs" using assms(4) by (cases "current c") auto
  then have "rs_ok vs (entered b v rc vs c)" using assms(3) by (rule rs_ok_entered)
  moreover have "messages (Prepares (entered b v rc vs c)) = []" "messages (Commits (entered b v rc vs c)) = []"
    by (auto simp: entered_def split: option.split)
  ultimately show ?thesis
    unfolding c' by (auto simp: live_def core_inv_def running_ok_def entered_core_def phase_ok_def rs_ok_def
        votes_ok_def newRoundChangeSet_def rcs_ok_def)
qed

lemma live_startNewRound:
  assumes "core_inv c" "startNewRound b rnd c = Some c'" "0 \<le> rnd"
  shows "live c'"
  using assms(2)
proof (cases rule: startNewRound_cases)
  case same
  with assms(1) show ?thesis by (simp add: live_def)
next
  case (sequence p)
  show ?thesis
    by (rule live_enterRound [OF sequence(3)])
      (use assms in \<open>auto simp: core_inv_def queues_ok_def running_ok_def\<close>)
next
  case (change rs)
  show ?thesis
    by (rule live_enterRound [OF change(4)]) (use assms in \<open>auto simp: core_inv_def running_ok_def\<close>)
qed

lemma live_update:
  assumes "live c" "core_fullnodeSet c = Some vs" "rs_ok vs rs'"
    and "phase_ok (waitingForRoundChange c) (core_state c) rs'"
  shows "live (c\<lparr>current := Some rs'\<rparr>)"
  using assms by (auto simp: live_def core_inv_def running_ok_def queues_ok_def)


lemma Subject_frame [simp]:
  "Subject (rs\<lparr>pendingRequest := x\<rparr>) = Subject rs" "Subject (rs\<lparr>Prepares := y\<rparr>) = Subject rs"
  "Subject (rs\<lparr>Commits := y\<rparr>) = Subject rs" "Subject (UnlockHash rs) = Subject rs"
  by (simp_all add: Subject_def UnlockHash_def split: option.split)


subsection \<open>Every handler keeps the invariant and returns\<close>

lemma item_bigInt_nonneg: "item_bigInt i = Some n \<Longrightarrow> 0 \<le> n"
  by (cases i) (auto simp: item_bigInt_def split: if_splits)

lemma item_view_round: "item_view i = Some v \<Longrightarrow> 0 \<le> Round v"
  by (auto simp: item_view_def split: rlp.splits list.splits option.splits dest!: item_bigInt_nonneg)

lemma item_subject_round: "item_subject i = Some s \<Longrightarrow> 0 \<le> Round (subj_View s)"
  by (auto simp: item_subject_def split: rlp.splits list.splits option.splits dest!: item_view_round)

lemma decoded_round: "DecodeBytes item_subject body = Some s \<Longrightarrow> 0 \<le> Round (subj_View s)"
  by (auto simp: DecodeBytes_def bind_Some split: if_splits dest!: item_subject_round)

lemma live_handleRequest:
  assumes "live c" "handleRequest b r c = Some (err, c')"
  shows "live c'"
proof -
  from assms(1) obtain rs vs where l: "current c = Some rs" "core_fullnodeSet c = Some vs" "rs_ok vs rs"
    "phase_ok (waitingForRoundChange c) (core_state c) rs" by (rule live_facts)
  show ?thesis
  proof (cases r)
    case None
    with assms l show ?thesis by (auto simp: handleRequest_def checkRequestMsg_def)
  next
    case (Some p)
    let ?c = "c\<lparr>current := Some (rs\<lparr>pendingRequest := Some r\<rparr>)\<rparr>"
    have "live ?c"
      using assms(1) l Some by (intro live_update) (auto simp: rs_ok_def phase_ok_def)
    moreover have "c' = c \<or> c' = ?c \<or> sendPreprepare b r ?c = Some c'"
      using assms(2) l by (auto simp: handleRequest_def bind_Some split: option.splits if_splits)
    ultimately show ?thesis using assms(1) by (auto dest!: sendPreprepare_frame)
  qed
qed

lemma total_handleRequest:
  assumes "live c"
  shows "handleRequest b (Some p) c \<noteq> None"
proof -
  from assms obtain rs vs where l: "current c = Some rs" "core_fullnodeSet c = Some vs" by (rule live_facts)
  let ?c = "c\<lparr>current := Some (rs\<lparr>pendingRequest := Some (Some p)\<rparr>)\<rparr>"
  obtain c1 where "sendPreprepare b (Some p) ?c = Some c1"
    using sendPreprepare_total [of ?c b p] l by auto
  with l show ?thesis by (auto simp: handleRequest_def checkRequestMsg_def Let_def)
qed

lemma acceptPreprepare_live:
  assumes "live c" "current c = Some rs" "\<not> waitingForRoundChange c" "core_state c = StateAcceptRequest"
  shows "acceptPreprepare pp c = Some (c\<lparr>current := Some (SetPreprepare pp rs)\<rparr>)"
    and "live (c\<lparr>current := Some (SetPreprepare pp rs)\<rparr>)"
    and "phase_ok False st (SetPreprepare pp rs)"
proof -
  from assms(1) obtain vs where l: "core_fullnodeSet c = Some vs" "rs_ok vs rs"
    "phase_ok (waitingForRoundChange c) (core_state c) rs" using assms(2) by (auto elim: live_facts)
  have e: "messages (Prepares rs) = []" "messages (Commits rs) = []"
    using l(3) assms(4) by (auto simp: phase_ok_def)
  show "acceptPreprepare pp c = Some (c\<lparr>current := Some (SetPreprepare pp rs)\<rparr>)"
    using assms by (simp add: acceptPreprepare_def)
  show "phase_ok False st (SetPreprepare pp rs)" using e by (simp add: phase_ok_def SetPreprepare_def)
  show "live (c\<lparr>current := Some (SetPreprepare pp rs)\<rparr>)"
    using l e assms
    by (intro live_update [OF assms(1) l(1)])
      (auto simp: rs_ok_def phase_ok_def SetPreprepare_def intro: votes_ok_empty)
qed

lemma preprepareVerified_cases:
  assumes "preprepareVerified b pp c = Some c'" "current c = Some rs"
  obtains (ignored) "core_state c \<noteq> StateAcceptRequest" "c' = c"
  | (locked) c1 where "core_state c = StateAcceptRequest" "IsHashLocked (b_HasBadBlockProposal b) rs"
      "Hash (pp_Proposal pp) = lockedHash rs"
      "setState b StatePrepared (c\<lparr>current := Some (SetPreprepare pp rs)\<rparr>) = Some c1" "sendCommit b c1 = Some c'"
  | (conflict) "core_state c = StateAcceptRequest" "IsHashLocked (b_HasBadBlockProposal b) rs"
      "Hash (pp_Proposal pp) \<noteq> lockedHash rs" "sendNextRoundChange b c = Some c'"
  | (fresh) c1 where "core_state c = StateAcceptRequest" "\<not> IsHashLocked (b_HasBadBlockProposal b) rs"
      "setState b StatePreprepared (c\<lparr>current := Some (SetPreprepare pp rs)\<rparr>) = Some c1" "sendPrepare b c1 = Some c'"
  using assms
  by (auto simp: preprepareVerified_def acceptPreprepare_def GetLockedHash_def bind_Some split: if_splits)

lemma live_preprepareVerified:
  assumes "live c" "\<not> waitingForRoundChange c" "preprepareVerified b pp c = Some c'"
  shows "live c'"
proof -
  from assms(1) obtain rs where rs: "current c = Some rs" by (auto elim: live_facts)
  note acc = acceptPreprepare_live [OF assms(1) rs assms(2)]
  from assms(3) rs show ?thesis
  proof (cases rule: preprepareVerified_cases)
    case ignored
    with assms(1) show ?thesis by simp
  next
    case (locked c1)
    then have "live c1"
      using acc assms(2) by (intro live_setState [OF acc(2) locked(4)]) auto
    then show ?thesis using locked(5) by (auto simp: sendCommit_def bind_Some dest!: broadcastCommit_frame)
  next
    case conflict
    with assms(1) live_sendNextRoundChange show ?thesis by blast
  next
    case (fresh c1)
    then have "live c1"
      using acc assms(2) by (intro live_setState [OF acc(2) fresh(3)]) auto
    then show ?thesis using sendPrepare_frame [OF fresh(4)] by auto
  qed
qed

lemma total_preprepareVerified:
  assumes "live c" "\<not> waitingForRoundChange c"
  shows "preprepareVerified b pp c \<noteq> None"
proof -
  from assms(1) obtain rs vs rcs where l: "current c = Some rs" "core_fullnodeSet c = Some vs"
    "core_roundChangeSet c = Some rcs" "queues_ok c" by (rule live_facts)
  let ?c = "c\<lparr>current := Some (SetPreprepare pp rs)\<rparr>"
  have "queues_ok ?c" using l(4) by (simp add: queues_ok_def)
  then have ss: "\<exists>c1. setState b st ?c = Some c1" for st
    using setState_total [of ?c b st] l by auto
  have "current c1 = Some (SetPreprepare pp rs) \<and> core_fullnodeSet c1 = Some vs" if "setState b st ?c = Some c1" for st c1
    using setState_frame [OF that] l by auto
  then have "sendCommit b c1 \<noteq> None \<and> sendPrepare b c1 \<noteq> None" if "setState b st ?c = Some c1" for st c1
    using that sendCommit_total [of c1 "SetPreprepare pp rs" b] sendPrepare_total [of c1 "SetPreprepare pp rs" b]
    by (simp add: SetPreprepare_def)
  with ss [of StatePrepared] ss [of StatePreprepared] sendNextRoundChange_total [of c b] l show ?thesis
    by (auto simp: preprepareVerified_def acceptPreprepare_def)
qed

lemma checkMessage_accepts:
  assumes "checkMessage code v c = Some None" "code \<noteq> msgRoundChange" "current c = Some rs"
  shows "v = \<lparr>Round = rs_round rs, Sequence = rs_sequence rs\<rparr>" "\<not> waitingForRoundChange c"
    "core_state c = StateAcceptRequest \<Longrightarrow> code \<le> msgPreprepare"
  using assms by (auto simp: checkMessage_def currentView_def split: if_splits)

lemma checkMessage_old:
  assumes "checkMessage code v c = Some (Some errOldMessage)" "current c = Some rs"
  shows "view_Cmp v \<lparr>Round = rs_round rs, Sequence = rs_sequence rs\<rparr> < 0"
  using assms by (auto simp: checkMessage_def currentView_def split: if_splits)

lemma handlePreprepare_cases:
  assumes "handlePreprepare b m src c = Some (err, c')" "current c = Some rs"
  obtains (rejected) e where "c' = c" "err = Some e"
  | (old) pp where "DecodeBytes (item_preprepare (b_codec b)) (Msg m) = Some pp"
      "view_Cmp (pp_View pp) \<lparr>Round = rs_round rs, Sequence = rs_sequence rs\<rparr> < 0"
      "b_HasBlockProposal b (Hash (pp_Proposal pp)) (Number (pp_Proposal pp))"
      "broadcastCommit b \<lparr>subj_View = pp_View pp, Digest = Hash (pp_Proposal pp)\<rparr> c = Some c'"
  | (later) t where "c' = c\<lparr>futurePreprepareTimer := t\<rparr>"
  | (bad) "\<not> waitingForRoundChange c" "sendNextRoundChange b c = Some c'"
  | (verified) pp vs where "DecodeBytes (item_preprepare (b_codec b)) (Msg m) = Some pp"
      "pp_View pp = \<lparr>Round = rs_round rs, Sequence = rs_sequence rs\<rparr>" "core_fullnodeSet c = Some vs"
      "IsSpeaker src vs" "snd (b_Verify b (pp_Proposal pp)) = None"
      "\<not> waitingForRoundChange c" "preprepareVerified b pp c = Some c'"
proof (cases "DecodeBytes (item_preprepare (b_codec b)) (Msg m)")
  case None
  with assms rejected show ?thesis by (auto simp: handlePreprepare_def)
next
  case (Some pp)
  obtain r where r: "checkMessage msgPreprepare (pp_View pp) c = Some r"
    using assms Some by (auto simp: handlePreprepare_def bind_Some)
  show ?thesis
  proof (cases r)
    case None
    note acc = checkMessage_accepts [OF r [unfolded None] _ assms(2)]
    have [simp]: "msgPreprepare \<noteq> msgRoundChange" by (simp add: msg_codes)
    show ?thesis
      using assms(1) Some r None acc rejected later bad verified
      by (auto simp: handlePreprepare_def bind_Some stopFuturePreprepareTimer_def split: if_splits prod.splits option.splits)
  next
    case (Some e)
    with assms \<open>_ = Some pp\<close> r rejected old checkMessage_old [of msgPreprepare "pp_View pp" c rs] show ?thesis
      by (auto simp: handlePreprepare_def bind_Some Let_def sendCommitForOldBlock_def split: if_splits)
  qed
qed

lemma live_broadcastCommit: "live c \<Longrightarrow> broadcastCommit b sub c = Some c' \<Longrightarrow> live c'"
  by (auto dest!: broadcastCommit_frame)

lemma live_sendCommit: "live c \<Longrightarrow> sendCommit b c = Some c' \<Longrightarrow> live c'"
  by (auto simp: sendCommit_def bind_Some intro: live_broadcastCommit)

lemma live_handlePreprepare:
  assumes "live c" "handlePreprepare b m src c = Some (err, c')"
  shows "live c'"
proof -
  from assms(1) obtain rs where rs: "current c = Some rs" by (auto elim: live_facts)
  from assms(2) rs show ?thesis
  proof (cases rule: handlePreprepare_cases)
    case old
    with assms(1) show ?thesis by (blast intro: live_broadcastCommit)
  next
    case bad
    with assms(1) show ?thesis by (blast intro: live_sendNextRoundChange)
  next
    case verified
    with assms(1) show ?thesis by (blast intro: live_preprepareVerified)
  qed (use assms(1) in auto)
qed

lemma checkMessage_Some: "live c \<Longrightarrow> \<exists>r. checkMessage code v c = Some r"
  using checkMessage_total [of c code v] by (auto simp: live_def)

lemma total_handlePreprepare:
  assumes "live c"
  shows "handlePreprepare b m src c \<noteq> None"
proof (cases "DecodeBytes (item_preprepare (b_codec b)) (Msg m)")
  case (Some pp)
  from assms obtain rs vs rcs where l: "current c = Some rs" "core_fullnodeSet c = Some vs"
    "core_roundChangeSet c = Some rcs" by (rule live_facts)
  obtain r where r: "checkMessage msgPreprepare (pp_View pp) c = Some r" using checkMessage_Some [OF assms] by blast
  obtain c1 where bc: "broadcastCommit b \<lparr>subj_View = pp_View pp, Digest = Hash (pp_Proposal pp)\<rparr> c = Some c1"
    using broadcastCommit_total [of c b "\<lparr>subj_View = pp_View pp, Digest = Hash (pp_Proposal pp)\<rparr>"] l by auto
  obtain c2 where nrc: "sendNextRoundChange b c = Some c2" using sendNextRoundChange_total [of c b] l by auto
  show ?thesis
  proof (cases r)
    case None
    then obtain c3 where "preprepareVerified b pp c = Some c3"
      using total_preprepareVerified [OF assms, of b pp] checkMessage_accepts(2) [of msgPreprepare "pp_View pp" c rs] r l
      by (auto simp: msg_codes)
    with Some r l nrc None show ?thesis
      by (cases "b_Verify b (pp_Proposal pp)") (auto simp: handlePreprepare_def split: option.split)
  next
    case (Some e)
    with \<open>_ = Some pp\<close> r bc show ?thesis
      by (auto simp: handlePreprepare_def Let_def sendCommitForOldBlock_def)
  qed
qed (simp add: handlePreprepare_def)

text \<open>PREPARE: the message is counted, and a threshold or the lock moves the core to Prepared.\<close>

definition preparedNow :: "backend \<Rightarrow> subject \<Rightarrow> fullnodeSet \<Rightarrow> State \<Rightarrow> roundState \<Rightarrow> bool" where
  "preparedNow b sub vs st rs \<longleftrightarrow>
     (IsHashLocked (b_HasBadBlockProposal b) rs \<and> Digest sub = lockedHash rs
       \<or> GetPrepareOrCommitSize rs \<ge> int (MinApprovers vs)) \<and> st < StatePrepared"

lemma handlePrepare_rejects:
  assumes "DecodeBytes item_subject (Msg m) = Some sub" "checkMessage msgPrepare (subj_View sub) c = Some r"
    "current c = Some rs" "r \<noteq> None \<or> Some sub \<noteq> Subject rs"
  shows "\<exists>e. handlePrepare b m src c = Some (Some e, c)"
  using assms by (cases r) (auto simp: handlePrepare_def verifyPrepare_def)

lemma handlePrepare_accepts:
  assumes "DecodeBytes item_subject (Msg m) = Some sub" "checkMessage msgPrepare (subj_View sub) c = Some None"
    "current c = Some rs" "Subject rs = Some sub" "core_fullnodeSet c = Some vs"
  defines "rs1 \<equiv> rs\<lparr>Prepares := snd (ms_Add m (Prepares rs))\<rparr>"
  shows "handlePrepare b m src c =
    (if preparedNow b sub vs (core_state c) rs1 then do {
       c1 \<leftarrow> setState b StatePrepared (c\<lparr>current := Some (LockHash rs1)\<rparr>);
       c2 \<leftarrow> sendCommit b c1;
       Some (None, c2) }
     else Some (None, c\<lparr>current := Some rs1\<rparr>))"
  using assms(1-5) unfolding rs1_def
  by (simp add: handlePrepare_def verifyPrepare_def acceptPrepare_def GetLockedHash_def preparedNow_def)

lemma handlePrepare_cases:
  assumes "handlePrepare b m src c = Some (err, c')" "current c = Some rs" "core_fullnodeSet c = Some vs"
  obtains (rejected) e where "c' = c" "err = Some e"
  | (counted) sub where "DecodeBytes item_subject (Msg m) = Some sub" "Subject rs = Some sub"
      "\<not> waitingForRoundChange c" "core_state c \<noteq> StateAcceptRequest"
      "c' = c\<lparr>current := Some (rs\<lparr>Prepares := snd (ms_Add m (Prepares rs))\<rparr>)\<rparr>"
  | (prepared) sub c1 where "DecodeBytes item_subject (Msg m) = Some sub" "Subject rs = Some sub"
      "\<not> waitingForRoundChange c" "core_state c \<noteq> StateAcceptRequest"
      "preparedNow b sub vs (core_state c) (rs\<lparr>Prepares := snd (ms_Add m (Prepares rs))\<rparr>)"
      "setState b StatePrepared
         (c\<lparr>current := Some (LockHash (rs\<lparr>Prepares := snd (ms_Add m (Prepares rs))\<rparr>))\<rparr>) = Some c1"
      "sendCommit b c1 = Some c'"
proof (cases "DecodeBytes item_subject (Msg m)")
  case None
  with assms rejected show ?thesis by (auto simp: handlePrepare_def)
next
  case (Some sub)
  obtain r where r: "checkMessage msgPrepare (subj_View sub) c = Some r"
    using assms Some by (auto simp: handlePrepare_def bind_Some)
  show ?thesis
  proof (cases "r = None \<and> Some sub = Subject rs")
    case True
    then have ok: "checkMessage msgPrepare (subj_View sub) c = Some None" "Subject rs = Some sub" using r by auto
    have codes: "msgPrepare \<noteq> msgRoundChange" "\<not> msgPrepare \<le> msgPreprepare" by (simp_all add: msg_codes)
    note acc = checkMessage_accepts [OF ok(1) codes(1) assms(2)]
    have nw: "\<not> waitingForRoundChange c" "core_state c \<noteq> StateAcceptRequest" using acc(2,3) codes(2) by auto
    note eq = handlePrepare_accepts [OF Some ok(1) assms(2) ok(2) assms(3), of b src]
    show ?thesis
    proof (cases "preparedNow b sub vs (core_state c) (rs\<lparr>Prepares := snd (ms_Add m (Prepares rs))\<rparr>)")
      case True
      with assms(1) [unfolded eq] obtain c1 where
        "setState b StatePrepared
           (c\<lparr>current := Some (LockHash (rs\<lparr>Prepares := snd (ms_Add m (Prepares rs))\<rparr>))\<rparr>) = Some c1"
        "sendCommit b c1 = Some c'" by (auto simp: bind_Some)
      then show ?thesis using prepared Some ok(2) nw True by blast
    next
      case False
      with assms(1) [unfolded eq] show ?thesis using counted Some ok(2) nw by simp
    qed
  next
    case False
    then obtain e where "handlePrepare b m src c = Some (Some e, c)"
      using handlePrepare_rejects [OF Some r assms(2)] by blast
    with assms(1) rejected [of e] show ?thesis by simp
  qed
qed

lemma rs_ok_addPrepare:
  assumes "rs_ok vs rs" "Subject rs = Some sub" "DecodeBytes item_subject (Msg m) = Some sub" "Code m = msgPrepare"
  shows "rs_ok vs (rs\<lparr>Prepares := snd (ms_Add m (Prepares rs))\<rparr>)"
  using assms by (auto simp: rs_ok_def intro: votes_ok_Add)

lemma rs_ok_addCommit:
  assumes "rs_ok vs rs" "Subject rs = Some sub" "DecodeBytes item_subject (Msg m) = Some sub" "Code m = msgCommit"
  shows "rs_ok vs (rs\<lparr>Commits := snd (ms_Add m (Commits rs))\<rparr>)"
  using assms by (auto simp: rs_ok_def intro: votes_ok_Add)

lemma rs_ok_LockHash: "rs_ok vs rs \<Longrightarrow> rs_ok vs (LockHash rs)"
  by (auto simp: rs_ok_def LockHash_def Subject_def split: option.splits)

lemma rs_ok_UnlockHash: "rs_ok vs rs \<Longrightarrow> rs_ok vs (UnlockHash rs)"
  by (simp add: rs_ok_def) (simp add: UnlockHash_def)

lemma Subject_Preprepare: "Subject rs = Some sub \<Longrightarrow> Preprepare rs \<noteq> None"
  by (metis Subject_None option.distinct(1))

lemma live_handlePrepare:
  assumes "live c" "handlePrepare b m src c = Some (err, c')" "Code m = msgPrepare"
  shows "live c'"
proof -
  from assms(1) obtain rs vs where l: "current c = Some rs" "core_fullnodeSet c = Some vs" "rs_ok vs rs"
    by (rule live_facts)
  let ?rs1 = "rs\<lparr>Prepares := snd (ms_Add m (Prepares rs))\<rparr>"
  from assms(2) l(1,2) show ?thesis
  proof (cases rule: handlePrepare_cases)
    case rejected
    with assms(1) show ?thesis by simp
  next
    case (counted sub)
    with assms l show ?thesis
      by (auto intro!: live_update [OF assms(1) l(2)] rs_ok_addPrepare simp: phase_ok_def dest: Subject_Preprepare)
  next
    case (prepared sub c1)
    have "Preprepare rs \<noteq> None" using prepared(2) by (rule Subject_Preprepare)
    then have ph: "phase_ok False st (LockHash ?rs1)" if "st \<noteq> StateAcceptRequest" for st
      using that by (simp add: phase_ok_def)
    have "live (c\<lparr>current := Some (LockHash ?rs1)\<rparr>)"
      using prepared l assms ph [OF prepared(4)]
      by (intro live_update [OF assms(1) l(2)] rs_ok_LockHash rs_ok_addPrepare) auto
    then have "live c1" using prepared(6) by (rule live_setState) (use prepared(3) ph in auto)
    then show ?thesis using prepared(7) by (rule live_sendCommit)
  qed
qed

lemma total_setState_sendCommit:
  assumes "live c" "Preprepare rs \<noteq> None"
  obtains c1 c2 where "setState b st (c\<lparr>current := Some rs\<rparr>) = Some c1" "sendCommit b c1 = Some c2"
proof -
  from assms(1) obtain vs where l: "core_fullnodeSet c = Some vs" "queues_ok c" by (auto elim: live_facts)
  have "queues_ok (c\<lparr>current := Some rs\<rparr>)" using l(2) by (simp add: queues_ok_def)
  then obtain c1 where c1: "setState b st (c\<lparr>current := Some rs\<rparr>) = Some c1"
    using setState_total [of "c\<lparr>current := Some rs\<rparr>" b st] l(1) by auto
  then have "current c1 = Some rs" "core_fullnodeSet c1 \<noteq> None" using setState_frame [OF c1] l(1) by auto
  then obtain c2 where "sendCommit b c1 = Some c2" using sendCommit_total [of c1 rs b] assms(2) by auto
  with c1 that show ?thesis by blast
qed

lemma total_handlePrepare:
  assumes "live c"
  shows "handlePrepare b m src c \<noteq> None"
proof (cases "DecodeBytes item_subject (Msg m)")
  case (Some sub)
  from assms obtain rs vs where l: "current c = Some rs" "core_fullnodeSet c = Some vs" by (rule live_facts)
  obtain r where r: "checkMessage msgPrepare (subj_View sub) c = Some r" using checkMessage_Some [OF assms] by blast
  show ?thesis
  proof (cases "r = None \<and> Some sub = Subject rs")
    case True
    then have ok: "checkMessage msgPrepare (subj_View sub) c = Some None" "Subject rs = Some sub" using r by auto
    let ?rs1 = "LockHash (rs\<lparr>Prepares := snd (ms_Add m (Prepares rs))\<rparr>)"
    have "Preprepare ?rs1 \<noteq> None" using Subject_Preprepare [OF ok(2)] by simp
    then obtain c1 c2 where "setState b StatePrepared (c\<lparr>current := Some ?rs1\<rparr>) = Some c1" "sendCommit b c1 = Some c2"
      using total_setState_sendCommit [OF assms] by metis
    then show ?thesis unfolding handlePrepare_accepts [OF Some ok(1) l(1) ok(2) l(2)] by simp
  next
    case False
    then show ?thesis using handlePrepare_rejects [OF Some r l(1)] by fastforce
  qed
qed (simp add: handlePrepare_def)

text \<open>COMMIT: the message is counted, and the threshold delivers the block.\<close>

lemma handleCommit_rejects:
  assumes "DecodeBytes item_subject (Msg m) = Some sub" "checkMessage msgCommit (subj_View sub) c = Some r"
    "current c = Some rs" "r \<noteq> None \<or> Some sub \<noteq> Subject rs"
  shows "\<exists>e. handleCommit b m src c = Some (Some e, c)"
  using assms by (cases r) (auto simp: handleCommit_def verifyCommit_def)

lemma handleCommit_accepts:
  assumes "DecodeBytes item_subject (Msg m) = Some sub" "checkMessage msgCommit (subj_View sub) c = Some None"
    "current c = Some rs" "Subject rs = Some sub" "core_fullnodeSet c = Some vs"
  defines "rs1 \<equiv> rs\<lparr>Commits := snd (ms_Add m (Commits rs))\<rparr>"
  shows "handleCommit b m src c =
    (if MinApprovers vs \<le> ms_Size (Commits rs1) \<and> core_state c < StateCommitted then do {
       c1 \<leftarrow> commit b (c\<lparr>current := Some (LockHash rs1)\<rparr>);
       Some (None, c1) }
     else Some (None, c\<lparr>current := Some rs1\<rparr>))"
  using assms(1-5) unfolding rs1_def
  by (simp add: handleCommit_def verifyCommit_def acceptCommit_def)

lemma handleCommit_cases:
  assumes "handleCommit b m src c = Some (err, c')" "current c = Some rs" "core_fullnodeSet c = Some vs"
  obtains (rejected) e where "c' = c" "err = Some e"
  | (counted) sub where "DecodeBytes item_subject (Msg m) = Some sub" "Subject rs = Some sub"
      "\<not> waitingForRoundChange c" "core_state c \<noteq> StateAcceptRequest"
      "c' = c\<lparr>current := Some (rs\<lparr>Commits := snd (ms_Add m (Commits rs))\<rparr>)\<rparr>"
  | (committed) sub where "DecodeBytes item_subject (Msg m) = Some sub" "Subject rs = Some sub"
      "\<not> waitingForRoundChange c" "core_state c \<noteq> StateAcceptRequest" "core_state c < StateCommitted"
      "MinApprovers vs \<le> ms_Size (snd (ms_Add m (Commits rs)))"
      "commit b (c\<lparr>current := Some (LockHash (rs\<lparr>Commits := snd (ms_Add m (Commits rs))\<rparr>))\<rparr>) = Some c'"
proof (cases "DecodeBytes item_subject (Msg m)")
  case None
  with assms rejected show ?thesis by (auto simp: handleCommit_def)
next
  case (Some sub)
  obtain r where r: "checkMessage msgCommit (subj_View sub) c = Some r"
    using assms Some by (auto simp: handleCommit_def bind_Some)
  show ?thesis
  proof (cases "r = None \<and> Some sub = Subject rs")
    case True
    then have ok: "checkMessage msgCommit (subj_View sub) c = Some None" "Subject rs = Some sub" using r by auto
    have codes: "msgCommit \<noteq> msgRoundChange" "\<not> msgCommit \<le> msgPreprepare" by (simp_all add: msg_codes)
    note acc = checkMessage_accepts [OF ok(1) codes(1) assms(2)]
    have nw: "\<not> waitingForRoundChange c" "core_state c \<noteq> StateAcceptRequest" using acc(2,3) codes(2) by auto
    note eq = handleCommit_accepts [OF Some ok(1) assms(2) ok(2) assms(3), of b src]
    show ?thesis
      using assms(1) [unfolded eq] counted [OF Some ok(2) nw] committed [OF Some ok(2) nw]
      by (auto simp: bind_Some split: if_splits)
  next
    case False
    then obtain e where "handleCommit b m src c = Some (Some e, c)"
      using handleCommit_rejects [OF Some r assms(2)] by blast
    with assms(1) rejected [of e] show ?thesis by simp
  qed
qed

lemma live_commit:
  assumes "live c" "commit b c = Some c'" "current c = Some rs" "Preprepare rs \<noteq> None" "\<not> waitingForRoundChange c"
  shows "live c'"
proof -
  obtain p where p: "rs_BlockProposal rs = Some p" using assms(4) by (auto simp: rs_BlockProposal_def)
  obtain pq bl evs c1 where c1: "c1 = c\<lparr>core_state := StateCommitted, pendingRequests := pq, backlogs := bl,
            outbox := outbox c @ map EPost evs @ [ECommit p (committedSeals rs)]\<rparr>"
    and c': "c' = c1 \<or> sendNextRoundChange b (c1\<lparr>current := Some (UnlockHash rs)\<rparr>) = Some c'"
    and q: "queues_ok c \<longrightarrow> queues_ok c1"
    by (rule commit_cases [OF assms(2,3) p])
  have run: "running_ok rs c" "queues_ok c1" using assms(1,3) q by (simp_all add: live_def core_inv_def)
  then obtain vs where vs: "core_fullnodeSet c = Some vs" "rs_ok vs rs" by (auto simp: running_ok_def)
  have "running_ok rs c1" using run(1) assms(4,5) by (simp add: c1 running_ok_def phase_ok_def)
  then have l1: "live c1" using run(2) assms(3) by (simp add: live_def core_inv_def c1)
  have "live (c1\<lparr>current := Some (UnlockHash rs)\<rparr>)"
  proof (rule live_update [OF l1])
    show "core_fullnodeSet c1 = Some vs" using c1 vs(1) by simp
    show "rs_ok vs (UnlockHash rs)" using vs(2) by (rule rs_ok_UnlockHash)
    show "phase_ok (waitingForRoundChange c1) (core_state c1) (UnlockHash rs)"
      using c1 assms(4,5) by (simp add: phase_ok_def UnlockHash_def)
  qed
  with l1 c' live_sendNextRoundChange show ?thesis by blast
qed

lemma live_handleCommit:
  assumes "live c" "handleCommit b m src c = Some (err, c')" "Code m = msgCommit"
  shows "live c'"
proof -
  from assms(1) obtain rs vs where l: "current c = Some rs" "core_fullnodeSet c = Some vs" "rs_ok vs rs"
    by (rule live_facts)
  let ?rs1 = "rs\<lparr>Commits := snd (ms_Add m (Commits rs))\<rparr>"
  from assms(2) l(1,2) show ?thesis
  proof (cases rule: handleCommit_cases)
    case rejected
    with assms(1) show ?thesis by simp
  next
    case (counted sub)
    with assms l show ?thesis
      by (auto intro!: live_update [OF assms(1) l(2)] rs_ok_addCommit simp: phase_ok_def dest: Subject_Preprepare)
  next
    case (committed sub)
    have pp: "Preprepare rs \<noteq> None" using committed(2) by (rule Subject_Preprepare)
    have "live (c\<lparr>current := Some (LockHash ?rs1)\<rparr>)"
      using committed l assms pp
      by (intro live_update [OF assms(1) l(2)] rs_ok_LockHash rs_ok_addCommit) (auto simp: phase_ok_def)
    from live_commit [OF this committed(7)] pp committed(3) show ?thesis by simp
  qed
qed

lemma total_handleCommit:
  assumes "live c"
  shows "handleCommit b m src c \<noteq> None"
proof (cases "DecodeBytes item_subject (Msg m)")
  case (Some sub)
  from assms obtain rs vs rcs where l: "current c = Some rs" "core_fullnodeSet c = Some vs"
    "core_roundChangeSet c = Some rcs" "queues_ok c" by (rule live_facts)
  obtain r where r: "checkMessage msgCommit (subj_View sub) c = Some r" using checkMessage_Some [OF assms] by blast
  show ?thesis
  proof (cases "r = None \<and> Some sub = Subject rs")
    case True
    then have ok: "checkMessage msgCommit (subj_View sub) c = Some None" "Subject rs = Some sub" using r by auto
    let ?c = "c\<lparr>current := Some (LockHash (rs\<lparr>Commits := snd (ms_Add m (Commits rs))\<rparr>))\<rparr>"
    have "queues_ok ?c" using l(4) by (simp add: queues_ok_def)
    then obtain c1 where "commit b ?c = Some c1" using commit_total [of ?c b] l by auto
    then show ?thesis unfolding handleCommit_accepts [OF Some ok(1) l(1) ok(2) l(2)] by simp
  next
    case False
    then show ?thesis using handleCommit_rejects [OF Some r l(1)] by fastforce
  qed
qed (simp add: handleCommit_def)

text \<open>ROUND CHANGE\<close>

lemma handleRoundChange_cases:
  assumes "handleRoundChange b m src c = Some (err, c')" "current c = Some rs" "core_fullnodeSet c = Some vs"
    "core_roundChangeSet c = Some rcs"
  obtains (rejected) e where "c' = c" "err = Some e"
  | (counted) r where "c' = c\<lparr>core_roundChangeSet := Some (snd (rcs_Add r m rcs))\<rparr>"
  | (catchUp) r where "0 \<le> r" "rs_round rs < r" "waitingForRoundChange c"
      "sendRoundChange b r (c\<lparr>core_roundChangeSet := Some (snd (rcs_Add r m rcs))\<rparr>) = Some c'"
  | (newRound) r where "0 \<le> r" "waitingForRoundChange c \<or> rs_round rs < r"
      "fst (rcs_Add r m rcs) = Inr (MinApprovers vs)"
      "startNewRound b r (c\<lparr>core_roundChangeSet := Some (snd (rcs_Add r m rcs))\<rparr>) = Some c'"
proof (cases "DecodeBytes item_subject (Msg m)")
  case None
  with assms rejected show ?thesis by (auto simp: handleRoundChange_def)
next
  case (Some rc)
  obtain e where e: "checkMessage msgRoundChange (subj_View rc) c = Some e"
    using assms Some by (auto simp: handleRoundChange_def bind_Some)
  let ?r = "Round (subj_View rc)"
  let ?c = "c\<lparr>core_roundChangeSet := Some (snd (rcs_Add ?r m rcs))\<rparr>"
  have r0: "0 \<le> ?r" using decoded_round [OF Some] .
  show ?thesis
  proof (cases e)
    case (Some x)
    with assms \<open>_ = Some rc\<close> e rejected [of x] show ?thesis by (auto simp: handleRoundChange_def)
  next
    case None
    consider (err) x where "fst (rcs_Add ?r m rcs) = Inl x" | (ok) n where "fst (rcs_Add ?r m rcs) = Inr n"
      by (cases "fst (rcs_Add ?r m rcs)") auto
    then show ?thesis
    proof cases
      case err
      with assms Some e None counted [of ?r] show ?thesis
        by (cases "rcs_Add ?r m rcs") (auto simp: handleRoundChange_def currentView_def)
    next
      case (ok n)
      with assms Some e None r0 counted [of ?r] catchUp [of ?r] newRound [of ?r] show ?thesis
        by (cases "rcs_Add ?r m rcs")
          (auto simp: handleRoundChange_def currentView_def bind_Some split: if_splits)
    qed
  qed
qed

lemma live_roundChangeSet:
  assumes "live c" "core_roundChangeSet c = Some rcs"
  shows "live (c\<lparr>core_roundChangeSet := Some (snd (rcs_Add r m rcs))\<rparr>)"
  using assms rcs_ok_Add [of rcs r m]
  by (auto simp: live_def core_inv_def running_ok_def queues_ok_def rcs_Add_snd)

lemma live_handleRoundChange:
  assumes "live c" "handleRoundChange b m src c = Some (err, c')"
  shows "live c'"
proof -
  from assms(1) obtain rs vs rcs where l: "current c = Some rs" "core_fullnodeSet c = Some vs"
    "core_roundChangeSet c = Some rcs" by (rule live_facts)
  note lr = live_roundChangeSet [OF assms(1) l(3)]
  from assms(2) l show ?thesis
  proof (cases rule: handleRoundChange_cases)
    case rejected
    with assms(1) show ?thesis by simp
  next
    case counted
    with lr show ?thesis by simp
  next
    case catchUp
    with lr show ?thesis by (blast intro: live_sendRoundChange)
  next
    case newRound
    with lr show ?thesis by (blast intro: live_startNewRound live_core_inv)
  qed
qed

lemma live_startNewRound_total:
  assumes "live c" "fst (b_LastBlockProposal b) \<noteq> None"
  shows "startNewRound b rnd c \<noteq> None"
proof -
  from assms(1) obtain rs vs where "current c = Some rs" "core_fullnodeSet c = Some vs" "rs_ok vs rs" "queues_ok c"
    by (rule live_facts)
  with assms(2) show ?thesis by (intro startNewRound_total) (auto simp: rs_ok_def)
qed

lemma total_handleRoundChange:
  assumes "live c" "fst (b_LastBlockProposal b) \<noteq> None"
  shows "handleRoundChange b m src c \<noteq> None"
proof (cases "DecodeBytes item_subject (Msg m)")
  case (Some rc)
  from assms(1) obtain rs vs rcs where l: "current c = Some rs" "core_fullnodeSet c = Some vs"
    "core_roundChangeSet c = Some rcs" by (rule live_facts)
  obtain e where e: "checkMessage msgRoundChange (subj_View rc) c = Some e" using checkMessage_Some [OF assms(1)] by blast
  let ?r = "Round (subj_View rc)"
  let ?c = "c\<lparr>core_roundChangeSet := Some (snd (rcs_Add ?r m rcs))\<rparr>"
  have lr: "live ?c" using live_roundChangeSet [OF assms(1) l(3)] .
  obtain c1 where "startNewRound b ?r ?c = Some c1" using live_startNewRound_total [OF lr assms(2)] by blast
  moreover obtain c2 where "sendRoundChange b ?r ?c = Some c2" using sendRoundChange_total [of ?c b ?r] l by auto
  moreover obtain x rcs' where "rcs_Add ?r m rcs = (x, rcs')" by (cases "rcs_Add ?r m rcs")
  ultimately show ?thesis
    using Some e l by (cases x; cases e) (simp_all add: handleRoundChange_def currentView_def)
qed (simp add: handleRoundChange_def)

subsection \<open>Dispatch\<close>

lemma storeBacklog_frame:
  "\<exists>bl. storeBacklog b m src c = c\<lparr>backlogs := bl\<rparr>"
  by (cases "src = core_address c")
    (auto simp: storeBacklog_def Let_def intro: exI [of _ "backlogs c"])

lemma storeBacklog_queues: "queues_ok c \<Longrightarrow> queues_ok (storeBacklog b m src c)"
proof -
  assume ok: "queues_ok c"
  let ?q = "case map_of (backlogs c) src of None \<Rightarrow> prq_New | Some q \<Rightarrow> q"
  have "prq_ok ?q" using ok by (auto simp: queues_ok_def prq_ok_New dest: map_of_SomeD split: option.split)
  then have "prq_ok (case msg_view (b_codec b) m of None \<Rightarrow> ?q
      | Some v \<Rightarrow> prq_Push m (toPriority (Code m) v) ?q)"
    by (auto intro: prq_ok_Push split: option.splits)
  with ok show ?thesis
    by (auto simp: storeBacklog_def queues_ok_def Let_def dest!: alist_update_member)
qed

lemma live_storeBacklog: "live c \<Longrightarrow> live (storeBacklog b m src c)"
proof -
  assume l: "live c"
  then have "queues_ok (storeBacklog b m src c)" using storeBacklog_queues by (auto simp: live_def core_inv_def)
  moreover obtain bl where "storeBacklog b m src c = c\<lparr>backlogs := bl\<rparr>" using storeBacklog_frame by blast
  ultimately show ?thesis using l by (simp add: live_def core_inv_def running_ok_def)
qed

lemma handleCheckedMsg_cases:
  assumes "handleCheckedMsg b m src c = Some (err, c')"
  obtains (unknown) "c' = c" "err = Some errInvalidMessage"
  | (handled) c1 where "c' = c1 \<or> c' = storeBacklog b m src c1"
      "Code m = msgPreprepare \<and> handlePreprepare b m src c = Some (err, c1) \<or>
       Code m = msgPrepare \<and> handlePrepare b m src c = Some (err, c1) \<or>
       Code m = msgCommit \<and> handleCommit b m src c = Some (err, c1) \<or>
       Code m = msgRoundChange \<and> handleRoundChange b m src c = Some (err, c1)"
  using assms by (auto simp: handleCheckedMsg_def testBacklog_def split: if_splits)

lemma live_handleCheckedMsg:
  assumes "live c" "handleCheckedMsg b m src c = Some (err, c')"
  shows "live c'"
  using assms(2)
proof (cases rule: handleCheckedMsg_cases)
  case unknown
  with assms(1) show ?thesis by simp
next
  case (handled c1)
  from handled(2) assms(1) have "live c1"
    by (auto intro: live_handlePreprepare live_handlePrepare live_handleCommit live_handleRoundChange)
  with handled(1) live_storeBacklog show ?thesis by auto
qed

lemma total_handleCheckedMsg:
  assumes "live c" "fst (b_LastBlockProposal b) \<noteq> None"
  shows "handleCheckedMsg b m src c \<noteq> None"
  using total_handlePreprepare [OF assms(1)] total_handlePrepare [OF assms(1)] total_handleCommit [OF assms(1)]
    total_handleRoundChange [OF assms]
  by (simp add: handleCheckedMsg_def map_option_is_None del: not_None_eq)

lemma handleMsg_cases:
  assumes "handleMsg b payload c = Some (err, c')"
  obtains (rejected) e where "c' = c" "err = Some e"
  | (checked) m vs where "core_fullnodeSet c = Some vs" "DecodeBytes item_message payload = Some m"
      "Address m \<in> set (fullnodes vs)" "handleCheckedMsg b m (Address m) c = Some (err, c')"
proof -
  obtain vs where vs: "core_fullnodeSet c = Some vs" using assms by (auto simp: handleMsg_def bind_Some)
  show ?thesis
  proof (cases "FromPayload payload (Some (CheckFullnodeSignature (b_crypto b) vs))")
    case (Inl e)
    with assms vs rejected [of e] show ?thesis by (auto simp: handleMsg_def)
  next
    case (Inr m)
    then have d: "DecodeBytes item_message payload = Some m"
      by (auto simp: FromPayload_def split: option.splits sum.splits)
    show ?thesis
    proof (cases "GetByAddress (Address m) vs")
      case None
      with assms vs Inr rejected [of ErrUnauthorizedAddress] show ?thesis by (auto simp: handleMsg_def simp del: GetByAddress_None)
    next
      case (Some x)
      then obtain i v where x: "GetByAddress (Address m) vs = Some (i, v)" by (cases x) auto
      from GetByAddress_Some [OF x] assms vs Inr x d show ?thesis
        by (intro checked) (auto simp: handleMsg_def)
    qed
  qed
qed

lemma live_handleMsg: "live c \<Longrightarrow> handleMsg b payload c = Some (err, c') \<Longrightarrow> live c'"
  by (erule handleMsg_cases) (auto intro: live_handleCheckedMsg)

lemma total_handleMsg:
  assumes "live c" "fst (b_LastBlockProposal b) \<noteq> None"
  shows "handleMsg b payload c \<noteq> None"
proof -
  from assms(1) obtain vs where "core_fullnodeSet c = Some vs" by (rule live_facts)
  then show ?thesis
    using total_handleCheckedMsg [OF assms]
    by (simp add: handleMsg_def split: sum.split option.split)
qed

lemma handleTimeoutMsg_cases:
  assumes "handleTimeoutMsg b c = Some c'"
  obtains (catchUp) r where "sendRoundChange b r c = Some c'"
  | (sequence) "startNewRound b 0 c = Some c'"
  | (nextRound) "sendNextRoundChange b c = Some c'"
  using assms by (auto simp: handleTimeoutMsg_def bind_Some split: if_splits option.splits)

lemma live_handleTimeoutMsg: "live c \<Longrightarrow> handleTimeoutMsg b c = Some c' \<Longrightarrow> live c'"
  by (erule handleTimeoutMsg_cases)
    (auto intro: live_sendRoundChange live_startNewRound live_sendNextRoundChange live_core_inv)

lemma total_handleTimeoutMsg:
  assumes "live c" "fst (b_LastBlockProposal b) \<noteq> None"
  shows "handleTimeoutMsg b c \<noteq> None"
proof -
  from assms(1) obtain rs vs rcs where l: "current c = Some rs" "core_fullnodeSet c = Some vs"
    "core_roundChangeSet c = Some rcs" by (rule live_facts)
  then have 1: "sendRoundChange b r c \<noteq> None" "sendNextRoundChange b c \<noteq> None" for r
    using sendRoundChange_total sendNextRoundChange_total by auto
  have 2: "startNewRound b 0 c \<noteq> None" using live_startNewRound_total [OF assms] .
  show ?thesis using 1 2 l
    by (cases "MaxRound (MaxFaulty vs + E vs) rcs"; cases "fst (b_LastBlockProposal b)")
      (auto simp: handleTimeoutMsg_def)
qed

lemma live_handleEvent:
  assumes "live c" "handleEvent b ev c = Some c'"
  shows "live c'"
proof (cases ev)
  case (RequestEvent bp)
  with assms obtain p err c1 where h: "handleRequest b (Some p) c = Some (err, c1)"
    "c' = c1 \<or> c' = storeRequestMsg p c1" by (auto simp: handleEvent_def bind_Some)
  have l: "live c1" using live_handleRequest [OF assms(1) h(1)] .
  then have "live (storeRequestMsg p c1)"
    using mset_prq_Push [of "Some p" _ "pendingRequests c1"] prq_ok_Push [of "pendingRequests c1"]
    by (auto simp: live_def core_inv_def running_ok_def storeRequestMsg_def queues_ok_def
        simp flip: set_mset_mset)
  with l h(2) show ?thesis by auto
next
  case (MessageEvent payload)
  with assms show ?thesis by (auto simp: handleEvent_def bind_Some split: if_splits dest: live_handleMsg)
next
  case (backlogEvent src m)
  with assms show ?thesis
    by (auto simp: handleEvent_def bind_Some split: if_splits option.splits dest: live_handleCheckedMsg)
next
  case timeoutEvent
  with assms live_handleTimeoutMsg show ?thesis by (auto simp: handleEvent_def)
next
  case FinalCommittedEvent
  with assms show ?thesis
    by (auto simp: handleEvent_def handleFinalCommitted_def intro: live_startNewRound live_core_inv)
qed

lemma total_handleEvent:
  assumes "live c" "fst (b_LastBlockProposal b) \<noteq> None" "ev \<noteq> RequestEvent None"
  shows "\<exists>c'. handleEvent b ev c = Some c'"
proof (cases ev)
  case (RequestEvent bp)
  with assms(3) obtain p where "bp = Some p" by (cases bp) auto
  with RequestEvent total_handleRequest [OF assms(1), of b p] show ?thesis by (auto simp: handleEvent_def)
next
  case (MessageEvent payload)
  obtain err c1 where h: "handleMsg b payload c = Some (err, c1)"
    using total_handleMsg [OF assms(1,2), of payload] by auto
  obtain vs where "core_fullnodeSet c1 = Some vs" using live_handleMsg [OF assms(1) h] by (auto elim: live_facts)
  with MessageEvent h show ?thesis by (auto simp: handleEvent_def)
next
  case (backlogEvent src m)
  obtain err c1 where h: "handleCheckedMsg b m src c = Some (err, c1)"
    using total_handleCheckedMsg [OF assms(1,2), of m src] by auto
  obtain vs where "core_fullnodeSet c1 = Some vs" using live_handleCheckedMsg [OF assms(1) h] by (auto elim: live_facts)
  with backlogEvent h show ?thesis by (auto simp: handleEvent_def split: option.split)
next
  case timeoutEvent
  with total_handleTimeoutMsg [OF assms(1,2)] show ?thesis by (auto simp: handleEvent_def)
next
  case FinalCommittedEvent
  with live_startNewRound_total [OF assms(1,2), of 0] show ?thesis
    by (auto simp: handleEvent_def handleFinalCommitted_def)
qed


subsection \<open>Reachable cores\<close>

text \<open>A property that holds initially and is kept by every step holds in every reachable state.\<close>

locale step_system =
  fixes initial :: "'s \<Rightarrow> bool" and step :: "'s \<Rightarrow> 's \<Rightarrow> bool" and inv :: "'s \<Rightarrow> bool"
  assumes inv_initial: "initial s \<Longrightarrow> inv s" and inv_step: "inv s \<Longrightarrow> step s t \<Longrightarrow> inv t"
begin

lemma inv_reachable: "initial s \<Longrightarrow> step\<^sup>*\<^sup>* s t \<Longrightarrow> inv t"
  by (rotate_tac, induction rule: rtranclp_induct) (auto intro: inv_initial inv_step)

end

text \<open>The engine starts a stopped core, delivers events to a running one, and may stop it.\<close>

inductive core_step :: "core \<Rightarrow> core \<Rightarrow> bool" where
  start: "current c = None \<Longrightarrow> Start b c = Some c' \<Longrightarrow> core_step c c'"
| event: "current c \<noteq> None \<Longrightarrow> handleEvent b ev c = Some c' \<Longrightarrow> core_step c c'"
| stop: "core_step c (Stop c)"

inductive_cases core_stepE: "core_step c c'"

definition reachable :: "core \<Rightarrow> bool" where
  "reachable c \<longleftrightarrow> (\<exists>b cfg. core_step\<^sup>*\<^sup>* (New b cfg) c)"

lemma core_inv_New: "core_inv (New b cfg)"
  by (simp add: core_inv_def queues_ok_def New_def prq_ok_New) (simp add: prq_New_def)

lemma core_inv_Stop: "core_inv c \<Longrightarrow> core_inv (Stop c)"
  by (simp add: core_inv_def queues_ok_def Stop_def stopTimer_def stopFuturePreprepareTimer_def)

interpretation bft: step_system "\<lambda>c. \<exists>b cfg. c = New b cfg" core_step core_inv
proof
  fix s t
  assume "core_inv s" "core_step s t"
  from this(2,1) show "core_inv t"
  proof cases
    case (start b)
    then show ?thesis
      using live_startNewRound [of s b 0 t] \<open>core_inv s\<close> by (auto simp: Start_def live_def)
  next
    case (event b ev)
    then show ?thesis using live_handleEvent [of s b ev t] \<open>core_inv s\<close> by (auto simp: live_def)
  next
    case stop
    then show ?thesis using \<open>core_inv s\<close> core_inv_Stop by simp
  qed
qed (auto simp: core_inv_New)

lemma reachable_inv: "reachable c \<Longrightarrow> core_inv c"
  unfolding reachable_def using bft.inv_reachable by blast

lemma reachable_live: "reachable c \<Longrightarrow> current c \<noteq> None \<Longrightarrow> live c"
  using reachable_inv by (simp add: live_def)

end
