(* ===== verification/Voter.thy ===== *)
theory Voter
  imports Sport_Model
begin

text \<open>
  An abstract specification of what one node promises about its COMMIT votes. A voter has a view, a
  phase, the hash it is working on, and a lock; it knows nothing of messages, queues or timers.
  The specification is proved safe here: it casts at most one vote per view, its view never moves
  back, and within a sequence it votes only for the hash it is locked on. \<open>Core_Refine\<close> shows that
  the consensus core implements it.
\<close>

record voter =
  v_view :: view
  v_waiting :: bool
  v_phase :: State
  v_proposal :: "hash option"
  v_lock :: hash

definition view_less :: "view \<Rightarrow> view \<Rightarrow> bool" where
  "view_less v w \<longleftrightarrow> view_Cmp v w < 0"

definition locked_on :: "(hash \<Rightarrow> bool) \<Rightarrow> voter \<Rightarrow> bool" where
  "locked_on bad v \<longleftrightarrow> v_lock v \<noteq> 0 \<and> \<not> bad (v_lock v)"

text \<open>On a round change the lock and its proposal survive exactly when the lock is in force.\<close>

definition carry :: "(hash \<Rightarrow> bool) \<Rightarrow> voter \<Rightarrow> voter" where
  "carry bad v = (if locked_on bad v then v else v\<lparr>v_lock := 0, v_proposal := None\<rparr>)"

inductive voter_step :: "(hash \<Rightarrow> bool) \<Rightarrow> (hash \<Rightarrow> bool) \<Rightarrow> voter \<Rightarrow> (view \<times> hash) list \<Rightarrow> voter \<Rightarrow> bool"
  for bad known where
  stutter: "voter_step bad known v [] v"
| repeat_vote: "view_less w (v_view v) \<Longrightarrow> known d \<Longrightarrow> voter_step bad known v [(w, d)] v"
| accept: "\<not> v_waiting v \<Longrightarrow> v_phase v = StateAcceptRequest \<Longrightarrow> \<not> locked_on bad v \<Longrightarrow>
    voter_step bad known v [] (v\<lparr>v_proposal := Some d, v_phase := StatePreprepared\<rparr>)"
| accept_locked: "\<not> v_waiting v \<Longrightarrow> v_phase v = StateAcceptRequest \<Longrightarrow> locked_on bad v \<Longrightarrow>
    ds \<in> {[], [(v_view v, v_lock v)]} \<Longrightarrow>
    voter_step bad known v ds (v\<lparr>v_proposal := Some (v_lock v), v_phase := StatePrepared\<rparr>)"
| prepare: "\<not> v_waiting v \<Longrightarrow> v_phase v = StatePreprepared \<Longrightarrow> v_proposal v = Some d \<Longrightarrow>
    ds \<in> {[], [(v_view v, d)]} \<Longrightarrow>
    voter_step bad known v ds (v\<lparr>v_lock := d, v_phase := StatePrepared\<rparr>)"
| commit: "\<not> v_waiting v \<Longrightarrow> v_phase v \<in> {StatePreprepared, StatePrepared} \<Longrightarrow> v_proposal v = Some d \<Longrightarrow>
    voter_step bad known v [] (v\<lparr>v_lock := d, v_phase := StateCommitted\<rparr>)"
| commit_failed: "\<not> v_waiting v \<Longrightarrow> v_phase v \<in> {StatePreprepared, StatePrepared} \<Longrightarrow> v_proposal v = Some d \<Longrightarrow>
    voter_step bad known v []
      (v\<lparr>v_view := (v_view v)\<lparr>Round := Round (v_view v) + 1\<rparr>, v_waiting := True,
         v_phase := StateCommitted, v_lock := 0, v_proposal := None\<rparr>)"
| catch_up: "Round (v_view v) < r \<Longrightarrow>
    voter_step bad known v [] ((carry bad v)\<lparr>v_view := (v_view v)\<lparr>Round := r\<rparr>, v_waiting := True\<rparr>)"
| enter_round: "v_waiting v \<and> Round (v_view v) \<le> r \<or> Round (v_view v) < r \<Longrightarrow>
    voter_step bad known v []
      ((carry bad v)\<lparr>v_view := (v_view v)\<lparr>Round := r\<rparr>, v_waiting := False, v_phase := StateAcceptRequest\<rparr>)"
| enter_sequence: "Sequence (v_view v) < n \<Longrightarrow>
    voter_step bad known v []
      \<lparr>v_view = \<lparr>Round = 0, Sequence = n\<rparr>, v_waiting = False, v_phase = StateAcceptRequest,
       v_proposal = None, v_lock = 0\<rparr>"

inductive_cases voter_stepE: "voter_step bad known v ds v'"

lemma view_less_simps [simp]:
  "view_less v w \<longleftrightarrow> Sequence v < Sequence w \<or> Sequence v = Sequence w \<and> Round v < Round w"
  by (simp add: view_less_def)

lemma carry_simps [simp]:
  "v_view (carry bad v) = v_view v" "v_waiting (carry bad v) = v_waiting v" "v_phase (carry bad v) = v_phase v"
  by (simp_all add: carry_def)


subsection \<open>Views only grow\<close>

lemma voter_view_mono: "voter_step bad known v ds v' \<Longrightarrow> v_view v' = v_view v \<or> view_less (v_view v) (v_view v')"
  by (erule voter_stepE) (auto intro!: view.equality)


subsection \<open>The lock\<close>

text \<open>A lock in force is a lock on the proposal at hand.\<close>

definition lock_ok :: "(hash \<Rightarrow> bool) \<Rightarrow> voter \<Rightarrow> bool" where
  "lock_ok bad v \<longleftrightarrow> (locked_on bad v \<longrightarrow> v_proposal v = Some (v_lock v))"

lemma lock_ok_mono: "lock_ok bad v \<Longrightarrow> (\<And>h. bad h \<Longrightarrow> bad' h) \<Longrightarrow> lock_ok bad' v"
  by (auto simp: lock_ok_def locked_on_def)

lemma lock_ok_step: "voter_step bad known v ds v' \<Longrightarrow> lock_ok bad v \<Longrightarrow> lock_ok bad v'"
  by (erule voter_stepE) (auto simp: lock_ok_def locked_on_def carry_def)

text \<open>
  Within a sequence a lock in force is given up only by a failed delivery of the block, and every
  vote that is not a repetition for an older view goes to the locked hash.
\<close>

lemma lock_kept:
  assumes "voter_step bad known v ds v'" "lock_ok bad v" "locked_on bad v" "Sequence (v_view v') = Sequence (v_view v)"
  shows "v_lock v' = v_lock v \<or> v_waiting v' \<and> v_phase v' = StateCommitted \<and> v_lock v' = 0"
  using assms by (elim voter_stepE) (auto simp: lock_ok_def carry_def)

lemma vote_is_locked:
  assumes "voter_step bad known v ds v'" "lock_ok bad v" "locked_on bad v" "(w, d) \<in> set ds"
  shows "view_less w (v_view v) \<and> known d \<or> w = v_view v \<and> d = v_lock v"
  using assms by (elim voter_stepE) (auto simp: lock_ok_def)


subsection \<open>One vote per view\<close>

definition voted_ok :: "(view \<times> hash) set \<Rightarrow> voter \<Rightarrow> bool" where
  "voted_ok V v \<longleftrightarrow>
     (\<forall>(w, d) \<in> V. view_less w (v_view v) \<or>
        w = v_view v \<and> \<not> v_waiting v \<and> v_phase v \<in> {StatePrepared, StateCommitted})"

lemma voted_ok_step:
  assumes "voter_step bad known v ds v'" "voted_ok V v"
  shows "voted_ok (V \<union> set ds) v'"
  using assms by (elim voter_stepE) (fastforce simp: voted_ok_def)+

lemma vote_is_new:
  assumes "voter_step bad known v ds v'" "voted_ok V v" "(w, d) \<in> set ds"
  shows "view_less w (v_view v) \<and> known d \<or> w = v_view v \<and> (\<forall>d'. (w, d') \<notin> V)"
  using assms by (elim voter_stepE) (auto simp: voted_ok_def)

end
