(* ===== verification/Core_Refine.thy ===== *)
theory Core_Refine
  imports Core_Inv Voter
begin

text \<open>
  The consensus core implements the abstract voter: every event a running core handles is one step
  of \<open>voter_step\<close>, whose votes are the COMMIT broadcasts the core appended to its outbox.
\<close>

definition abs_voter :: "roundState \<Rightarrow> core \<Rightarrow> voter" where
  "abs_voter rs c =
     \<lparr>v_view = \<lparr>Round = rs_round rs, Sequence = rs_sequence rs\<rparr>, v_waiting = waitingForRoundChange c,
      v_phase = core_state c, v_proposal = map_option (\<lambda>pp. Hash (pp_Proposal pp)) (Preprepare rs),
      v_lock = lockedHash rs\<rparr>"

definition votes :: "effect list \<Rightarrow> (view \<times> hash) list" where
  "votes es = map (\<lambda>s. (subj_View s, Digest s)) (List.map_filter commit_vote es)"

definition known_block :: "backend \<Rightarrow> hash \<Rightarrow> bool" where
  "known_block b d \<longleftrightarrow> (\<exists>n. b_HasBlockProposal b d n)"

text \<open>
  The COMMIT messages that justify the delivery of a block: one from each of a quorum of fullnodes,
  all on the current view and the hash of the block, with their seals.
\<close>

definition quorum_for :: "fullnodeSet \<Rightarrow> roundState \<Rightarrow> proposal \<Rightarrow> bytes list \<Rightarrow> bool" where
  "quorum_for vs rs p seals \<longleftrightarrow>
     (\<exists>ms :: message list. distinct (map Address ms) \<and> Address ` set ms \<subseteq> set (fullnodes vs) \<and>
        MinApprovers vs \<le> length ms \<and> seals = map (\<lambda>m. copySeal (CommittedSeal m)) ms \<and>
        (\<forall>m \<in> set ms. Code m = msgCommit \<and>
           DecodeBytes item_subject (Msg m) =
             Some \<lparr>subj_View = \<lparr>Round = rs_round rs, Sequence = rs_sequence rs\<rparr>, Digest = Hash p\<rparr>))"

definition deliveries_ok :: "core \<Rightarrow> roundState \<Rightarrow> effect list \<Rightarrow> bool" where
  "deliveries_ok c rs es \<longleftrightarrow>
     (\<forall>p seals. ECommit p seals \<in> set es \<longrightarrow>
        (\<exists>vs. core_fullnodeSet c = Some vs \<and> quorum_for vs rs p seals))"

text \<open>One step of the core, seen as a step of the voter.\<close>

definition simulates :: "backend \<Rightarrow> core \<Rightarrow> core \<Rightarrow> bool" where
  "simulates b c c' \<longleftrightarrow>
     (\<exists>rs rs' es. current c = Some rs \<and> current c' = Some rs' \<and> outbox c' = outbox c @ es \<and>
        voter_step (b_HasBadBlockProposal b) (known_block b) (abs_voter rs c) (votes es) (abs_voter rs' c') \<and>
        deliveries_ok c rs es)"

lemma deliveries_quiet [simp]: "\<forall>e \<in> set es. quiet e \<Longrightarrow> deliveries_ok c rs es"
  by (auto simp: deliveries_ok_def quiet_def)

lemma deliveries_posts [simp]: "deliveries_ok c rs (map EPost evs @ es) = deliveries_ok c rs es"
  by (auto simp: deliveries_ok_def)

lemma deliveries_votes: "\<forall>e \<in> set es. commit_vote e = Some sub \<Longrightarrow> deliveries_ok c rs es"
  by (auto simp: deliveries_ok_def commit_vote_def)

lemma votes_quiet [simp]: "\<forall>e \<in> set es. quiet e \<Longrightarrow> votes es = []"
  by (induction es) (auto simp: votes_def List.map_filter_def quiet_def)

lemma votes_append [simp]: "votes (es @ fs) = votes es @ votes fs"
  by (simp add: votes_def List.map_filter_def)

lemma votes_ECommit [simp]: "votes (ECommit p seals # es) = votes es"
  by (simp add: votes_def List.map_filter_def commit_vote_def)

lemma votes_posts [simp]: "votes (map EPost evs) = []"
  by (rule votes_quiet) auto

lemma votes_one:
  "length es \<le> 1 \<Longrightarrow> \<forall>e \<in> set es. commit_vote e = Some sub \<Longrightarrow> votes es \<in> {[], [(subj_View sub, Digest sub)]}"
  by (cases es) (auto simp: votes_def List.map_filter_def)

lemma IsHashLocked_locked_on: "IsHashLocked bad rs \<longleftrightarrow> locked_on bad (abs_voter rs c)"
  by (simp add: IsHashLocked_iff locked_on_def abs_voter_def)

lemma simulates_quiet:
  assumes "current c = Some rs" "current c' = Some rs'" "outbox c' = outbox c @ es" "\<forall>e \<in> set es. quiet e"
    and "voter_step (b_HasBadBlockProposal b) (known_block b) (abs_voter rs c) [] (abs_voter rs' c')"
  shows "simulates b c c'"
  using assms unfolding simulates_def by (metis votes_quiet deliveries_quiet)

lemma simulates_same: "current c = Some rs \<Longrightarrow> simulates b c c"
  using simulates_quiet [of c rs c rs "[]"] by (simp add: voter_step.stutter)

text \<open>Effects on the outbox after a simulated step, and changes the voter does not see.\<close>

lemma simulates_emit:
  assumes "simulates b c c1" "quiet e"
  shows "simulates b c (emit e c1)"
proof -
  obtain rs rs' es where s: "current c = Some rs" "current c1 = Some rs'" "outbox c1 = outbox c @ es"
    "voter_step (b_HasBadBlockProposal b) (known_block b) (abs_voter rs c) (votes es) (abs_voter rs' c1)" "deliveries_ok c rs es"
    using assms(1) by (auto simp: simulates_def)
  have "votes (es @ [e]) = votes es" using assms(2) by simp
  moreover have "deliveries_ok c rs (es @ [e])" using s(5) assms(2) by (auto simp: deliveries_ok_def quiet_def)
  moreover have "abs_voter rs' (emit e c1) = abs_voter rs' c1" by (simp add: abs_voter_def emit_def)
  ultimately show ?thesis using s unfolding simulates_def
    by (intro exI [of _ rs] exI [of _ rs'] exI [of _ "es @ [e]"]) (simp add: emit_def)
qed

lemma simulates_invisible:
  assumes "simulates b c c1" "current c2 = current c1" "outbox c2 = outbox c1"
    "waitingForRoundChange c2 = waitingForRoundChange c1" "core_state c2 = core_state c1"
  shows "simulates b c c2"
  using assms by (auto simp: simulates_def abs_voter_def)

lemma simulates_invisible_before:
  assumes "simulates b c1 c'" "current c1 = current c" "outbox c1 = outbox c"
    "waitingForRoundChange c1 = waitingForRoundChange c" "core_state c1 = core_state c"
    "core_fullnodeSet c1 = core_fullnodeSet c"
  shows "simulates b c c'"
  using assms by (auto simp: simulates_def abs_voter_def deliveries_ok_def)


subsection \<open>The steps\<close>

lemma abs_next:
  "abs_voter (nextRoundState b v vs rs) c' =
     (carry (b_HasBadBlockProposal b) (abs_voter rs c))
       \<lparr>v_view := v, v_waiting := waitingForRoundChange c', v_phase := core_state c'\<rparr>"
  by (auto simp: nextRoundState_def carry_def IsHashLocked_locked_on [of _ _ c])
    (auto simp: abs_voter_def)

lemma simulates_sendRoundChange:
  assumes "sendRoundChange b rnd c = Some c'" "current c = Some rs"
  shows "simulates b c c'"
proof (cases "rnd \<le> rs_round rs")
  case True
  with sendRoundChange_same [OF assms(2)] assms show ?thesis by (simp add: simulates_same)
next
  case False
  then have lt: "rs_round rs < rnd" by simp
  obtain vs rcs t es where c': "c' = c\<lparr>waitingForRoundChange := True,
            current := Some (nextRoundState b \<lparr>Round = rnd, Sequence = rs_sequence rs\<rparr> vs rs),
            core_roundChangeSet := Some (rcs_Clear rnd rcs),
            futurePreprepareTimer := None, roundChangeTimer := Some t, outbox := outbox c @ es\<rparr>"
    and q: "\<forall>e \<in> set es. quiet e"
    using sendRoundChange_frame [OF assms lt] by blast
  let ?v = "\<lparr>Round = rnd, Sequence = rs_sequence rs\<rparr>"
  have "voter_step (b_HasBadBlockProposal b) (known_block b) (abs_voter rs c) []
      ((carry (b_HasBadBlockProposal b) (abs_voter rs c))
         \<lparr>v_view := (v_view (abs_voter rs c))\<lparr>Round := rnd\<rparr>, v_waiting := True\<rparr>)"
    using lt by (intro voter_step.catch_up) (simp add: abs_voter_def)
  moreover have "abs_voter (nextRoundState b ?v vs rs) c' = (carry (b_HasBadBlockProposal b) (abs_voter rs c))
         \<lparr>v_view := (v_view (abs_voter rs c))\<lparr>Round := rnd\<rparr>, v_waiting := True\<rparr>"
    unfolding abs_next [where c = c] c' by (simp add: carry_def) (auto simp: abs_voter_def)
  ultimately show ?thesis
    using assms(2) q by (intro simulates_quiet [of c rs c' "nextRoundState b ?v vs rs" es]) (simp_all add: c')
qed

lemma simulates_sendNextRoundChange:
  "sendNextRoundChange b c = Some c' \<Longrightarrow> current c = Some rs \<Longrightarrow> simulates b c c'"
  using simulates_sendRoundChange by (auto simp: sendNextRoundChange_def bind_Some)

lemma simulates_startNewRound:
  assumes "startNewRound b rnd c = Some c'" "current c = Some rs"
    and "rnd = 0 \<or> waitingForRoundChange c \<or> rs_round rs < rnd"
  shows "simulates b c c'"
  using assms(1)
proof (cases rule: startNewRound_cases)
  case same
  with assms(2) show ?thesis by (simp add: simulates_same)
next
  case (sequence p)
  obtain vs pq bl t es where c': "c' = (entered_core b \<lparr>Round = 0, Sequence = Number p + 1\<rparr> (snd (b_LastBlockProposal b)) False vs
        (c\<lparr>core_fullnodeSet := Some (b_Fullnodes b p)\<rparr>))
        \<lparr>core_state := StateAcceptRequest, pendingRequests := pq, backlogs := bl,
         futurePreprepareTimer := None, roundChangeTimer := Some t, outbox := outbox c @ es\<rparr>"
    and q: "\<forall>e \<in> set es. quiet e"
    using enterRound_frame [OF sequence(3)] by auto
  let ?rs = "newRoundState \<lparr>Round = 0, Sequence = Number p + 1\<rparr> vs 0 None None"
  have cur: "current c' = Some ?rs" using assms(2) by (simp add: c' entered_core_def entered_def)
  have "voter_step (b_HasBadBlockProposal b) (known_block b) (abs_voter rs c) [] (abs_voter ?rs c')"
    using voter_step.enter_sequence [of "abs_voter rs c" "Number p + 1"] sequence(2) [OF assms(2)]
    by (simp add: c' abs_voter_def entered_core_def)
  then show ?thesis using assms(2) cur q by (intro simulates_quiet [of c rs c' ?rs es]) (simp_all add: c' entered_core_def)
next
  case (change rs0)
  then have rs0: "rs0 = rs" using assms(2) by simp
  let ?v = "\<lparr>Round = rnd, Sequence = rs_sequence rs\<rparr>"
  obtain vs pq bl t es where c': "c' = (entered_core b ?v (snd (b_LastBlockProposal b)) True vs c)
        \<lparr>core_state := StateAcceptRequest, pendingRequests := pq, backlogs := bl,
         futurePreprepareTimer := None, roundChangeTimer := Some t, outbox := outbox c @ es\<rparr>"
    and q: "\<forall>e \<in> set es. quiet e"
    using enterRound_frame [OF change(4)] rs0 by auto
  let ?rs = "nextRoundState b ?v vs rs"
  have cur: "current c' = Some ?rs" using assms(2) by (simp add: c' entered_core_def entered_def)
  have "voter_step (b_HasBadBlockProposal b) (known_block b) (abs_voter rs c) []
      ((carry (b_HasBadBlockProposal b) (abs_voter rs c))
         \<lparr>v_view := (v_view (abs_voter rs c))\<lparr>Round := rnd\<rparr>, v_waiting := False, v_phase := StateAcceptRequest\<rparr>)"
    using assms(3) change(2,3) rs0 by (intro voter_step.enter_round) (auto simp: abs_voter_def)
  moreover have "abs_voter ?rs c' = (carry (b_HasBadBlockProposal b) (abs_voter rs c))
         \<lparr>v_view := (v_view (abs_voter rs c))\<lparr>Round := rnd\<rparr>, v_waiting := False, v_phase := StateAcceptRequest\<rparr>"
    unfolding abs_next [where c = c] c' by (simp add: carry_def entered_core_def) (auto simp: abs_voter_def)
  ultimately show ?thesis
    using assms(2) cur q by (intro simulates_quiet [of c rs c' ?rs es]) (simp_all add: c' entered_core_def)
qed

lemma simulates_setState_send:
  assumes "setState b st (c\<lparr>current := Some rs1\<rparr>) = Some c1" "c' = c1\<lparr>outbox := outbox c1 @ es\<rparr>"
    and "current c = Some rs"
    and "voter_step (b_HasBadBlockProposal b) (known_block b) (abs_voter rs c) (votes es)
           ((abs_voter rs1 c)\<lparr>v_phase := st\<rparr>)"
    and "deliveries_ok c rs es"
  shows "simulates b c c'"
proof -
  obtain pq bl evs where c1: "c1 = (c\<lparr>current := Some rs1\<rparr>)\<lparr>core_state := st, pendingRequests := pq, backlogs := bl,
      outbox := outbox c @ map EPost evs\<rparr>"
    using setState_frame [OF assms(1)] by auto
  have "abs_voter rs1 c' = (abs_voter rs1 c)\<lparr>v_phase := st\<rparr>"
    by (simp add: assms(2) c1 abs_voter_def)
  then show ?thesis
    unfolding simulates_def using assms(3,4,5)
    by (intro exI [of _ rs] exI [of _ rs1] exI [of _ "map EPost evs @ es"]) (simp add: assms(2) c1)
qed

lemma Subject_Some:
  "Subject rs = Some sub \<Longrightarrow> subj_View sub = \<lparr>Round = rs_round rs, Sequence = rs_sequence rs\<rparr> \<and>
     (\<exists>pp. Preprepare rs = Some pp \<and> Digest sub = Hash (pp_Proposal pp))"
  by (auto simp: Subject_def split: option.splits)

lemma simulates_preprepareVerified:
  assumes "preprepareVerified b pp c = Some c'" "current c = Some rs" "\<not> waitingForRoundChange c"
  shows "simulates b c c'"
  using assms(1,2)
proof (cases rule: preprepareVerified_cases)
  case ignored
  with assms(2) show ?thesis by (simp add: simulates_same)
next
  case (locked c1)
  have cur: "current c1 = Some (SetPreprepare pp rs)" using setState_frame [OF locked(4)] by auto
  obtain es sub where sub: "Subject (SetPreprepare pp rs) = Some sub" and c': "c' = c1\<lparr>outbox := outbox c1 @ es\<rparr>"
    and es: "length es \<le> 1" "\<forall>e \<in> set es. commit_vote e = Some sub"
    using sendCommit_frame [OF locked(5) cur] by blast
  have v: "votes es \<in> {[], [(v_view (abs_voter rs c), v_lock (abs_voter rs c))]}"
    using votes_one [OF es] Subject_Some [OF sub] locked(3) by (auto simp: abs_voter_def SetPreprepare_def)
  have "(abs_voter (SetPreprepare pp rs) c)\<lparr>v_phase := StatePrepared\<rparr> =
      (abs_voter rs c)\<lparr>v_proposal := Some (v_lock (abs_voter rs c)), v_phase := StatePrepared\<rparr>"
    using locked(3) by (simp add: abs_voter_def SetPreprepare_def)
  moreover have "voter_step (b_HasBadBlockProposal b) (known_block b) (abs_voter rs c) (votes es) \<dots>"
    using locked assms(3) v by (intro voter_step.accept_locked) (auto simp: IsHashLocked_locked_on [of _ _ c] abs_voter_def)
  ultimately show ?thesis
    using simulates_setState_send [OF locked(4) c' assms(2)] deliveries_votes [OF es(2)] by simp
next
  case conflict
  with assms(2) show ?thesis by (blast intro: simulates_sendNextRoundChange)
next
  case (fresh c1)
  obtain es where c': "c' = c1\<lparr>outbox := outbox c1 @ es\<rparr>" and q: "\<forall>e \<in> set es. quiet e"
    using sendPrepare_frame [OF fresh(4)] by blast
  have "(abs_voter (SetPreprepare pp rs) c)\<lparr>v_phase := StatePreprepared\<rparr> =
      (abs_voter rs c)\<lparr>v_proposal := Some (Hash (pp_Proposal pp)), v_phase := StatePreprepared\<rparr>"
    by (simp add: abs_voter_def SetPreprepare_def)
  moreover have "voter_step (b_HasBadBlockProposal b) (known_block b) (abs_voter rs c) (votes es) \<dots>"
    unfolding votes_quiet [OF q]
    using fresh assms(3) by (intro voter_step.accept) (auto simp: IsHashLocked_locked_on [of _ _ c] abs_voter_def)
  ultimately show ?thesis
    using simulates_setState_send [OF fresh(3) c' assms(2)] q by simp
qed

lemma simulates_broadcastCommit_old:
  assumes "broadcastCommit b sub c = Some c'" "current c = Some rs"
    and "view_Cmp (subj_View sub) \<lparr>Round = rs_round rs, Sequence = rs_sequence rs\<rparr> < 0" "known_block b (Digest sub)"
  shows "simulates b c c'"
proof -
  obtain es where c': "c' = c\<lparr>outbox := outbox c @ es\<rparr>" and es: "length es \<le> 1" "\<forall>e \<in> set es. commit_vote e = Some sub"
    using broadcastCommit_frame [OF assms(1)] by blast
  have "voter_step (b_HasBadBlockProposal b) (known_block b) (abs_voter rs c) [(subj_View sub, Digest sub)] (abs_voter rs c)"
    using assms(3,4) by (intro voter_step.repeat_vote) (simp_all add: view_less_def abs_voter_def del: view_less_simps view_Cmp_lt)
  then have "voter_step (b_HasBadBlockProposal b) (known_block b) (abs_voter rs c) (votes es) (abs_voter rs c)"
    using votes_one [OF es] voter_step.stutter by auto
  moreover have "abs_voter rs c' = abs_voter rs c" by (simp add: c' abs_voter_def)
  ultimately show ?thesis
    unfolding simulates_def using assms(2) deliveries_votes [OF es(2)]
    by (intro exI [of _ rs] exI [of _ es]) (simp add: c')
qed

lemma simulates_handlePreprepare:
  assumes "handlePreprepare b m src c = Some (err, c')" "current c = Some rs"
  shows "simulates b c c'"
  using assms
proof (cases rule: handlePreprepare_cases)
  case rejected
  with assms(2) show ?thesis by (simp add: simulates_same)
next
  case (old pp)
  then show ?thesis
    using assms(2) by (intro simulates_broadcastCommit_old [OF old(4)]) (auto simp: known_block_def)
next
  case later
  with simulates_invisible [OF simulates_same [OF assms(2)]] show ?thesis by simp
next
  case bad
  with assms(2) show ?thesis by (blast intro: simulates_sendNextRoundChange)
next
  case verified
  with assms(2) show ?thesis by (blast intro: simulates_preprepareVerified)
qed

lemma abs_voter_unvoted [simp]:
  "abs_voter (rs\<lparr>Prepares := x\<rparr>) c = abs_voter rs c" "abs_voter (rs\<lparr>Commits := x\<rparr>) c = abs_voter rs c"
  "abs_voter (rs\<lparr>pendingRequest := y\<rparr>) c = abs_voter rs c"
  "abs_voter rs (c\<lparr>current := z\<rparr>) = abs_voter rs c"
  by (simp_all add: abs_voter_def)

lemma simulates_unvoted:
  assumes "current c = Some rs" "current c' = Some rs'" "outbox c' = outbox c" "abs_voter rs' c' = abs_voter rs c"
  shows "simulates b c c'"
  using assms by (intro simulates_quiet [of c rs c' rs' "[]"]) (simp_all add: voter_step.stutter)

lemma abs_LockHash:
  "Preprepare rs = Some pp \<Longrightarrow> abs_voter (LockHash rs) c = (abs_voter rs c)\<lparr>v_lock := Hash (pp_Proposal pp)\<rparr>"
  by (simp add: abs_voter_def LockHash_def)

lemma state_cases_below:
  "st \<noteq> StateAcceptRequest \<Longrightarrow> st < StatePrepared \<Longrightarrow> st = StatePreprepared"
  "st \<noteq> StateAcceptRequest \<Longrightarrow> st < StateCommitted \<Longrightarrow> st = StatePreprepared \<or> st = StatePrepared"
  by (cases st; simp add: less_State_def)+

lemma simulates_handlePrepare:
  assumes "handlePrepare b m src c = Some (err, c')" "current c = Some rs" "core_fullnodeSet c = Some vs"
  shows "simulates b c c'"
  using assms
proof (cases rule: handlePrepare_cases)
  case rejected
  with assms(2) show ?thesis by (simp add: simulates_same)
next
  case (counted sub)
  with assms(2) show ?thesis
    by (intro simulates_unvoted [of c rs c' "rs\<lparr>Prepares := snd (ms_Add m (Prepares rs))\<rparr>"]) simp_all
next
  case (prepared sub c1)
  let ?rs1 = "LockHash (rs\<lparr>Prepares := snd (ms_Add m (Prepares rs))\<rparr>)"
  obtain pp where pp: "Preprepare rs = Some pp" "Digest sub = Hash (pp_Proposal pp)"
    "subj_View sub = \<lparr>Round = rs_round rs, Sequence = rs_sequence rs\<rparr>" using Subject_Some [OF prepared(2)] by auto
  have cur: "current c1 = Some ?rs1" using setState_frame [OF prepared(6)] by auto
  have "Subject ?rs1 = Some sub" using prepared(2) by simp
  then obtain es where c': "c' = c1\<lparr>outbox := outbox c1 @ es\<rparr>"
    and es: "length es \<le> 1" "\<forall>e \<in> set es. commit_vote e = Some sub"
    using sendCommit_frame [OF prepared(7) cur] by auto
  have v: "votes es \<in> {[], [(v_view (abs_voter rs c), Hash (pp_Proposal pp))]}"
    using votes_one [OF es] pp by (auto simp: abs_voter_def)
  have "core_state c = StatePreprepared"
    using prepared(4,5) state_cases_below(1) by (simp add: preparedNow_def)
  then have "voter_step (b_HasBadBlockProposal b) (known_block b) (abs_voter rs c) (votes es)
      ((abs_voter rs c)\<lparr>v_lock := Hash (pp_Proposal pp), v_phase := StatePrepared\<rparr>)"
    using prepared(3) pp v by (intro voter_step.prepare) (auto simp: abs_voter_def)
  moreover have "(abs_voter ?rs1 c)\<lparr>v_phase := StatePrepared\<rparr> =
      (abs_voter rs c)\<lparr>v_lock := Hash (pp_Proposal pp), v_phase := StatePrepared\<rparr>"
    using abs_LockHash [of "rs\<lparr>Prepares := snd (ms_Add m (Prepares rs))\<rparr>" pp c] pp by simp
  ultimately show ?thesis using simulates_setState_send [OF prepared(6) c' assms(2)] deliveries_votes [OF es(2)] by simp
qed

lemma simulates_commit:
  assumes "commit b (c\<lparr>current := Some rs1\<rparr>) = Some c'" "current c = Some rs" "Preprepare rs1 = Some pp"
    and "core_state c = StatePreprepared \<or> core_state c = StatePrepared" "\<not> waitingForRoundChange c"
    and "abs_voter rs1 c = (abs_voter rs c)\<lparr>v_lock := Hash (pp_Proposal pp)\<rparr>"
    and "v_proposal (abs_voter rs c) = Some (Hash (pp_Proposal pp))"
    and "core_fullnodeSet c = Some vs" "quorum_for vs rs (pp_Proposal pp) (committedSeals rs1)"
  shows "simulates b c c'"
proof -
  let ?p = "pp_Proposal pp" and ?c = "c\<lparr>current := Some rs1\<rparr>"
  have p: "rs_BlockProposal rs1 = Some ?p" using assms(3) by (simp add: rs_BlockProposal_def)
  obtain pq bl evs c1 where c1: "c1 = ?c\<lparr>core_state := StateCommitted, pendingRequests := pq, backlogs := bl,
            outbox := outbox ?c @ map EPost evs @ [ECommit ?p (committedSeals rs1)]\<rparr>"
    and c': "c' = c1 \<or> sendNextRoundChange b (c1\<lparr>current := Some (UnlockHash rs1)\<rparr>) = Some c'"
    by (rule commit_cases [OF assms(1) _ p]) auto
  have v0: "votes (map EPost evs @ [ECommit ?p (committedSeals rs1)]) = []"
    by (simp add: votes_def List.map_filter_def commit_vote_def)
  let ?a = "abs_voter rs c"
  have ph: "\<not> v_waiting ?a" "v_phase ?a \<in> {StatePreprepared, StatePrepared}" using assms(4,5) by (auto simp: abs_voter_def)
  from c' show ?thesis
  proof
    assume eq: "c' = c1"
    have "abs_voter rs1 c' = ?a\<lparr>v_lock := Hash ?p, v_phase := StateCommitted\<rparr>"
      using assms(6) by (simp add: eq c1 abs_voter_def)
    with voter_step.commit [OF ph assms(7), of "b_HasBadBlockProposal b" "known_block b"] v0 show ?thesis
      unfolding simulates_def using assms(2,8,9)
      by (rule_tac exI [of _ rs], rule_tac exI [of _ rs1],
          rule_tac exI [of _ "map EPost evs @ [ECommit ?p (committedSeals rs1)]"])
        (auto simp: eq c1 deliveries_ok_def)
  next
    let ?rs2 = "UnlockHash rs1" and ?v = "\<lparr>Round = rs_round rs1 + 1, Sequence = rs_sequence rs1\<rparr>"
    assume nrc: "sendNextRoundChange b (c1\<lparr>current := Some ?rs2\<rparr>) = Some c'"
    obtain ws rcs t es where c'2: "c' = (c1\<lparr>current := Some ?rs2\<rparr>)\<lparr>waitingForRoundChange := True,
            current := Some (nextRoundState b ?v ws ?rs2),
            core_roundChangeSet := Some (rcs_Clear (rs_round ?rs2 + 1) rcs),
            futurePreprepareTimer := None, roundChangeTimer := Some t, outbox := outbox c1 @ es\<rparr>"
      and q: "\<forall>e \<in> set es. quiet e"
      using sendNextRoundChange_frame [OF nrc] by (auto simp: UnlockHash_def)
    have "nextRoundState b ?v ws ?rs2 = newRoundState ?v ws 0 None (pendingRequest ?rs2)"
      by (simp add: nextRoundState_def IsHashLocked_iff UnlockHash_def)
    moreover have "rs_round rs1 = rs_round rs" "rs_sequence rs1 = rs_sequence rs"
      using arg_cong [OF assms(6), of v_view] by (simp_all add: abs_voter_def)
    ultimately have "abs_voter (nextRoundState b ?v ws ?rs2) c' = ?a\<lparr>v_view := (v_view ?a)\<lparr>Round := Round (v_view ?a) + 1\<rparr>,
        v_waiting := True, v_phase := StateCommitted, v_lock := 0, v_proposal := None\<rparr>"
      by (simp add: c'2 c1 abs_voter_def)
    moreover have "votes (map EPost evs @ [ECommit ?p (committedSeals rs1)] @ es) = []"
      using v0 q by simp
    moreover have "deliveries_ok c rs (map EPost evs @ [ECommit ?p (committedSeals rs1)] @ es)"
      using assms(8,9) q by (auto simp: deliveries_ok_def quiet_def)
    ultimately show ?thesis
      unfolding simulates_def
      using voter_step.commit_failed [OF ph assms(7), of "b_HasBadBlockProposal b" "known_block b"] assms(2)
      by (intro exI [of _ rs] exI [of _ "nextRoundState b ?v ws ?rs2"]
            exI [of _ "map EPost evs @ [ECommit ?p (committedSeals rs1)] @ es"]) (simp add: c'2 c1)
  qed
qed

lemma quorum_for_Commits:
  assumes "votes_ok msgCommit (Some \<lparr>subj_View = \<lparr>Round = rs_round rs, Sequence = rs_sequence rs\<rparr>, Digest = Hash p\<rparr>) vs ms"
    and "MinApprovers vs \<le> ms_Size ms" "seals = map (\<lambda>m. copySeal (CommittedSeal m)) (ms_Values ms)"
  shows "quorum_for vs rs p seals"
  unfolding quorum_for_def
proof (intro exI [of _ "ms_Values ms"] conjI)
  have addr: "map Address (ms_Values ms) = map fst (messages ms)"
    using assms(1) by (auto simp: votes_ok_def ms_ok_def ms_Values_def)
  show "distinct (map Address (ms_Values ms))"
    using assms(1) by (simp add: addr votes_ok_def ms_ok_def distinct_keys_def)
  show "Address ` set (ms_Values ms) \<subseteq> set (fullnodes vs)"
    using assms(1) by (auto simp: votes_ok_def ms_ok_def ms_Values_def)
  show "MinApprovers vs \<le> length (ms_Values ms)" using assms(2) by (simp add: ms_Size_def ms_Values_def)
  show "\<forall>m \<in> set (ms_Values ms). Code m = msgCommit \<and> DecodeBytes item_subject (Msg m) =
      Some \<lparr>subj_View = \<lparr>Round = rs_round rs, Sequence = rs_sequence rs\<rparr>, Digest = Hash p\<rparr>"
    using assms(1) by (simp add: votes_ok_def ms_Values_def)
qed (rule assms(3))

lemma simulates_handleCommit:
  assumes "handleCommit b m src c = Some (err, c')" "current c = Some rs" "core_fullnodeSet c = Some vs"
    and "rs_ok vs rs" "Code m = msgCommit"
  shows "simulates b c c'"
  using assms(1-3)
proof (cases rule: handleCommit_cases)
  case rejected
  with assms(2) show ?thesis by (simp add: simulates_same)
next
  case (counted sub)
  with assms(2) show ?thesis
    by (intro simulates_unvoted [of c rs c' "rs\<lparr>Commits := snd (ms_Add m (Commits rs))\<rparr>"]) simp_all
next
  case (committed sub)
  let ?rs1 = "LockHash (rs\<lparr>Commits := snd (ms_Add m (Commits rs))\<rparr>)"
  obtain pp where pp: "Preprepare rs = Some pp" using Subject_Some [OF committed(2)] by auto
  have "abs_voter ?rs1 c = (abs_voter rs c)\<lparr>v_lock := Hash (pp_Proposal pp)\<rparr>"
    using abs_LockHash [of "rs\<lparr>Commits := snd (ms_Add m (Commits rs))\<rparr>" pp c] pp by simp
  moreover have "quorum_for vs rs (pp_Proposal pp) (committedSeals ?rs1)"
  proof (rule quorum_for_Commits)
    have "votes_ok msgCommit (Some sub) vs (snd (ms_Add m (Commits rs)))"
      using assms(4,5) committed(1,2) by (intro votes_ok_Add) (auto simp: rs_ok_def)
    moreover have "sub = \<lparr>subj_View = \<lparr>Round = rs_round rs, Sequence = rs_sequence rs\<rparr>, Digest = Hash (pp_Proposal pp)\<rparr>"
      using committed(2) pp by (simp add: Subject_def)
    ultimately show "votes_ok msgCommit (Some \<lparr>subj_View = \<lparr>Round = rs_round rs, Sequence = rs_sequence rs\<rparr>,
        Digest = Hash (pp_Proposal pp)\<rparr>) vs (snd (ms_Add m (Commits rs)))" by simp
    show "MinApprovers vs \<le> ms_Size (snd (ms_Add m (Commits rs)))" by (rule committed(6))
  qed (simp add: committedSeals_def)
  ultimately show ?thesis
    using simulates_commit [OF committed(7) assms(2), of pp vs] pp committed(3) assms(3)
      state_cases_below(2) [OF committed(4,5)] by (simp add: abs_voter_def)
qed

lemma simulates_handleRoundChange:
  assumes "handleRoundChange b m src c = Some (err, c')" "current c = Some rs" "core_fullnodeSet c = Some vs"
    "core_roundChangeSet c = Some rcs"
  shows "simulates b c c'"
  using assms
proof (cases rule: handleRoundChange_cases)
  case rejected
  with assms(2) show ?thesis by (simp add: simulates_same)
next
  case counted
  with simulates_invisible [OF simulates_same [OF assms(2)]] show ?thesis by simp
next
  case (catchUp r)
  have "simulates b (c\<lparr>core_roundChangeSet := Some (snd (rcs_Add r m rcs))\<rparr>) c'"
    using assms(2) by (intro simulates_sendRoundChange [OF catchUp(4)]) simp
  then show ?thesis by (rule simulates_invisible_before) simp_all
next
  case (newRound r)
  have "simulates b (c\<lparr>core_roundChangeSet := Some (snd (rcs_Add r m rcs))\<rparr>) c'"
    using assms(2) newRound(2) by (intro simulates_startNewRound [OF newRound(4)]) auto
  then show ?thesis by (rule simulates_invisible_before) simp_all
qed

lemma simulates_handleCheckedMsg:
  assumes "handleCheckedMsg b m src c = Some (err, c')" "live c"
  shows "simulates b c c'"
proof -
  from assms(2) obtain rs vs rcs where l: "current c = Some rs" "core_fullnodeSet c = Some vs"
    "core_roundChangeSet c = Some rcs" "rs_ok vs rs" by (rule live_facts)
  from assms(1) show ?thesis
  proof (cases rule: handleCheckedMsg_cases)
    case unknown
    with l(1) show ?thesis by (simp add: simulates_same)
  next
    case (handled c1)
    from handled(2) l have s: "simulates b c c1"
      by (auto intro: simulates_handlePreprepare simulates_handlePrepare simulates_handleCommit simulates_handleRoundChange)
    obtain bl where "storeBacklog b m src c1 = c1\<lparr>backlogs := bl\<rparr>" using storeBacklog_frame by blast
    with simulates_invisible [OF s, of "c1\<lparr>backlogs := bl\<rparr>"] s handled(1) show ?thesis by auto
  qed
qed

lemma simulates_handleMsg:
  assumes "handleMsg b payload c = Some (err, c')" "live c"
  shows "simulates b c c'"
  using assms(1)
proof (cases rule: handleMsg_cases)
  case rejected
  with assms(2) show ?thesis by (auto simp: live_def intro: simulates_same)
next
  case checked
  with assms(2) show ?thesis by (blast intro: simulates_handleCheckedMsg)
qed

lemma simulates_handleTimeoutMsg:
  assumes "handleTimeoutMsg b c = Some c'" "current c = Some rs"
  shows "simulates b c c'"
  using assms(1)
  by (cases rule: handleTimeoutMsg_cases)
    (use assms(2) simulates_sendRoundChange simulates_sendNextRoundChange simulates_startNewRound in blast)+

lemma simulates_handleRequest:
  assumes "handleRequest b r c = Some (err, c')" "current c = Some rs"
  shows "simulates b c c'"
proof -
  let ?c = "c\<lparr>current := Some (rs\<lparr>pendingRequest := Some r\<rparr>)\<rparr>"
  have s: "simulates b c ?c"
    using assms(2) by (intro simulates_unvoted [of c rs ?c "rs\<lparr>pendingRequest := Some r\<rparr>"]) simp_all
  have "c' = c \<or> c' = ?c \<or> sendPreprepare b r ?c = Some c'"
    using assms by (auto simp: handleRequest_def bind_Some split: option.splits if_splits)
  moreover have "simulates b c c'" if send: "sendPreprepare b r ?c = Some c'"
  proof -
    obtain es where c': "c' = ?c\<lparr>outbox := outbox ?c @ es\<rparr>" "\<forall>e \<in> set es. quiet e"
      using sendPreprepare_frame [OF send] by blast
    then show ?thesis
      using assms(2)
      by (intro simulates_quiet [of c rs c' "rs\<lparr>pendingRequest := Some r\<rparr>" es])
        (simp_all add: abs_voter_def voter_step.stutter)
  qed
  ultimately show ?thesis using s assms(2) by (auto intro: simulates_same)
qed

lemma simulates_handleEvent:
  assumes "live c" "handleEvent b ev c = Some c'"
  shows "simulates b c c'"
proof -
  from assms(1) obtain rs where rs: "current c = Some rs" by (rule live_facts)
  show ?thesis
  proof (cases ev)
    case (RequestEvent bp)
    with assms(2) obtain p err c1 where h: "handleRequest b (Some p) c = Some (err, c1)"
      "c' = c1 \<or> c' = storeRequestMsg p c1" by (auto simp: handleEvent_def bind_Some)
    from simulates_handleRequest [OF h(1) rs] have s: "simulates b c c1" .
    with h(2) simulates_invisible [OF s, of "storeRequestMsg p c1"] show ?thesis by (auto simp: storeRequestMsg_def)
  next
    case (MessageEvent payload)
    with assms show ?thesis
      by (auto simp: handleEvent_def bind_Some intro: simulates_emit simulates_handleMsg split: if_splits)
  next
    case (backlogEvent src m)
    with assms show ?thesis
      by (auto simp: handleEvent_def bind_Some intro: simulates_emit simulates_handleCheckedMsg
          split: if_splits option.splits)
  next
    case timeoutEvent
    with assms(2) rs simulates_handleTimeoutMsg show ?thesis by (auto simp: handleEvent_def)
  next
    case FinalCommittedEvent
    with assms(2) rs show ?thesis
      by (auto simp: handleEvent_def handleFinalCommitted_def intro: simulates_startNewRound)
  qed
qed

end
