(* ===== verification/Core_Demo.thy ===== *)
theory Core_Demo
  imports Core_Refine
begin

text \<open>
  A concrete backend and runs of the core against it, at which the properties of the core are
  instantiated: a chain whose head is block 0, a set of fullnodes given as a list, a node with
  address 1, and a signature scheme that signs everything with one byte.
\<close>

definition demo_set :: "address list \<Rightarrow> fullnodeSet" where
  "demo_set ns = \<lparr>fullnodes = ns, policy = 0, speaker = Some 1\<rparr>"

definition demo_block :: "int \<Rightarrow> hash \<Rightarrow> proposal" where
  "demo_block n h = \<lparr>Number = n, Hash = h, ParentHash = 0, Content = Str []\<rparr>"

definition demo_block_item :: "proposal \<Rightarrow> rlp option" where
  "demo_block_item p =
     (case (bigInt_item (Number p), array_item 32 (Hash p)) of
        (Some n, Some h) \<Rightarrow> Some (Lst [n, h]) | _ \<Rightarrow> None)"

fun demo_item_block :: "rlp \<Rightarrow> proposal option" where
  "demo_item_block (Lst [n, h]) =
     (case (item_bigInt n, item_array 32 h) of
        (Some n, Some h) \<Rightarrow> Some (demo_block n h) | _ \<Rightarrow> None)"
| "demo_item_block _ = None"

definition demo_codec :: block_codec where
  "demo_codec = \<lparr>block_item = demo_block_item, item_block = demo_item_block\<rparr>"

definition demo_backend :: "address list \<Rightarrow> backend" where
  "demo_backend ns =
     \<lparr>b_Address = 1, b_Fullnodes = (\<lambda>_. demo_set ns), b_ParentFullnodes = (\<lambda>_. demo_set ns),
      b_Commit = (\<lambda>_ _. None), b_Verify = (\<lambda>_. (0, None)), b_Sign = (\<lambda>_. Inr [7]),
      b_LastBlockProposal = (Some (demo_block 0 0), 0), b_HasBlockProposal = (\<lambda>_ _. False),
      b_GetSpeaker = (\<lambda>_. 0), b_HasBadBlockProposal = (\<lambda>_. False),
      b_crypto = \<lparr>Keccak256 = (\<lambda>_. []), SigToAddress = (\<lambda>_ _. Some 1)\<rparr>, b_codec = demo_codec,
      b_f2i_overflow = 0\<rparr>"

definition demo_msg :: "uint64 \<Rightarrow> address \<Rightarrow> int \<Rightarrow> hash \<Rightarrow> message" where
  "demo_msg code a r h =
     \<lparr>Code = code, Msg = the (EncodeToBytes subject_item \<lparr>subj_View = \<lparr>Round = r, Sequence = 1\<rparr>, Digest = h\<rparr>),
      Address = a, Signature = [], CommittedSeal = [of_nat (unat a)]\<rparr>"

definition demo_preprepare :: "hash \<Rightarrow> message" where
  "demo_preprepare h =
     \<lparr>Code = msgPreprepare,
      Msg = the (EncodeToBytes (preprepare_item demo_codec)
        \<lparr>pp_View = \<lparr>Round = 0, Sequence = 1\<rparr>, pp_Proposal = demo_block 1 h\<rparr>),
      Address = 1, Signature = [], CommittedSeal = []\<rparr>"

primrec run_events :: "backend \<Rightarrow> event list \<Rightarrow> core \<Rightarrow> core option" where
  "run_events b [] c = Some c"
| "run_events b (ev # evs) c = do { c \<leftarrow> handleEvent b ev c; run_events b evs c }"

definition demo_run :: "address list \<Rightarrow> event list \<Rightarrow> core option" where
  "demo_run ns evs = do {
     c \<leftarrow> Start (demo_backend ns) (New (demo_backend ns) DefaultConfig);
     run_events (demo_backend ns) evs c }"

text \<open>
  Three runs: one PREPARE short of a quorum, locked after it, and one COMMIT short of a quorum; and
  a round change that lacks one message.
\<close>

definition demo_preparing :: "event list" where
  "demo_preparing =
     [backlogEvent 1 (demo_preprepare 9), backlogEvent 2 (demo_msg msgPrepare 2 0 9),
      backlogEvent 3 (demo_msg msgPrepare 3 0 9)]"

definition demo_prepared :: "event list" where
  "demo_prepared = demo_preparing @ [backlogEvent 4 (demo_msg msgPrepare 4 0 9)]"

definition demo_committing :: "hash \<Rightarrow> event list" where
  "demo_committing h =
     [backlogEvent 1 (demo_preprepare h), backlogEvent 2 (demo_msg msgCommit 2 0 h),
      backlogEvent 3 (demo_msg msgCommit 3 0 h)]"

definition demo_changing :: "address list \<Rightarrow> event list" where
  "demo_changing ns = timeoutEvent # map (\<lambda>a. backlogEvent a (demo_msg msgRoundChange a 1 0)) ns"

text \<open>
  What is read off these runs. The arguments are matched on their constructors, so that the
  evaluator unfolds the checks only on computed states.
\<close>

abbreviation demo4 :: backend where
  "demo4 \<equiv> demo_backend [1, 2, 3, 4]"

abbreviation new_effects :: "core \<Rightarrow> core \<Rightarrow> effect list" where
  "new_effects c c' \<equiv> drop (length (outbox c)) (outbox c')"

fun demo_vote_ok :: "core \<Rightarrow> roundState option \<Rightarrow> core option \<Rightarrow> bool" where
  "demo_vote_ok c (Some rs) (Some c') \<longleftrightarrow>
     votes (new_effects c c') = [(\<lparr>Round = 0, Sequence = 1\<rparr>, 9)]"
| "demo_vote_ok _ _ _ \<longleftrightarrow> False"

fun demo_lock_ok :: "roundState option \<Rightarrow> core option \<Rightarrow> bool" where
  "demo_lock_ok (Some rs) (Some c') \<longleftrightarrow> lockedHash rs = 9 \<and> rs_sequence rs = 1"
| "demo_lock_ok _ _ \<longleftrightarrow> False"

fun demo_commit_ok :: "hash \<Rightarrow> core \<Rightarrow> roundState option \<Rightarrow> fullnodeSet option \<Rightarrow> core option \<Rightarrow> bool" where
  "demo_commit_ok h c (Some rs) (Some vs) (Some c') \<longleftrightarrow>
     rs_round rs = 0 \<and> rs_sequence rs = 1 \<and> fullnodes vs = [1, 2, 3, 4] \<and> \<not> waitingForRoundChange c \<and>
     core_state c = StatePreprepared \<and> DecodeBytes item_subject (Msg (demo_msg msgCommit 4 0 h)) = Subject rs \<and>
     3 \<le> ms_Size (snd (ms_Add (demo_msg msgCommit 4 0 h) (Commits rs))) \<and>
     ECommit (demo_block 1 h) (map (\<lambda>i. i # replicate 64 0) [2, 3, 4]) \<in> set (new_effects c c')"
| "demo_commit_ok _ _ _ _ _ \<longleftrightarrow> False"

fun demo_change_ok :: "address list \<Rightarrow> core \<Rightarrow> roundState option \<Rightarrow> fullnodeSet option \<Rightarrow> roundChangeSet option \<Rightarrow> bool" where
  "demo_change_ok ns c (Some rs) (Some vs) (Some rcs) \<longleftrightarrow>
     rs_round rs = 1 \<and> rs_sequence rs = 1 \<and> fullnodes vs = ns \<and> waitingForRoundChange c \<and>
     fst (rcs_Add 1 (demo_msg msgRoundChange (last ns) 1 0) rcs) = Inr (length ns - 1) \<and>
     checkMessage msgRoundChange \<lparr>Round = 1, Sequence = 1\<rparr> c = Some None"
| "demo_change_ok _ _ _ _ _ \<longleftrightarrow> False"

lemma case_option_ex: "(case x of None \<Rightarrow> False | Some c \<Rightarrow> P c) \<Longrightarrow> \<exists>c. x = Some c \<and> P c"
  by (cases x) auto

lemma demo_vote:
  "\<exists>c. demo_run [1, 2, 3, 4] demo_preparing = Some c \<and>
     demo_vote_ok c (current c) (handleEvent demo4 (backlogEvent 4 (demo_msg msgPrepare 4 0 9)) c)"
  by (rule case_option_ex) code_simp

lemma demo_lock:
  "\<exists>c. demo_run [1, 2, 3, 4] demo_prepared = Some c \<and>
     demo_lock_ok (current c) (handleEvent demo4 (backlogEvent 2 (demo_msg msgCommit 2 0 9)) c)"
  by (rule case_option_ex) code_simp

lemma demo_commit:
  "\<exists>c. demo_run [1, 2, 3, 4] (demo_committing h) = Some c \<and>
     demo_commit_ok h c (current c) (core_fullnodeSet c) (handleEvent demo4 (backlogEvent 4 (demo_msg msgCommit 4 0 h)) c)"
  if "h = 8 \<or> h = 9"
  using that by (elim disjE; simp only:; intro case_option_ex; code_simp)

lemma demo_change:
  "\<exists>c. demo_run [1, 2, 3, 4] (demo_changing [2, 3]) = Some c \<and>
     demo_change_ok [1, 2, 3, 4] c (current c) (core_fullnodeSet c) (core_roundChangeSet c)"
  by (rule case_option_ex) code_simp

lemma demo_change_three:
  "\<exists>c. demo_run [1, 2, 3] (demo_changing [2]) = Some c \<and>
     demo_change_ok [1, 2, 3] c (current c) (core_fullnodeSet c) (core_roundChangeSet c)"
  by (rule case_option_ex) code_simp

lemma demo_change_body:
  "DecodeBytes item_subject (Msg (demo_msg msgRoundChange 4 1 0)) =
     Some \<lparr>subj_View = \<lparr>Round = 1, Sequence = 1\<rparr>, Digest = 0\<rparr>"
  by code_simp

lemma run_events_reachable: "run_events b evs c = Some c' \<Longrightarrow> live c \<Longrightarrow> reachable c \<Longrightarrow> reachable c' \<and> live c'"
proof (induction evs arbitrary: c)
  case (Cons ev evs)
  then obtain c1 where c1: "handleEvent b ev c = Some c1" "run_events b evs c1 = Some c'" by (auto simp: bind_Some)
  have "core_step c c1" using Cons.prems(2) c1(1) by (auto intro: core_step.event simp: live_def)
  then have "reachable c1" using Cons.prems(3) unfolding reachable_def by (meson rtranclp.rtrancl_into_rtrancl)
  with Cons.IH [OF c1(2)] live_handleEvent [OF Cons.prems(2) c1(1)] show ?case by blast
qed simp

lemma demo_run_reachable:
  assumes "demo_run ns evs = Some c"
  shows "reachable c" "live c"
proof -
  obtain c0 where c0: "Start (demo_backend ns) (New (demo_backend ns) DefaultConfig) = Some c0"
    "run_events (demo_backend ns) evs c0 = Some c" using assms by (auto simp: demo_run_def bind_Some)
  have "core_step (New (demo_backend ns) DefaultConfig) c0" using c0(1) by (intro core_step.start) (simp_all add: New_def)
  then have "reachable c0" unfolding reachable_def by blast
  moreover have "live c0" using c0(1) live_startNewRound [OF core_inv_New] by (simp add: Start_def)
  ultimately show "reachable c" "live c" using run_events_reachable [OF c0(2)] by auto
qed

text \<open>The effects of an event are appended to the outbox.\<close>

lemma new_effects: "live c \<Longrightarrow> handleEvent b ev c = Some c' \<Longrightarrow> outbox c' = outbox c @ new_effects c c'"
  using simulates_handleEvent [of c b ev c'] by (auto simp: simulates_def)

end
