(* ===== verification/Core_Props.thy ===== *)
theory Core_Props
  imports Core_Demo
begin











subsection \<open>Safety of one node\<close>

text \<open>
  C4. In every reachable state of the core no event makes a handler panic: a stopped core can be
  started, and a started core handles every event and stays started, except a request without a
  block; the chain must have a last block.
\<close>
theorem core_never_panics:
  assumes "reachable c" "fst (b_LastBlockProposal b) \<noteq> None"
  shows "if current c = None then \<exists>c'. Start b c = Some c' \<and> current c' \<noteq> None
         else \<forall>ev. ev \<noteq> RequestEvent None \<longrightarrow> (\<exists>c'. handleEvent b ev c = Some c' \<and> current c' \<noteq> None)"
proof (cases "current c = None")
  case True
  have "Start b c \<noteq> None"
    using True assms startNewRound_total [of c b 0] reachable_inv [OF assms(1)] by (simp add: Start_def core_inv_def)
  then obtain c' where c': "Start b c = Some c'" by auto
  then have "live c'" using live_startNewRound [OF reachable_inv [OF assms(1)]] by (simp add: Start_def)
  with c' True show ?thesis by (auto simp: live_def)
next
  case False
  have l: "live c" using reachable_live [OF assms(1) False] .
  have "\<exists>c'. handleEvent b ev c = Some c' \<and> current c' \<noteq> None" if "ev \<noteq> RequestEvent None" for ev
    using total_handleEvent [OF l assms(2) that] live_handleEvent [OF l] by (auto simp: live_def)
  with False show ?thesis by auto
qed

theorem core_never_panics_witness:
  "\<exists>c. demo_run [1, 2, 3, 4] demo_preparing = Some c \<and> (\<exists>c'. handleEvent demo4 timeoutEvent c = Some c' \<and> current c' \<noteq> None)"
proof -
  obtain c where c: "demo_run [1, 2, 3, 4] demo_preparing = Some c" using demo_vote by blast
  note r = demo_run_reachable [OF c]
  have "\<forall>ev. ev \<noteq> RequestEvent None \<longrightarrow> (\<exists>c'. handleEvent demo4 ev c = Some c' \<and> current c' \<noteq> None)"
    using core_never_panics [OF r(1), of demo4] r(2) by (simp add: demo_backend_def live_def split: if_splits)
  with c show ?thesis by blast
qed

text \<open>
  C5. Every event the core handles is a run of steps of the abstract voter: what the core does to
  its view, lock and state, and the COMMIT votes it broadcasts, is allowed by the voting rules.
\<close>
theorem core_refines_voter:
  assumes "reachable c" "current c = Some rs" "handleEvent b ev c = Some c'"
  shows "\<exists>rs' es. current c' = Some rs' \<and> outbox c' = outbox c @ es \<and>
           voter_step (b_HasBadBlockProposal b) (known_block b) (abs_voter rs c) (votes es) (abs_voter rs' c')"
  using simulates_handleEvent [OF reachable_live [OF assms(1)] assms(3)] assms(2) by (auto simp: simulates_def)

theorem core_refines_voter_witness:
  "\<exists>c rs c' rs' es. demo_run [1, 2, 3, 4] demo_preparing = Some c \<and> current c = Some rs \<and>
     handleEvent demo4 (backlogEvent 4 (demo_msg msgPrepare 4 0 9)) c = Some c' \<and> current c' = Some rs' \<and>
     outbox c' = outbox c @ es \<and>
     voter_step (b_HasBadBlockProposal demo4) (known_block demo4) (abs_voter rs c) (votes es) (abs_voter rs' c')"
proof -
  obtain c rs c' where c: "demo_run [1, 2, 3, 4] demo_preparing = Some c" "current c = Some rs"
    "handleEvent demo4 (backlogEvent 4 (demo_msg msgPrepare 4 0 9)) c = Some c'"
    using demo_vote by (auto elim!: demo_vote_ok.elims)
  from core_refines_voter [OF demo_run_reachable(1) [OF c(1)] c(2,3)] c show ?thesis by blast
qed



text \<open>
  C7. No event moves the view of the core back: the sequence number grows, or it stays and the round
  does not decrease.
\<close>
theorem view_never_moves_back:
  assumes "reachable c" "current c = Some rs" "handleEvent b ev c = Some c'"
  shows "\<exists>rs'. current c' = Some rs' \<and>
           (rs_sequence rs < rs_sequence rs' \<or> rs_sequence rs = rs_sequence rs' \<and> rs_round rs \<le> rs_round rs')"
proof -
  obtain rs' es where s: "current c' = Some rs'"
    "voter_step (b_HasBadBlockProposal b) (known_block b) (abs_voter rs c) (votes es) (abs_voter rs' c')"
    using simulates_handleEvent [OF reachable_live [OF assms(1)] assms(3)] assms(2) by (auto simp: simulates_def)
  show ?thesis using voter_view_mono [OF s(2)] s(1) by (auto simp: abs_voter_def)
qed

theorem view_never_moves_back_witness:
  "\<exists>c rs c' rs'. demo_run [1, 2, 3, 4] demo_preparing = Some c \<and> current c = Some rs \<and>
     handleEvent demo4 (backlogEvent 4 (demo_msg msgPrepare 4 0 9)) c = Some c' \<and> current c' = Some rs' \<and>
     (rs_sequence rs < rs_sequence rs' \<or> rs_sequence rs = rs_sequence rs' \<and> rs_round rs \<le> rs_round rs')"
proof -
  obtain c rs c' where c: "demo_run [1, 2, 3, 4] demo_preparing = Some c" "current c = Some rs"
    "handleEvent demo4 (backlogEvent 4 (demo_msg msgPrepare 4 0 9)) c = Some c'"
    using demo_vote by (auto elim!: demo_vote_ok.elims)
  from view_never_moves_back [OF demo_run_reachable(1) [OF c(1)] c(2,3)] c show ?thesis by blast
qed






subsection \<open>Agreement\<close>






subsection \<open>Progress\<close>

lemma handleCommit_delivers:
  assumes "live c" "current c = Some rs" "core_fullnodeSet c = Some vs"
    and "DecodeBytes item_subject (Msg m) = Some sub" "checkMessage msgCommit (subj_View sub) c = Some None"
    and "Subject rs = Some sub" "MinApprovers vs \<le> ms_Size (snd (ms_Add m (Commits rs)))" "core_state c < StateCommitted"
    and "Code m = msgCommit" "Preprepare rs = Some pp"
  shows "\<exists>c' es seals. handleCommit b m src c = Some (None, c') \<and> outbox c' = outbox c @ es \<and>
           ECommit (pp_Proposal pp) seals \<in> set es \<and> core_fullnodeSet c' \<noteq> None"
proof -
  let ?rs = "LockHash (rs\<lparr>Commits := snd (ms_Add m (Commits rs))\<rparr>)"
  let ?c = "c\<lparr>current := Some ?rs\<rparr>"
  have p: "rs_BlockProposal ?rs = Some (pp_Proposal pp)" using assms(10) by (simp add: rs_BlockProposal_def LockHash_def)
  have "queues_ok c" "core_roundChangeSet c \<noteq> None" using assms(1) by (auto elim: live_facts)
  then obtain c1 where c1: "commit b ?c = Some c1"
    using commit_total [of ?c b] assms(3) by (auto simp: queues_ok_def)
  have h: "handleCommit b m src c = Some (None, c1)"
    using handleCommit_accepts [OF assms(4,5,2,6,3)] assms(7,8) c1 by simp
  obtain pq bl evs c2 where c2: "c2 = ?c\<lparr>core_state := StateCommitted, pendingRequests := pq, backlogs := bl,
      outbox := outbox c @ map EPost evs @ [ECommit (pp_Proposal pp) (committedSeals ?rs)]\<rparr>"
    "c1 = c2 \<or> sendNextRoundChange b (c2\<lparr>current := Some (UnlockHash ?rs)\<rparr>) = Some c1"
    by (rule commit_cases [OF c1 _ p]) auto
  have "\<exists>fs. outbox c1 = outbox c2 @ fs"
    using c2(2) sendNextRoundChange_frame by fastforce
  moreover have "live c1" using live_handleCommit [OF assms(1) h assms(9)] .
  ultimately show ?thesis using h c2(1) by (auto elim!: live_facts)
qed

text \<open>
  C11. Once a COMMIT message for the current proposal completes a quorum in a core that has accepted
  or prepared the proposal, handling it delivers the block.
\<close>
theorem commit_quorum_delivers:
  assumes "reachable c" "current c = Some rs" "core_fullnodeSet c = Some vs" "\<not> waitingForRoundChange c"
    and "core_state c = StatePreprepared \<or> core_state c = StatePrepared"
    and "Code m = msgCommit" "DecodeBytes item_subject (Msg m) = Subject rs"
    and "MinApprovers vs \<le> ms_Size (snd (ms_Add m (Commits rs)))"
  shows "\<exists>c' es pp seals. handleEvent b (backlogEvent src m) c = Some c' \<and> outbox c' = outbox c @ es \<and>
           Preprepare rs = Some pp \<and> ECommit (pp_Proposal pp) seals \<in> set es"
proof -
  have l: "live c" using reachable_live [OF assms(1)] assms(2) by simp
  have "phase_ok (waitingForRoundChange c) (core_state c) rs" using l assms(2) by (auto elim: live_facts)
  then obtain pp where pp: "Preprepare rs = Some pp" using assms(4,5) by (auto simp: phase_ok_def)
  then obtain sub where sub: "Subject rs = Some sub" "subj_View sub = \<lparr>Round = rs_round rs, Sequence = rs_sequence rs\<rparr>"
    using that by (simp add: Subject_def)
  have chk: "checkMessage msgCommit (subj_View sub) c = Some None" and st: "core_state c < StateCommitted"
    using sub(2) assms(2,4,5) by (auto simp: checkMessage_def currentView_def msg_codes less_State_def)
  obtain c' es seals where h: "handleCommit b m src c = Some (None, c')" "outbox c' = outbox c @ es"
    "ECommit (pp_Proposal pp) seals \<in> set es" "core_fullnodeSet c' \<noteq> None"
    using handleCommit_delivers [OF l assms(2,3) _ chk sub(1) assms(8) st assms(6) pp, of b src] assms(7) sub(1) by auto
  have "handleCheckedMsg b m src c = Some (None, c')"
    using h(1) assms(6) by (simp add: handleCheckedMsg_def testBacklog_def msg_codes)
  with h(2-4) pp show ?thesis
    by (cases "Payload m") (auto simp: handleEvent_def emit_def)
qed

theorem commit_quorum_delivers_witness:
  "\<exists>c c' es p seals. demo_run [1, 2, 3, 4] (demo_committing 9) = Some c \<and>
     handleEvent demo4 (backlogEvent 4 (demo_msg msgCommit 4 0 9)) c = Some c' \<and> outbox c' = outbox c @ es \<and>
     ECommit p seals \<in> set es"
proof -
  obtain c rs vs where c: "demo_run [1, 2, 3, 4] (demo_committing 9) = Some c" "current c = Some rs"
    "core_fullnodeSet c = Some vs" "\<not> waitingForRoundChange c" "core_state c = StatePreprepared" "fullnodes vs = [1, 2, 3, 4]"
    "DecodeBytes item_subject (Msg (demo_msg msgCommit 4 0 9)) = Subject rs"
    "3 \<le> ms_Size (snd (ms_Add (demo_msg msgCommit 4 0 9) (Commits rs)))"
    using demo_commit [of 9] by (auto elim!: demo_commit_ok.elims)
  have "MinApprovers vs = 3" using c(6) by (simp add: MinApprovers_def Size_def ceil_div_def)
  moreover have "Code (demo_msg msgCommit 4 0 9) = msgCommit" by (simp add: demo_msg_def)
  ultimately show ?thesis
    using commit_quorum_delivers [OF demo_run_reachable(1) [OF c(1)] c(2-4) _ _ c(7), of demo4 4] c(1,5,8) by auto
qed

text \<open>A waiting node and the thresholds of a round change.\<close>

lemma round_change_thresholds: "MinApprovers vs = MaxFaulty vs + E vs \<longleftrightarrow> Size vs = 1 \<or> Size vs = 3"
proof -
  obtain q r where qr: "Size vs = 3 * q + r" "r < 3" "r = Size vs mod 3" "q = Size vs div 3"
    by (metis mult_div_mod_eq mod_less_divisor zero_less_numeral)
  then have "r = 0 \<or> r = 1 \<or> r = 2" by linarith
  then show ?thesis
    using qr(1) unfolding MinApprovers_split MaxFaulty_div E_def qr(3,4) [symmetric] by auto
qed


lemma handleRoundChange_count:
  assumes "DecodeBytes item_subject (Msg m) = Some rc" "checkMessage msgRoundChange (subj_View rc) c = Some None"
    "current c = Some rs" "core_fullnodeSet c = Some vs" "core_roundChangeSet c = Some rcs"
    "rcs_Add (Round (subj_View rc)) m rcs = (Inr n, rcs')" "waitingForRoundChange c"
  defines "c1 \<equiv> c\<lparr>core_roundChangeSet := Some rcs'\<rparr>" and "r \<equiv> Round (subj_View rc)"
  shows "handleRoundChange b m src c =
    (if n = MaxFaulty vs + E vs then
       (if rs_round rs < r then map_option (Pair None) (sendRoundChange b r c1) else Some (None, c1))
     else if n = MinApprovers vs then map_option (Pair None) (startNewRound b r c1)
     else Some (if rs_round rs < r then Some errIgnored else None, c1))"
  using assms(1-7) unfolding c1_def r_def
  by (simp add: handleRoundChange_def currentView_def map_option_case Option.bind_def split: option.split)


lemma handleRoundChange_uncounted:
  assumes "handleRoundChange b m src c = Some (err, c')" "core_roundChangeSet c = Some rcs"
    and "\<And>rc n rcs'. DecodeBytes item_subject (Msg m) = Some rc \<Longrightarrow>
      checkMessage msgRoundChange (subj_View rc) c = Some None \<Longrightarrow> rcs_Add (Round (subj_View rc)) m rcs \<noteq> (Inr n, rcs')"
  shows "\<exists>rcs'. c' = c\<lparr>core_roundChangeSet := rcs'\<rparr>"
proof (cases "DecodeBytes item_subject (Msg m)")
  case None
  with assms show ?thesis by (intro exI [of _ "core_roundChangeSet c"]) (simp add: handleRoundChange_def)
next
  case (Some rc)
  obtain e where e: "checkMessage msgRoundChange (subj_View rc) c = Some e"
    using assms(1) Some by (auto simp: handleRoundChange_def bind_Some)
  show ?thesis
  proof (cases e)
    case (Some x)
    with assms e \<open>_ = Some rc\<close> show ?thesis
      by (intro exI [of _ "core_roundChangeSet c"]) (simp add: handleRoundChange_def)
  next
    case None
    with assms(3) [OF Some] e obtain x rcs' where "rcs_Add (Round (subj_View rc)) m rcs = (Inl x, rcs')"
      by (metis old.sum.exhaust surj_pair)
    with assms Some e None show ?thesis by (auto simp: handleRoundChange_def bind_Some)
  qed
qed



text \<open>
  C13. With one or three fullnodes the condition on the number of ROUND CHANGE messages that starts
  a round is never the first to hold: a node that waits for a round change still waits after every
  ROUND CHANGE message.
\<close>
theorem round_change_stuck:
  assumes "reachable c" "current c = Some rs" "core_fullnodeSet c = Some vs" "Size vs = 1 \<or> Size vs = 3"
    and "waitingForRoundChange c" "handleRoundChange b m src c = Some (err, c')"
  shows "waitingForRoundChange c'"
proof -
  have l: "live c" using reachable_live [OF assms(1)] assms(2) by simp
  then obtain rcs where rcs: "core_roundChangeSet c = Some rcs" by (auto elim: live_facts)
  have eq: "MinApprovers vs = MaxFaulty vs + E vs" using round_change_thresholds assms(4) by simp
  have keep: "waitingForRoundChange d'" if "sendRoundChange b r d = Some d'" "waitingForRoundChange d" "current d = Some rs" for r d d'
    using that sendRoundChange_same [OF that(3), of r b] sendRoundChange_frame [OF that(1,3)]
    by (cases "r \<le> rs_round rs") auto
  show ?thesis
  proof (cases "\<exists>rc n rcs'. DecodeBytes item_subject (Msg m) = Some rc \<and>
      checkMessage msgRoundChange (subj_View rc) c = Some None \<and> rcs_Add (Round (subj_View rc)) m rcs = (Inr n, rcs')")
    case True
    then obtain rc n rcs' where "DecodeBytes item_subject (Msg m) = Some rc"
      "checkMessage msgRoundChange (subj_View rc) c = Some None" "rcs_Add (Round (subj_View rc)) m rcs = (Inr n, rcs')" by blast
    from handleRoundChange_count [OF this(1,2) assms(2,3) rcs this(3) assms(5)] assms(2,5,6) eq show ?thesis
      by (auto split: if_splits intro: keep)
  next
    case False
    then obtain rcs' where "c' = c\<lparr>core_roundChangeSet := rcs'\<rparr>"
      using handleRoundChange_uncounted [OF assms(6) rcs] by blast
    with assms(5) show ?thesis by simp
  qed
qed

theorem round_change_stuck_witness:
  "\<exists>c c' err vs rcs. demo_run [1, 2, 3] (demo_changing [2]) = Some c \<and> core_fullnodeSet c = Some vs \<and>
     core_roundChangeSet c = Some rcs \<and>
     fst (rcs_Add 1 (demo_msg msgRoundChange 3 1 0) rcs) = Inr (MinApprovers vs) \<and>
     handleRoundChange (demo_backend [1, 2, 3]) (demo_msg msgRoundChange 3 1 0) 3 c = Some (err, c') \<and> waitingForRoundChange c'"
proof -
  obtain c rs vs rcs where c: "demo_run [1, 2, 3] (demo_changing [2]) = Some c" "current c = Some rs"
    "core_fullnodeSet c = Some vs" "fullnodes vs = [1, 2, 3]" "waitingForRoundChange c"
    "core_roundChangeSet c = Some rcs" "fst (rcs_Add 1 (demo_msg msgRoundChange 3 1 0) rcs) = Inr 2"
    using demo_change_three by (auto elim!: demo_change_ok.elims)
  have s: "Size vs = 3" "MinApprovers vs = 2" using c(4) by (simp_all add: MinApprovers_def Size_def ceil_div_def)
  obtain err c' where h: "handleRoundChange (demo_backend [1, 2, 3]) (demo_msg msgRoundChange 3 1 0) 3 c = Some (err, c')"
    using total_handleRoundChange [OF demo_run_reachable(2) [OF c(1)], of "demo_backend [1, 2, 3]" "demo_msg msgRoundChange 3 1 0" 3]
    by (auto simp: demo_backend_def)
  from round_change_stuck [OF demo_run_reachable(1) [OF c(1)] c(2,3) _ c(5) h] s c h show ?thesis by auto
qed

end
