(* ===== verification/Core_Checks.thy ===== *)
theory Core_Checks
  imports Core_Demo
begin

text \<open>
  The wire format of the consensus messages, the checks a message passes before it is handled, the
  priorities of the backlog and the timeout of a round.
\<close>

subsection \<open>The wire format\<close>

text \<open>
  C14. Decoding inverts encoding for every item whose encoding is shorter than 2^64 bytes, and the
  decoder accepts an item only in its canonical form: encoding what was decoded gives the same
  bytes.
\<close>
theorem rlp_canonical:
  "(length (rlp_encode x) < 2 ^ 64 \<longrightarrow> rlp_decode (rlp_encode x) = Some x) \<and>
   (rlp_decode b = Some y \<longrightarrow> rlp_encode y = b)"
  by (simp add: rlp_encode_decode)

theorem rlp_canonical_witness:
  "rlp_decode (rlp_encode (Lst [Str [1, 2], Lst [], Str [0x7F]])) = Some (Lst [Str [1, 2], Lst [], Str [0x7F]]) \<and>
   rlp_encode (Lst [Str [0x80]]) = [0xC2, 0x81, 0x80]"
proof -
  have "length (rlp_encode (Lst [Str [1, 2], Lst [], Str [0x7F]])) = 6" by code_simp
  moreover have "rlp_decode [0xC2, 0x81, 0x80] = Some (Lst [Str [0x80]])" by code_simp
  ultimately show ?thesis
    using rlp_canonical [of "Lst [Str [1, 2], Lst [], Str [0x7F]]" "[0xC2, 0x81, 0x80]" "Lst [Str [0x80]]"] by simp
qed

text \<open>
  C15. The payload of a consensus message decodes to that message, and only that payload does.
\<close>
theorem message_payload_roundtrip:
  "Payload m = Some b \<longleftrightarrow> FromPayload b None = Inr m"
  by (cases "DecodeBytes item_message b") (auto simp: Payload_def FromPayload_def simp flip: message_codec.bytes.dec_iff)


text \<open>
  C16. The signature check of a consensus message asks only that some fullnode signed it: a message
  naming another fullnode as its sender is handled as a message of that other fullnode.
\<close>
theorem signer_not_bound_to_sender:
  assumes "core_fullnodeSet c = Some vs" "Payload m = Some payload" "PayloadNoSig m = Some data"
    and "GetSignatureAddress (b_crypto b) data (Signature m) = Inr signer"
    and "signer \<in> set (fullnodes vs)" "Address m \<in> set (fullnodes vs)"
  shows "handleMsg b payload c = handleCheckedMsg b m (Address m) c"
proof -
  have "DecodeBytes item_message payload = Some m"
    using assms(2) by (simp add: Payload_def message_codec.bytes.dec_iff)
  moreover have "\<exists>i. GetByAddress signer vs = Some (i, signer)" "\<exists>i. GetByAddress (Address m) vs = Some (i, Address m)"
    using assms(5,6) by (auto intro: GetByAddress_member)
  ultimately show ?thesis
    using assms(1,3,4) by (auto simp: handleMsg_def FromPayload_def CheckFullnodeSignature_def)
qed

definition demo_forged :: message where
  "demo_forged = \<lparr>Code = msgPrepare, Msg = [], Address = 2, Signature = [7], CommittedSeal = []\<rparr>"

theorem signer_not_bound_to_sender_witness:
  "\<exists>c payload. demo_run [1, 2, 3, 4] (demo_committing 9) = Some c \<and> Payload demo_forged = Some payload \<and>
     handleMsg demo4 payload c = handleCheckedMsg demo4 demo_forged 2 c"
proof -
  have "case Payload demo_forged of None \<Rightarrow> False | Some _ \<Rightarrow> True" "case PayloadNoSig demo_forged of None \<Rightarrow> False | Some _ \<Rightarrow> True"
    by code_simp+
  then obtain payload data where p: "Payload demo_forged = Some payload" and d: "PayloadNoSig demo_forged = Some data"
    by (auto split: option.splits)
  obtain c vs where c: "demo_run [1, 2, 3, 4] (demo_committing 9) = Some c" "core_fullnodeSet c = Some vs"
    "fullnodes vs = [1, 2, 3, 4]" using demo_commit [of 9] by (auto elim!: demo_commit_ok.elims)
  have "GetSignatureAddress (b_crypto demo4) data (Signature demo_forged) = Inr 1"
    by (simp add: GetSignatureAddress_def demo_backend_def)
  from signer_not_bound_to_sender [OF c(2) p d this] c p show ?thesis by (auto simp: demo_forged_def)
qed


subsection \<open>Message checks and the backlog\<close>

lemma drain_conserves:
  "drain check q = Some (ms, q') \<Longrightarrow> (m, pr) \<in> set q \<Longrightarrow> check m \<noteq> Some Skip \<Longrightarrow> m \<in> set ms \<or> (m, pr) \<in> set q'"
proof (induction check q arbitrary: ms rule: drain.induct)
  case (1 check q)
  show ?case
  proof (cases "prq_Empty q")
    case True
    with 1 show ?thesis by (simp add: drain.simps)
  next
    case False
    obtain n np r where p: "prq_Pop q = ((n, np), r)" by (metis surj_pair)
    have "mset q = add_mset (n, np) (mset r)" using mset_prq_Pop [of q] False p by (auto simp: prq_Empty_def)
    then have q: "(m, pr) = (n, np) \<or> (m, pr) \<in> set r" using "1.prems"(2) by (metis set_mset_mset set_mset_add_mset_insert insertE)
    obtain v where v: "check n = Some v" using "1.prems"(1) False p by (auto simp: drain.simps split: option.splits)
    have push: "set (prq_Push n np r) = insert (n, np) (set r)"
      by (metis mset_prq_Push set_mset_mset set_mset_add_mset_insert)
    show ?thesis
      using "1.prems"(1,3) "1.IH" [OF False p [symmetric] _ v] q v False p push
      by (cases v) (auto simp: drain.simps [of check q])
  qed
qed

lemma handlePrepare_error: "handlePrepare b m src c = Some (Some e, c') \<Longrightarrow> c' = c"
  by (auto simp: handlePrepare_def bind_Some split: option.splits if_splits)

lemma handleCommit_error: "handleCommit b m src c = Some (Some e, c') \<Longrightarrow> c' = c"
  by (auto simp: handleCommit_def bind_Some split: option.splits if_splits)

text \<open>
  C17. A PREPARE or COMMIT message that is answered with an error leaves the core as it was, except
  that a message from the future is put in the backlog.
\<close>
theorem rejected_vote_changes_nothing:
  assumes "Code m = msgPrepare \<or> Code m = msgCommit" "handleCheckedMsg b m src c = Some (Some e, c')"
  shows "c' = (if e = errFutureMessage then storeBacklog b m src c else c)"
  using assms handlePrepare_error handleCommit_error
  by (fastforce simp: handleCheckedMsg_def testBacklog_def msg_codes split: if_splits)

theorem rejected_vote_changes_nothing_witness:
  "\<exists>c. demo_run [1, 2, 3, 4] demo_preparing = Some c \<and>
     handleCheckedMsg demo4 demo_forged 2 c = Some (Some errFailedDecodePrepare, c)"
proof -
  obtain c where c: "demo_run [1, 2, 3, 4] demo_preparing = Some c" using demo_vote by blast
  have "DecodeBytes item_subject [] = None" by code_simp
  then have "handlePrepare demo4 demo_forged 2 c = Some (Some errFailedDecodePrepare, c)"
    by (simp add: handlePrepare_def demo_forged_def)
  then obtain c' where h: "handleCheckedMsg demo4 demo_forged 2 c = Some (Some errFailedDecodePrepare, c')"
    by (simp add: handleCheckedMsg_def testBacklog_def demo_forged_def msg_codes)
  have "Code demo_forged = msgPrepare" by (simp add: demo_forged_def)
  with rejected_vote_changes_nothing [OF _ h] c h show ?thesis by simp
qed

lemma processBacklogs_conserves:
  assumes "processBacklogs b c bs = Some (bs', evs)" "core_fullnodeSet c = Some vs"
    and "(a, q) \<in> set bs" "a \<in> set (fullnodes vs)" "(m, pr) \<in> set q" "backlog_verdict b c m \<noteq> Some Skip"
  shows "backlogEvent a m \<in> set evs \<or> (\<exists>q'. (a, q') \<in> set bs' \<and> (m, pr) \<in> set q')"
  using assms(1,3)
proof (induction bs arbitrary: bs' evs)
  case (Cons x bs)
  obtain a' q0 where x: "x = (a', q0)" by (cases x)
  show ?case
  proof (cases "GetByAddress a' vs")
    case None
    then have "x \<noteq> (a, q)" using x assms(4) by auto
    with Cons None assms(2) x show ?thesis by (auto simp del: GetByAddress_None)
  next
    case (Some y)
    then have y: "snd y = a'" using snd_GetByAddress [of a' vs] by (auto split: if_splits)
    obtain ps q0' bs1 evs1 where p: "drain (backlog_verdict b c) q0 = Some (ps, q0')"
      "processBacklogs b c bs = Some (bs1, evs1)" "bs' = (a', q0') # bs1" "evs = map (backlogEvent a') ps @ evs1"
      using Cons.prems(1) Some assms(2) x y by (cases y) (auto simp: bind_Some)
    with Cons.prems(2) Cons.IH [OF p(2)] drain_conserves [OF p(1) _ assms(6)] assms(5) x show ?thesis by auto
  qed
qed simp

text \<open>
  C18. Processing the backlog loses no message of a fullnode that is not outdated: it is posted
  again or stays in the queue of its sender with its priority.
\<close>
theorem backlog_conserved:
  assumes "processBacklog b c = Some c'" "core_fullnodeSet c = Some vs" "(a, q) \<in> set (backlogs c)"
    and "a \<in> set (fullnodes vs)" "(m, pr) \<in> set q" "msg_view (b_codec b) m = Some v"
    and "checkMessage (Code m) v c \<noteq> Some (Some errOldMessage)"
  shows "EPost (backlogEvent a m) \<in> set (outbox c') \<or> (\<exists>q'. (a, q') \<in> set (backlogs c') \<and> (m, pr) \<in> set q')"
proof -
  obtain bs' evs where p: "processBacklogs b c (backlogs c) = Some (bs', evs)"
    "c' = c\<lparr>backlogs := bs', outbox := outbox c @ map EPost evs\<rparr>"
    using assms(1) by (auto simp: processBacklog_def bind_Some)
  have "checkMessage (Code m) v c \<in> {None, Some None, Some (Some errFutureMessage)}"
    using assms(7) by (cases "currentView c") (auto simp: checkMessage_def split: if_splits)
  then have "backlog_verdict b c m \<noteq> Some Skip"
    using assms(6) by (auto simp: backlog_verdict_def)
  from processBacklogs_conserves [OF p(1) assms(2-5) this] p(2) show ?thesis by auto
qed


definition demo_backlogged :: core where
  "demo_backlogged = (New demo4 DefaultConfig)
     \<lparr>core_fullnodeSet := Some (demo_set [1, 2, 3, 4]),
      current := Some (newRoundState \<lparr>Round = 0, Sequence = 1\<rparr> (demo_set [1, 2, 3, 4]) 0 None None),
      backlogs := [(2, [(demo_msg msgCommit 2 0 9, 0)])]\<rparr>"

theorem backlog_conserved_witness:
  "\<exists>c'. processBacklog demo4 demo_backlogged = Some c' \<and>
     (EPost (backlogEvent 2 (demo_msg msgCommit 2 0 9)) \<in> set (outbox c') \<or>
      (\<exists>q'. (2, q') \<in> set (backlogs c') \<and> (demo_msg msgCommit 2 0 9, 0) \<in> set q'))"
proof -
  have v: "msg_view (b_codec demo4) (demo_msg msgCommit 2 0 9) = Some \<lparr>Round = 0, Sequence = 1\<rparr>"
    "checkMessage (Code (demo_msg msgCommit 2 0 9)) \<lparr>Round = 0, Sequence = 1\<rparr> demo_backlogged = Some (Some errFutureMessage)"
    by code_simp+
  have "drain (backlog_verdict demo4 demo_backlogged) [(demo_msg msgCommit 2 0 9, 0)] \<noteq> None"
    using v by (intro drain_total) (simp_all add: prq_ok_def heap_upto_def backlog_verdict_def)
  moreover have f: "core_fullnodeSet demo_backlogged = Some (demo_set [1, 2, 3, 4])"
    "backlogs demo_backlogged = [(2, [(demo_msg msgCommit 2 0 9, 0)])]" by (simp_all add: demo_backlogged_def)
  moreover have "GetByAddress 2 (demo_set [1, 2, 3, 4]) = Some (1, 2)" by code_simp
  ultimately obtain c' where c': "processBacklog demo4 demo_backlogged = Some c'"
    by (auto simp: processBacklog_def)
  have "EPost (backlogEvent 2 (demo_msg msgCommit 2 0 9)) \<in> set (outbox c') \<or>
      (\<exists>q'. (2, q') \<in> set (backlogs c') \<and> (demo_msg msgCommit 2 0 9, 0) \<in> set q')"
    using v(2) f(2) by (intro backlog_conserved [OF c' f(1) _ _ _ v(1), of 2 "[(demo_msg msgCommit 2 0 9, 0)]"])
      (simp_all only: list.set_intros, simp_all add: demo_set_def)
  with c' show ?thesis by blast
qed


subsection \<open>Priorities\<close>











subsection \<open>The timeout of a round\<close>



end
