(* ===== verification/Sport_Header.thy ===== *)
theory Sport_Header
  imports Fullnode_Set "HOL-Library.Monad_Syntax"
begin

text \<open>
  Block headers and the Sport extra-data (\<open>core/types/block.go\<close>, \<open>core/types/smilo.go\<close> and the
  helpers of \<open>consensus/sport/backend/backend_engine_sport.go\<close>): the extra-data of a header holds
  32 bytes of vanity and the RLP form of the fullnodes, the speaker's seal and the committed seals.

  The block hash is taken over the header without its committed seals, and the speaker signs the
  header without any seal. A \<open>*big.Int\<close> that may be nil is an \<open>int option\<close>, a bloom filter is
  its 2048 bits and a nonce its 64 bits.
\<close>

subsection \<open>Headers\<close>

record header =
  h_ParentHash :: hash
  h_UncleHash :: hash
  h_Coinbase :: address
  h_Root :: hash
  h_TxHash :: hash
  h_ReceiptHash :: hash
  h_Bloom :: "2048 word"
  h_Difficulty :: "int option"
  h_Number :: "int option"
  h_GasLimit :: uint64
  h_GasUsed :: uint64
  h_Time :: uint64
  h_Extra :: bytes
  h_MixDigest :: hash
  h_Nonce :: uint64

text \<open>The encoder writes a nil \<open>*big.Int\<close> as zero.\<close>

definition bigIntPtr_item :: "int option \<Rightarrow> rlp option" where
  "bigIntPtr_item n = (case n of None \<Rightarrow> Some (Str []) | Some n \<Rightarrow> bigInt_item n)"

definition header_item :: "header \<Rightarrow> rlp option" where
  "header_item h = map_option Lst (those
     [array_item 32 (h_ParentHash h), array_item 32 (h_UncleHash h), array_item 20 (h_Coinbase h),
      array_item 32 (h_Root h), array_item 32 (h_TxHash h), array_item 32 (h_ReceiptHash h),
      array_item 256 (h_Bloom h), bigIntPtr_item (h_Difficulty h), bigIntPtr_item (h_Number h),
      uint64_item (h_GasLimit h), uint64_item (h_GasUsed h), uint64_item (h_Time h),
      bytes_item (h_Extra h), array_item 32 (h_MixDigest h), array_item 8 (h_Nonce h)])"

definition CopyHeader :: "header \<Rightarrow> header" where
  "CopyHeader h = h\<lparr>h_Difficulty := Some (case h_Difficulty h of None \<Rightarrow> 0 | Some d \<Rightarrow> d),
                    h_Number := Some (case h_Number h of None \<Rightarrow> 0 | Some n \<Rightarrow> n)\<rparr>"

text \<open>A value that cannot be encoded leaves the hasher empty.\<close>

definition rlpHash :: "crypto \<Rightarrow> ('a \<Rightarrow> rlp option) \<Rightarrow> 'a \<Rightarrow> hash" where
  "rlpHash cr to_item x =
     BytesToHash (Keccak256 cr (case EncodeToBytes to_item x of None \<Rightarrow> [] | Some b \<Rightarrow> b))"


subsection \<open>Extra-data\<close>

definition SportDigest :: hash where
  "SportDigest = 0x636861696e20706c6174666f726d2077697468206120636f6e736369656e6365"

definition SportExtraVanity :: nat where
  "SportExtraVanity = 32"

record sportExtra =
  Fullnodes :: "address list"
  Seal :: bytes
  CommittedSeals :: "bytes list"

definition sportExtra_item :: "sportExtra \<Rightarrow> rlp option" where
  "sportExtra_item ist =
     (case (list_item (array_item 20) (Fullnodes ist), bytes_item (Seal ist), list_item bytes_item (CommittedSeals ist)) of
        (Some f, Some s, Some c) \<Rightarrow> Some (Lst [f, s, c]) | _ \<Rightarrow> None)"

definition item_sportExtra :: "rlp \<Rightarrow> sportExtra option" where
  "item_sportExtra i =
     (case i of Lst [f, s, c] \<Rightarrow>
        (case (item_list (item_array 20) f, item_bytes s, item_list item_bytes c) of
           (Some f, Some s, Some c) \<Rightarrow> Some \<lparr>Fullnodes = f, Seal = s, CommittedSeals = c\<rparr> | _ \<Rightarrow> None)
      | _ \<Rightarrow> None)"

definition ExtractSportExtra :: "header \<Rightarrow> error + sportExtra" where
  "ExtractSportExtra h =
     (if length (h_Extra h) < SportExtraVanity then Inl ErrInvalidSportHeaderExtra
      else case DecodeBytes item_sportExtra (drop SportExtraVanity (h_Extra h)) of
        None \<Rightarrow> Inl ErrRlp | Some x \<Rightarrow> Inr x)"

text \<open>\<open>append(h.Extra[:SportExtraVanity], payload...)\<close>.\<close>

definition set_extra :: "header \<Rightarrow> bytes \<Rightarrow> header" where
  "set_extra h payload = h\<lparr>h_Extra := take SportExtraVanity (h_Extra h) @ payload\<rparr>"

definition SportFilteredHeader :: "header \<Rightarrow> bool \<Rightarrow> header option" where
  "SportFilteredHeader h keepSeal =
     (let newHeader = CopyHeader h
      in case ExtractSportExtra newHeader of Inl _ \<Rightarrow> None
         | Inr x \<Rightarrow>
             let x = (if \<not> keepSeal then x\<lparr>Seal := []\<rparr> else x); x = x\<lparr>CommittedSeals := []\<rparr>
             in map_option (set_extra newHeader) (EncodeToBytes sportExtra_item x))"

definition header_Hash :: "crypto \<Rightarrow> header \<Rightarrow> hash" where
  "header_Hash cr h =
     (if h_MixDigest h = SportDigest then
        (case SportFilteredHeader h True of
           Some h' \<Rightarrow> rlpHash cr header_item h' | None \<Rightarrow> rlpHash cr header_item h)
      else rlpHash cr header_item h)"


subsection \<open>Seals\<close>

text \<open>A nil header is encoded as the empty list.\<close>

definition sigHash :: "crypto \<Rightarrow> header \<Rightarrow> hash" where
  "sigHash cr h =
     (case SportFilteredHeader h False of
        None \<Rightarrow> BytesToHash (Keccak256 cr [0xC0]) | Some h' \<Rightarrow> rlpHash cr header_item h')"

text \<open>
  \<open>recent\<close> is the content of the cache \<open>recentAddresses\<close>. What \<open>ecrecover\<close> adds to it is the
  address it returns, under the hash of the header.
\<close>

definition ecrecover :: "crypto \<Rightarrow> (hash \<Rightarrow> address option) \<Rightarrow> header \<Rightarrow> error + address" where
  "ecrecover cr recent h =
     (case recent (header_Hash cr h) of
        Some addr \<Rightarrow> Inr addr
      | None \<Rightarrow>
          (case ExtractSportExtra h of Inl err \<Rightarrow> Inl err
           | Inr x \<Rightarrow> GetSignatureAddress cr (hash_Bytes (sigHash cr h)) (Seal x)))"

definition prepareExtra :: "header \<Rightarrow> address list \<Rightarrow> error + bytes" where
  "prepareExtra h vals =
     (let extra = (if length (h_Extra h) < SportExtraVanity
                   then h_Extra h @ replicate (SportExtraVanity - length (h_Extra h)) 0 else h_Extra h)
      in case EncodeToBytes sportExtra_item \<lparr>Fullnodes = vals, Seal = [], CommittedSeals = []\<rparr> of
           None \<Rightarrow> Inl ErrRlp
         | Some payload \<Rightarrow> Inr (take SportExtraVanity extra @ payload))"

definition writeSeal :: "header \<Rightarrow> bytes \<Rightarrow> error + header" where
  "writeSeal h seal =
     (if length seal mod SportExtraSeal \<noteq> 0 then Inl errInvalidSignature
      else case ExtractSportExtra h of Inl err \<Rightarrow> Inl err
        | Inr x \<Rightarrow>
            (case EncodeToBytes sportExtra_item (x\<lparr>Seal := seal\<rparr>) of
               None \<Rightarrow> Inl ErrRlp | Some payload \<Rightarrow> Inr (set_extra h payload)))"

definition writeCommittedSeals :: "header \<Rightarrow> bytes list \<Rightarrow> error + header" where
  "writeCommittedSeals h committedSeals =
     (if length committedSeals = 0 then Inl errInvalidCommittedSeals
      else if list_ex (\<lambda>seal. length seal \<noteq> SportExtraSeal) committedSeals then Inl errInvalidCommittedSeals
      else case ExtractSportExtra h of Inl err \<Rightarrow> Inl err
        | Inr x \<Rightarrow>
            (case EncodeToBytes sportExtra_item (x\<lparr>CommittedSeals := committedSeals\<rparr>) of
               None \<Rightarrow> Inl ErrRlp | Some payload \<Rightarrow> Inr (set_extra h payload)))"


subsection \<open>The extra-data codec\<close>

interpretation addresses_codec: item_codec "list_item (array_item 20 :: address \<Rightarrow> rlp option)" "item_list (item_array 20)"
  by (rule list_codec) (rule address_codec.item_codec_axioms)

interpretation byteslist_codec: item_codec "list_item bytes_item" "item_list item_bytes"
  by (rule list_codec) (rule bytes_codec.item_codec_axioms)

interpretation sportExtra_codec: item_codec sportExtra_item item_sportExtra
proof
  fix x i
  assume "sportExtra_item x = Some i"
  then show "item_sportExtra i = Some x"
    by (auto simp: sportExtra_item_def item_sportExtra_def addresses_codec.of_to bytes_codec.of_to
        byteslist_codec.of_to split: option.splits)
next
  fix i x
  assume "item_sportExtra i = Some x"
  then show "sportExtra_item x = Some i"
    by (auto simp: sportExtra_item_def item_sportExtra_def addresses_codec.to_of bytes_codec.to_of
        byteslist_codec.to_of split: option.splits rlp.splits list.splits)
qed

lemma Extract_set_extra:
  assumes "SportExtraVanity \<le> length (h_Extra h)" "EncodeToBytes sportExtra_item x = Some payload"
  shows "ExtractSportExtra (set_extra h payload) = Inr x"
  using assms sportExtra_codec.bytes.dec_enc [OF assms(2)]
  by (simp add: ExtractSportExtra_def set_extra_def min_absorb2)

lemma Extract_length: "ExtractSportExtra h = Inr x \<Longrightarrow> SportExtraVanity \<le> length (h_Extra h)"
  by (auto simp: ExtractSportExtra_def split: if_splits)

lemma Extract_CopyHeader [simp]: "ExtractSportExtra (CopyHeader h) = ExtractSportExtra h"
  by (simp add: ExtractSportExtra_def CopyHeader_def)

lemma set_extra_set_extra [simp]:
  "SportExtraVanity \<le> length (h_Extra h) \<Longrightarrow> set_extra (set_extra h p) q = set_extra h q"
  by (simp add: set_extra_def min_absorb2)

lemma CopyHeader_set_extra: "CopyHeader (set_extra h p) = set_extra (CopyHeader h) p"
  by (simp add: CopyHeader_def set_extra_def)

lemma h_Extra_CopyHeader [simp]: "h_Extra (CopyHeader h) = h_Extra h"
  by (simp add: CopyHeader_def)

text \<open>Filtering forgets the committed seals, and the seal too unless it is kept.\<close>

lemma filtered_set_extra:
  assumes "ExtractSportExtra h = Inr x" "EncodeToBytes sportExtra_item y = Some payload"
    and "Fullnodes y = Fullnodes x" "keep \<Longrightarrow> Seal y = Seal x"
  shows "SportFilteredHeader (set_extra h payload) keep = SportFilteredHeader h keep"
proof -
  note len = Extract_length [OF assms(1)]
  have eq: "(if \<not> keep then y\<lparr>Seal := []\<rparr> else y)\<lparr>CommittedSeals := []\<rparr> =
      (if \<not> keep then x\<lparr>Seal := []\<rparr> else x)\<lparr>CommittedSeals := []\<rparr>"
    using assms(3,4) by (auto intro: sportExtra.equality)
  have "set_extra (set_extra (CopyHeader h) payload) = set_extra (CopyHeader h)"
    using len by (intro ext) simp
  then show ?thesis
    using assms(1) eq Extract_set_extra [of "CopyHeader h", OF _ assms(2)] len
    by (simp add: SportFilteredHeader_def Let_def CopyHeader_set_extra)
qed

lemma set_extra_MixDigest [simp]: "h_MixDigest (set_extra h p) = h_MixDigest h"
  by (simp add: set_extra_def)

lemma sigHash_set_extra:
  assumes "ExtractSportExtra h = Inr x" "EncodeToBytes sportExtra_item y = Some payload" "Fullnodes y = Fullnodes x"
  shows "sigHash cr (set_extra h payload) = sigHash cr h"
  using filtered_set_extra [OF assms, of False] by (simp add: sigHash_def)

text \<open>Taking the committed seals off cannot make an encoding too long.\<close>

lemma length_be_bytes_mono: "n \<le> m \<Longrightarrow> length (be_bytes n) \<le> length (be_bytes m)"
  using be_val_less [of "be_bytes m"] by (intro length_be_bytes_le) simp

lemma length_rlp_head_mono: "n \<le> m \<Longrightarrow> length (rlp_head t u n) \<le> length (rlp_head t' u' m)"
  using length_be_bytes_mono [of n m] by (auto simp: rlp_head_def)

lemma length_rlp_encode_pos: "Suc 0 \<le> length (rlp_encode x)"
  using rlp_encode_nonempty [of x] by (cases "rlp_encode x") auto

lemma length_encode_list3:
  "length (rlp_encode (Lst [f, s, Lst []])) \<le> length (rlp_encode (Lst [f, s, c]))"
proof -
  let ?n = "\<lambda>d. length (rlp_encode f) + (length (rlp_encode s) + length (rlp_encode d))"
  have len: "length (rlp_encode (Lst [f, s, d])) = length (rlp_head 0xC0 0xF7 (?n d)) + ?n d" for d
    by (simp add: Let_def)
  have "length (rlp_encode (Lst [])) = 1" by (simp add: rlp_head_def)
  then have le: "?n (Lst []) \<le> ?n c" using length_rlp_encode_pos [of c] by linarith
  show ?thesis unfolding len by (rule add_mono [OF length_rlp_head_mono [OF le] le])
qed

lemma encode_shorter:
  assumes "ExtractSportExtra h = Inr x"
  shows "EncodeToBytes sportExtra_item (x\<lparr>CommittedSeals := []\<rparr>) \<noteq> None"
proof -
  obtain b where "DecodeBytes item_sportExtra b = Some x"
    using assms by (auto simp: ExtractSportExtra_def split: if_splits option.splits)
  then have "EncodeToBytes sportExtra_item x = Some b" by (rule sportExtra_codec.bytes.enc_dec)
  then obtain f s c where i: "list_item (array_item 20) (Fullnodes x) = Some f" "bytes_item (Seal x) = Some s"
    "list_item bytes_item (CommittedSeals x) = Some c" "slice_len_ok (length (rlp_encode (Lst [f, s, c])))"
    by (auto simp: EncodeToBytes_def sportExtra_item_def Let_def split: option.splits if_splits simp del: rlp_encode.simps)
  then have "slice_len_ok (length (rlp_encode (Lst [f, s, Lst []])))"
    using length_encode_list3 [of f s c] by (simp only: slice_len_ok_def order_le_less_trans)
  moreover have "list_item bytes_item [] = Some (Lst [])" by (simp add: list_item_def)
  ultimately show ?thesis
    using i(1,2) by (simp add: EncodeToBytes_def sportExtra_item_def Let_def del: rlp_encode.simps)
qed

lemma filtered_Some: "ExtractSportExtra h = Inr x \<Longrightarrow> SportFilteredHeader h True \<noteq> None"
  using encode_shorter [of h x] by (auto simp: SportFilteredHeader_def Let_def)

lemma Hash_set_extra:
  assumes "ExtractSportExtra h = Inr x" "EncodeToBytes sportExtra_item y = Some payload"
    and "Fullnodes y = Fullnodes x" "Seal y = Seal x" "h_MixDigest h = SportDigest"
  shows "header_Hash cr (set_extra h payload) = header_Hash cr h"
  using filtered_set_extra [OF assms(1-3), of True] filtered_Some [OF assms(1)] assms(4,5)
  by (auto simp: header_Hash_def)

lemma writeCommittedSeals_cases:
  assumes "writeCommittedSeals h seals = Inr h'"
  obtains x payload where "ExtractSportExtra h = Inr x" "h' = set_extra h payload"
    "EncodeToBytes sportExtra_item (x\<lparr>CommittedSeals := seals\<rparr>) = Some payload"
  using assms by (auto simp: writeCommittedSeals_def split: if_splits sum.splits option.splits)

lemma writeSeal_cases:
  assumes "writeSeal h seal = Inr h'"
  obtains x payload where "ExtractSportExtra h = Inr x" "h' = set_extra h payload"
    "EncodeToBytes sportExtra_item (x\<lparr>Seal := seal\<rparr>) = Some payload"
  using assms by (auto simp: writeSeal_def split: if_splits sum.splits option.splits)

lemma writeCommittedSeals_hash:
  assumes "writeCommittedSeals h seals = Inr h'" "h_MixDigest h = SportDigest"
  shows "header_Hash cr h' = header_Hash cr h \<and> sigHash cr h' = sigHash cr h \<and>
         ecrecover cr recent h' = ecrecover cr recent h \<and>
         (\<exists>x. ExtractSportExtra h = Inr x \<and> ExtractSportExtra h' = Inr (x\<lparr>CommittedSeals := seals\<rparr>))"
proof -
  obtain x payload where x: "ExtractSportExtra h = Inr x" "h' = set_extra h payload"
    "EncodeToBytes sportExtra_item (x\<lparr>CommittedSeals := seals\<rparr>) = Some payload"
    using assms(1) by (rule writeCommittedSeals_cases)
  have "header_Hash cr h' = header_Hash cr h" "sigHash cr h' = sigHash cr h"
    using Hash_set_extra [OF x(1,3) _ _ assms(2)] sigHash_set_extra [OF x(1,3)] x(2) by auto
  moreover have "ExtractSportExtra h' = Inr (x\<lparr>CommittedSeals := seals\<rparr>)"
    using Extract_set_extra [OF Extract_length [OF x(1)] x(3)] x(2) by simp
  ultimately show ?thesis using x(1) by (simp add: ecrecover_def split: option.split)
qed

lemma writeSeal_recovers:
  assumes "writeSeal h seal = Inr h'" "recent (header_Hash cr h') = None"
    and "GetSignatureAddress cr (hash_Bytes (sigHash cr h)) seal = Inr a"
  shows "ecrecover cr recent h' = Inr a \<and> sigHash cr h' = sigHash cr h"
proof -
  obtain x payload where x: "ExtractSportExtra h = Inr x" "h' = set_extra h payload"
    "EncodeToBytes sportExtra_item (x\<lparr>Seal := seal\<rparr>) = Some payload"
    using assms(1) by (rule writeSeal_cases)
  have "sigHash cr h' = sigHash cr h" using sigHash_set_extra [OF x(1,3)] x(2) by simp
  moreover have "ExtractSportExtra h' = Inr (x\<lparr>Seal := seal\<rparr>)"
    using Extract_set_extra [OF Extract_length [OF x(1)] x(3)] x(2) by simp
  ultimately show ?thesis using assms(2,3) by (simp add: ecrecover_def)
qed

lemma prepareExtra_Extract:
  assumes "prepareExtra h vals = Inr extra"
  shows "ExtractSportExtra (h\<lparr>h_Extra := extra\<rparr>) = Inr \<lparr>Fullnodes = vals, Seal = [], CommittedSeals = []\<rparr> \<and>
         take (min 32 (length (h_Extra h))) extra = take 32 (h_Extra h)"
proof -
  let ?v = "if length (h_Extra h) < SportExtraVanity
    then h_Extra h @ replicate (SportExtraVanity - length (h_Extra h)) 0 else h_Extra h"
  obtain payload where p: "EncodeToBytes sportExtra_item \<lparr>Fullnodes = vals, Seal = [], CommittedSeals = []\<rparr> = Some payload"
    "extra = take SportExtraVanity ?v @ payload"
    using assms by (auto simp: prepareExtra_def Let_def split: option.splits)
  have len: "SportExtraVanity \<le> length ?v" by simp
  have "h\<lparr>h_Extra := extra\<rparr> = set_extra (h\<lparr>h_Extra := ?v\<rparr>) payload" by (simp add: set_extra_def p(2))
  then have "ExtractSportExtra (h\<lparr>h_Extra := extra\<rparr>) = Inr \<lparr>Fullnodes = vals, Seal = [], CommittedSeals = []\<rparr>"
    using Extract_set_extra [of "h\<lparr>h_Extra := ?v\<rparr>", OF _ p(1)] len by simp
  moreover have "take (min 32 (length (h_Extra h))) extra = take 32 (h_Extra h)"
    using p(2) by (auto simp: SportExtraVanity_def min_def)
  ultimately show ?thesis by blast
qed

text \<open>A concrete header and hash function, at which the properties below are instantiated.\<close>

definition demo_crypto :: crypto where
  "demo_crypto = \<lparr>Keccak256 = (\<lambda>b. take 32 (b @ replicate 32 0)), SigToAddress = (\<lambda>_ _. Some 5)\<rparr>"

definition demo_header :: header where
  "demo_header =
     \<lparr>h_ParentHash = 1, h_UncleHash = 2, h_Coinbase = 3, h_Root = 4, h_TxHash = 5, h_ReceiptHash = 6, h_Bloom = 0,
      h_Difficulty = Some 1, h_Number = Some 1, h_GasLimit = 0, h_GasUsed = 0, h_Time = 9,
      h_Extra = replicate 32 0 @ [0xC3, 0xC0, 0x80, 0xC0], h_MixDigest = SportDigest, h_Nonce = 0\<rparr>"

text \<open>
  C22. Writing the committed seals into a header changes neither its hash nor the hash the speaker
  signed nor the recovered speaker; of the extra-data only the committed seals change.
\<close>
theorem committed_seals_keep_hash:
  assumes "writeCommittedSeals h seals = Inr h'" "h_MixDigest h = SportDigest"
  shows "header_Hash cr h' = header_Hash cr h \<and> sigHash cr h' = sigHash cr h \<and>
         ecrecover cr recent h' = ecrecover cr recent h \<and>
         (\<exists>x. ExtractSportExtra h = Inr x \<and> ExtractSportExtra h' = Inr (x\<lparr>CommittedSeals := seals\<rparr>))"
  using assms by (rule writeCommittedSeals_hash)

theorem committed_seals_keep_hash_witness:
  "\<exists>h'. writeCommittedSeals demo_header [replicate 65 7] = Inr h' \<and> h' \<noteq> demo_header \<and>
     header_Hash demo_crypto h' = header_Hash demo_crypto demo_header"
proof -
  have w: "case writeCommittedSeals demo_header [replicate 65 7] of Inl _ \<Rightarrow> False | Inr h' \<Rightarrow> h_Extra h' \<noteq> h_Extra demo_header"
    by code_simp
  then obtain h' where h': "writeCommittedSeals demo_header [replicate 65 7] = Inr h'" "h' \<noteq> demo_header"
    by (auto split: sum.splits)
  have "h_MixDigest demo_header = SportDigest" by (simp add: demo_header_def)
  from committed_seals_keep_hash [OF h'(1) this, of demo_crypto] h' show ?thesis by blast
qed

text \<open>
  C23. After writing the seal a speaker made over the signing hash of a header, the header recovers
  to that speaker and its signing hash has not changed.
\<close>
theorem sealed_block_recovers_speaker:
  assumes "writeSeal h seal = Inr h'" "recent (header_Hash cr h') = None"
    and "GetSignatureAddress cr (hash_Bytes (sigHash cr h)) seal = Inr a"
  shows "ecrecover cr recent h' = Inr a \<and> sigHash cr h' = sigHash cr h"
  using assms by (rule writeSeal_recovers)

theorem sealed_block_recovers_speaker_witness:
  "\<exists>h'. writeSeal demo_header (replicate 65 7) = Inr h' \<and> ecrecover demo_crypto (\<lambda>_. None) h' = Inr 5"
proof -
  have "case writeSeal demo_header (replicate 65 7) of Inl _ \<Rightarrow> False | Inr h' \<Rightarrow> True" by code_simp
  then obtain h' where h': "writeSeal demo_header (replicate 65 7) = Inr h'" by (auto split: sum.splits)
  have "GetSignatureAddress demo_crypto (hash_Bytes (sigHash demo_crypto demo_header)) (replicate 65 7) = Inr 5"
    by (simp add: GetSignatureAddress_def demo_crypto_def)
  with sealed_block_recovers_speaker [OF h', of "\<lambda>_. None"] h' show ?thesis by blast
qed

text \<open>
  C24. The extra-data that prepareExtra builds decodes to the given fullnodes with no seals, and
  keeps the vanity bytes of the header.
\<close>
theorem prepared_extra_roundtrip:
  assumes "prepareExtra h vals = Inr extra"
  shows "ExtractSportExtra (h\<lparr>h_Extra := extra\<rparr>) = Inr \<lparr>Fullnodes = vals, Seal = [], CommittedSeals = []\<rparr> \<and>
         take (min 32 (length (h_Extra h))) extra = take 32 (h_Extra h)"
  using assms by (rule prepareExtra_Extract)

theorem prepared_extra_roundtrip_witness:
  "\<exists>extra. prepareExtra demo_header [1, 2, 3] = Inr extra \<and>
     ExtractSportExtra (demo_header\<lparr>h_Extra := extra\<rparr>) = Inr \<lparr>Fullnodes = [1, 2, 3], Seal = [], CommittedSeals = []\<rparr>"
proof -
  have "case prepareExtra demo_header [1, 2, 3] of Inl _ \<Rightarrow> False | Inr h' \<Rightarrow> True" by code_simp
  then obtain extra where e: "prepareExtra demo_header [1, 2, 3] = Inr extra" by (auto split: sum.splits)
  from prepared_extra_roundtrip [OF e] e show ?thesis by blast
qed

end
