(* ===== verification/Snapshot.thy ===== *)
theory Snapshot
  imports Sport_Header
begin

text \<open>
  The voting snapshot (\<open>consensus/sport/backend/snapshot.go\<close>, \<open>model.go\<close>, \<open>snapshot_sport.go\<close>):
  which accounts are fullnodes at a block, and the votes that are open. \<open>apply\<close> replays headers on
  a snapshot: the signer of a header votes on its coinbase, and a vote that passes changes the set.

  \<open>None\<close> is a panic of the source: a header without a number, or a division by a zero epoch.
  The cached tally always agrees with the list of votes, only fullnodes have open votes, and the
  set changes only with the votes of more than half of its members.
\<close>

subsection \<open>Snapshots\<close>

record Vote =
  vote_Fullnode :: address
  vote_BlockNum :: uint64
  vote_Address :: address
  vote_Authorize :: bool

record Tally =
  tally_Authorize :: bool
  tally_Votes :: int

record Snapshot =
  s_Epoch :: uint64
  s_Number :: uint64
  s_Hash :: hash
  s_Votes :: "Vote list"
  s_Tally :: "(address \<times> Tally) list"
  s_FullnodeSet :: fullnodeSet

definition newSnapshot :: "uint64 \<Rightarrow> uint64 \<Rightarrow> hash \<Rightarrow> fullnodeSet \<Rightarrow> Snapshot" where
  "newSnapshot epoch number hash fs =
     \<lparr>s_Epoch = epoch, s_Number = number, s_Hash = hash, s_Votes = [], s_Tally = [], s_FullnodeSet = fs\<rparr>"

definition snap_copy :: "crypto \<Rightarrow> Snapshot \<Rightarrow> Snapshot" where
  "snap_copy cr s = s\<lparr>s_FullnodeSet := Copy cr (s_FullnodeSet s)\<rparr>"

definition checkVote :: "address \<Rightarrow> bool \<Rightarrow> Snapshot \<Rightarrow> bool" where
  "checkVote a authorize s =
     (let fullnode = GetByAddress a (s_FullnodeSet s)
      in fullnode \<noteq> None \<and> \<not> authorize \<or> fullnode = None \<and> authorize)"

definition cast :: "address \<Rightarrow> bool \<Rightarrow> Snapshot \<Rightarrow> bool \<times> Snapshot" where
  "cast a authorize s =
     (if \<not> checkVote a authorize s then (False, s)
      else case map_of (s_Tally s) a of
        Some old \<Rightarrow> (True, s\<lparr>s_Tally := AList.update a (old\<lparr>tally_Votes := tally_Votes old + 1\<rparr>) (s_Tally s)\<rparr>)
      | None \<Rightarrow> (True, s\<lparr>s_Tally := AList.update a \<lparr>tally_Authorize = authorize, tally_Votes = 1\<rparr> (s_Tally s)\<rparr>))"

definition uncast :: "address \<Rightarrow> bool \<Rightarrow> Snapshot \<Rightarrow> bool \<times> Snapshot" where
  "uncast a authorize s =
     (case map_of (s_Tally s) a of
        None \<Rightarrow> (False, s)
      | Some tally \<Rightarrow>
          if tally_Authorize tally \<noteq> authorize then (False, s)
          else if tally_Votes tally > 1 then
            (True, s\<lparr>s_Tally := AList.update a (tally\<lparr>tally_Votes := tally_Votes tally - 1\<rparr>) (s_Tally s)\<rparr>)
          else (True, s\<lparr>s_Tally := AList.delete a (s_Tally s)\<rparr>))"


subsection \<open>Applying headers\<close>

text \<open>The first of the three loops of \<open>apply\<close>: the earlier vote of the signer on the same account.\<close>

fun find_vote :: "address \<Rightarrow> address \<Rightarrow> Vote list \<Rightarrow> (Vote \<times> Vote list) option" where
  "find_vote fullnode a [] = None"
| "find_vote fullnode a (v # vs) =
     (if vote_Fullnode v = fullnode \<and> vote_Address v = a then Some (v, vs)
      else map_option (apsnd ((#) v)) (find_vote fullnode a vs))"

definition discardVote :: "address \<Rightarrow> address \<Rightarrow> Snapshot \<Rightarrow> Snapshot" where
  "discardVote fullnode a s =
     (case find_vote fullnode a (s_Votes s) of
        None \<Rightarrow> s
      | Some (v, vs) \<Rightarrow> (snd (uncast (vote_Address v) (vote_Authorize v) s))\<lparr>s_Votes := vs\<rparr>)"

text \<open>The second loop: every vote cast by a removed fullnode is uncast and taken off the list.\<close>

definition uncastVotesOf :: "address \<Rightarrow> Snapshot \<Rightarrow> Snapshot" where
  "uncastVotesOf a s =
     (fold (\<lambda>v s. if vote_Fullnode v = a then snd (uncast (vote_Address v) (vote_Authorize v) s) else s) (s_Votes s) s)
       \<lparr>s_Votes := filter (\<lambda>v. vote_Fullnode v \<noteq> a) (s_Votes s)\<rparr>"

definition nonceAuthVote :: uint64 where
  "nonceAuthVote = 0xffffffffffffffff"

definition nonceDropVote :: uint64 where
  "nonceDropVote = 0"

text \<open>What happens once the vote on \<open>a\<close> has passed; the third loop drops the votes on \<open>a\<close>.\<close>

definition passVote :: "crypto \<Rightarrow> address \<Rightarrow> Tally \<Rightarrow> Snapshot \<Rightarrow> Snapshot" where
  "passVote cr a tally s =
     (let s = (if tally_Authorize tally then s\<lparr>s_FullnodeSet := fst (AddFullnode cr a (s_FullnodeSet s))\<rparr>
               else uncastVotesOf a (s\<lparr>s_FullnodeSet := fst (RemoveFullnode a (s_FullnodeSet s))\<rparr>))
      in s\<lparr>s_Votes := filter (\<lambda>v. vote_Address v \<noteq> a) (s_Votes s), s_Tally := AList.delete a (s_Tally s)\<rparr>)"

definition castVote :: "address \<Rightarrow> uint64 \<Rightarrow> address \<Rightarrow> bool \<Rightarrow> Snapshot \<Rightarrow> Snapshot" where
  "castVote fullnode number a authorize s =
     (case cast a authorize s of (ok, s) \<Rightarrow>
        if ok then s\<lparr>s_Votes := s_Votes s @
          [\<lparr>vote_Fullnode = fullnode, vote_BlockNum = number, vote_Address = a, vote_Authorize = authorize\<rparr>]\<rparr>
        else s)"

text \<open>A missing entry of the tally reads as zero votes.\<close>

definition tallyVote :: "crypto \<Rightarrow> address \<Rightarrow> uint64 \<Rightarrow> address \<Rightarrow> bool \<Rightarrow> Snapshot \<Rightarrow> Snapshot" where
  "tallyVote cr fullnode number a authorize s =
     (let s = castVote fullnode number a authorize s
      in case map_of (s_Tally s) a of
           None \<Rightarrow> s
         | Some tally \<Rightarrow> if tally_Votes tally > int (Size (s_FullnodeSet s)) div 2 then passVote cr a tally s else s)"

definition header_Uint64 :: "header \<Rightarrow> uint64 option" where
  "header_Uint64 h = map_option (\<lambda>n. of_int \<bar>n\<bar>) (h_Number h)"

definition applyHeader :: "crypto \<Rightarrow> (hash \<Rightarrow> address option) \<Rightarrow> header \<Rightarrow> Snapshot \<Rightarrow> (error + Snapshot) option" where
  "applyHeader cr recent header s = do {
     number \<leftarrow> header_Uint64 header;
     if s_Epoch s = 0 then None
     else let s = (if number mod s_Epoch s = 0 then s\<lparr>s_Votes := [], s_Tally := []\<rparr> else s)
       in Some (case ecrecover cr recent header of Inl err \<Rightarrow> Inl err
         | Inr fullnode \<Rightarrow>
             if GetByAddress fullnode (s_FullnodeSet s) = None then Inl errUnauthorized
             else let s = discardVote fullnode (h_Coinbase header) s
               in if h_Nonce header = nonceAuthVote then
                    Inr (tallyVote cr fullnode number (h_Coinbase header) True s)
                  else if h_Nonce header = nonceDropVote then
                    Inr (tallyVote cr fullnode number (h_Coinbase header) False s)
                  else Inl errInvalidVote) }"

fun applyHeaders :: "crypto \<Rightarrow> (hash \<Rightarrow> address option) \<Rightarrow> header list \<Rightarrow> Snapshot \<Rightarrow> (error + Snapshot) option" where
  "applyHeaders cr recent [] s = Some (Inr s)"
| "applyHeaders cr recent (h # hs) s = do {
     r \<leftarrow> applyHeader cr recent h s;
     (case r of Inl err \<Rightarrow> Some (Inl err) | Inr s \<Rightarrow> applyHeaders cr recent hs s) }"

fun contiguous :: "header list \<Rightarrow> bool option" where
  "contiguous (h # h' # hs) = do {
     n' \<leftarrow> header_Uint64 h';
     n \<leftarrow> header_Uint64 h;
     if n' \<noteq> n + 1 then Some False else contiguous (h' # hs) }"
| "contiguous _ = Some True"

definition snap_apply :: "crypto \<Rightarrow> (hash \<Rightarrow> address option) \<Rightarrow> header list \<Rightarrow> Snapshot \<Rightarrow> (error + Snapshot) option" where
  "snap_apply cr recent headers s =
     (if headers = [] then Some (Inr s)
      else do {
        ok \<leftarrow> contiguous headers;
        if \<not> ok then Some (Inl errInvalidVotingChain)
        else do {
          n \<leftarrow> header_Uint64 (hd headers);
          if n \<noteq> s_Number s + 1 then Some (Inl errInvalidVotingChain)
          else do {
            r \<leftarrow> applyHeaders cr recent headers (snap_copy cr s);
            Some (map_sum id (\<lambda>snap. snap\<lparr>s_Number := s_Number snap + of_nat (length headers),
                                           s_Hash := header_Hash cr (last headers)\<rparr>) r) } } })"

text \<open>
  \<open>fullnodes()\<close> lists the set in the order of the addresses, with an exchange sort: \<open>exchange\<close> is the
  inner loop, which leaves the least element at the front.
\<close>

fun exchange :: "address \<Rightarrow> address list \<Rightarrow> address \<times> address list" where
  "exchange x [] = (x, [])"
| "exchange x (y # ys) =
     (if x > y then apsnd ((#) x) (exchange y ys) else apsnd ((#) y) (exchange x ys))"

lemma exchange_length: "length (snd (exchange x ys)) = length ys"
  by (induction ys arbitrary: x) auto

lemma exchange_less [termination_simp]: "(m, r) = exchange x ys \<Longrightarrow> length r < Suc (length ys)"
  using exchange_length [of x ys] by (metis lessI snd_conv)

fun exchange_sort :: "address list \<Rightarrow> address list" where
  "exchange_sort [] = []"
| "exchange_sort (x # xs) = (case exchange x xs of (m, r) \<Rightarrow> m # exchange_sort r)"

definition snap_fullnodes :: "Snapshot \<Rightarrow> address list" where
  "snap_fullnodes s = exchange_sort (fullnodes (s_FullnodeSet s))"

lemma exchange_mset: "exchange x ys = (m, r) \<Longrightarrow> add_mset m (mset r) = add_mset x (mset ys) \<and> (\<forall>z \<in> insert x (set ys). m \<le> z)"
proof (induction ys arbitrary: x m r)
  case (Cons y ys)
  show ?case
  proof (cases "x > y")
    case True
    with Cons.prems obtain r' where r: "exchange y ys = (m, r')" "r = x # r'" by (auto simp: apsnd_def map_prod_def split: prod.splits)
    from Cons.IH [OF r(1)] r(2) True show ?thesis by (auto intro: order.trans [of _ y x])
  next
    case False
    with Cons.prems obtain r' where r: "exchange x ys = (m, r')" "r = y # r'" by (auto simp: apsnd_def map_prod_def split: prod.splits)
    from Cons.IH [OF r(1)] r(2) False show ?thesis by (auto intro: order.trans [of _ x y])
  qed
qed simp

lemma exchange_sort_sort: "exchange_sort xs = sort xs"
proof -
  have "mset (exchange_sort xs) = mset xs \<and> sorted (exchange_sort xs)"
  proof (induction xs rule: exchange_sort.induct)
    case (2 x xs)
    obtain m r where e: "exchange x xs = (m, r)" by (metis surj_pair)
    note ex = exchange_mset [OF e]
    have "set r \<subseteq> insert x (set xs)"
      using ex by (metis set_mset_add_mset_insert set_mset_mset insert_iff subsetI)
    with ex 2 [OF e [symmetric]] e show ?case
      by (auto simp: mset_eq_setD [of "exchange_sort r" r])
  qed simp
  then show ?thesis by (metis properties_for_sort)
qed



subsection \<open>The tally\<close>

text \<open>
  \<open>tally_rep auth c t\<close>: the cached tally \<open>t\<close> counts \<open>c a\<close> votes on every account \<open>a\<close>, all to
  authorize it when \<open>auth a\<close> holds and all to drop it otherwise.
\<close>

definition tally_rep :: "(address \<Rightarrow> bool) \<Rightarrow> (address \<Rightarrow> nat) \<Rightarrow> (address \<times> Tally) list \<Rightarrow> bool" where
  "tally_rep auth c t \<longleftrightarrow>
     (\<forall>a. map_of t a = (if c a = 0 then None else Some \<lparr>tally_Authorize = auth a, tally_Votes = int (c a)\<rparr>))"

definition votes_on :: "Vote list \<Rightarrow> address \<Rightarrow> nat" where
  "votes_on vs a = length (filter (\<lambda>v. vote_Address v = a) vs)"

lemma votes_on_simps [simp]:
  "votes_on [] a = 0" "votes_on (v # vs) a = (if vote_Address v = a then Suc (votes_on vs a) else votes_on vs a)"
  "votes_on (vs @ ws) a = votes_on vs a + votes_on ws a"
  by (simp_all add: votes_on_def)

lemma uncast_frame [simp]:
  "s_FullnodeSet (snd (uncast a x s)) = s_FullnodeSet s" "s_Epoch (snd (uncast a x s)) = s_Epoch s"
  "s_Votes (snd (uncast a x s)) = s_Votes s" "s_Number (snd (uncast a x s)) = s_Number s" "s_Hash (snd (uncast a x s)) = s_Hash s"
  by (auto simp: uncast_def split: option.split)

lemma cast_frame [simp]:
  "s_FullnodeSet (snd (cast a x s)) = s_FullnodeSet s" "s_Epoch (snd (cast a x s)) = s_Epoch s"
  "s_Votes (snd (cast a x s)) = s_Votes s" "s_Number (snd (cast a x s)) = s_Number s" "s_Hash (snd (cast a x s)) = s_Hash s"
  by (auto simp: cast_def split: option.split)

lemma uncast_rep:
  assumes "tally_rep auth c (s_Tally s)" "0 < c a"
  shows "tally_rep auth (c(a := c a - 1)) (s_Tally (snd (uncast a (auth a) s)))"
  using assms by (auto simp: tally_rep_def uncast_def map_of_update map_of_delete of_nat_diff)

lemma cast_rep:
  assumes "tally_rep auth c (s_Tally s)" "checkVote a (auth a) s"
  shows "fst (cast a (auth a) s)" "tally_rep auth (c(a := c a + 1)) (s_Tally (snd (cast a (auth a) s)))"
  using assms by (auto simp: tally_rep_def cast_def map_of_update split: option.splits)

lemma find_vote_Some:
  assumes "find_vote f a vs = Some (v, ws)"
  shows "vote_Fullnode v = f \<and> vote_Address v = a \<and> mset vs = add_mset v (mset ws)"
  using assms by (induction vs arbitrary: ws) (auto split: if_splits)

lemma find_vote_None: "find_vote f a vs = None \<longleftrightarrow> (\<forall>v \<in> set vs. \<not> (vote_Fullnode v = f \<and> vote_Address v = a))"
  by (induction vs) auto

abbreviation uncast_if :: "address \<Rightarrow> Vote \<Rightarrow> Snapshot \<Rightarrow> Snapshot" where
  "uncast_if a \<equiv> \<lambda>v s. if vote_Fullnode v = a then snd (uncast (vote_Address v) (vote_Authorize v) s) else s"

lemma uncast_fold_frame [simp]:
  "s_FullnodeSet (fold (uncast_if a) vs s) = s_FullnodeSet s" "s_Epoch (fold (uncast_if a) vs s) = s_Epoch s"
  "s_Number (fold (uncast_if a) vs s) = s_Number s" "s_Hash (fold (uncast_if a) vs s) = s_Hash s"
  by (induction vs arbitrary: s) auto

lemma uncastVotes_rep:
  assumes "tally_rep auth c (s_Tally s)" "\<forall>v \<in> set vs. vote_Authorize v = auth (vote_Address v)"
    and "\<And>b. votes_on vs b \<le> c b"
  shows "tally_rep auth (\<lambda>b. c b - votes_on (filter (\<lambda>v. vote_Fullnode v = a) vs) b) (s_Tally (fold (uncast_if a) vs s))"
  using assms
proof (induction vs arbitrary: s c)
  case (Cons v vs)
  show ?case
  proof (cases "vote_Fullnode v = a")
    case True
    let ?s = "snd (uncast (vote_Address v) (vote_Authorize v) s)" and ?c = "c(vote_Address v := c (vote_Address v) - 1)"
    have pos: "0 < c (vote_Address v)" using Cons.prems(3) [of "vote_Address v"] by simp
    have u: "tally_rep auth ?c (s_Tally ?s)"
      using uncast_rep [OF Cons.prems(1) pos] Cons.prems(2) by simp
    have "votes_on vs b \<le> ?c b" for b using Cons.prems(3) [of b] by (auto split: if_splits)
    then have "tally_rep auth (\<lambda>b. ?c b - votes_on (filter (\<lambda>v. vote_Fullnode v = a) vs) b) (s_Tally (fold (uncast_if a) vs ?s))"
      using Cons.IH [OF u(1)] Cons.prems(2) by simp
    moreover have "(\<lambda>b. ?c b - votes_on (filter (\<lambda>v. vote_Fullnode v = a) vs) b) =
        (\<lambda>b. c b - votes_on (filter (\<lambda>v. vote_Fullnode v = a) (v # vs)) b)" using True by (intro ext) simp
    ultimately show ?thesis using True by simp
  next
    case False
    have "votes_on vs b \<le> c b" for b using Cons.prems(3) [of b] by (auto split: if_splits)
    with Cons.IH [OF Cons.prems(1)] Cons.prems(2) False show ?thesis by simp
  qed
qed simp


subsection \<open>The invariant\<close>

abbreviation members :: "Snapshot \<Rightarrow> address set" where
  "members s \<equiv> set (fullnodes (s_FullnodeSet s))"

abbreviation voter_and_account :: "Vote \<Rightarrow> address \<times> address" where
  "voter_and_account \<equiv> \<lambda>v. (vote_Fullnode v, vote_Address v)"

definition snap_ok :: "crypto \<Rightarrow> Snapshot \<Rightarrow> bool" where
  "snap_ok cr s \<longleftrightarrow>
     wf_set cr (s_FullnodeSet s) \<and> distinct (map voter_and_account (s_Votes s)) \<and>
     (\<forall>v \<in> set (s_Votes s). vote_Fullnode v \<in> members s \<and> vote_Authorize v = (vote_Address v \<notin> members s)) \<and>
     tally_rep (\<lambda>a. a \<notin> members s) (votes_on (s_Votes s)) (s_Tally s)"

lemma snap_okD:
  assumes "snap_ok cr s"
  shows "wf_set cr (s_FullnodeSet s)" "distinct (map voter_and_account (s_Votes s))"
    "v \<in> set (s_Votes s) \<Longrightarrow> vote_Fullnode v \<in> members s \<and> vote_Authorize v = (vote_Address v \<notin> members s)"
    "tally_rep (\<lambda>a. a \<notin> members s) (votes_on (s_Votes s)) (s_Tally s)"
  using assms by (auto simp: snap_ok_def)

lemma votes_on_mset: "votes_on vs a = size {#v \<in># mset vs. vote_Address v = a#}"
  by (simp add: votes_on_def flip: mset_filter)

lemma snap_ok_checkpoint: "snap_ok cr s \<Longrightarrow> snap_ok cr (s\<lparr>s_Votes := [], s_Tally := []\<rparr>)"
  by (simp add: snap_ok_def tally_rep_def)

lemma snap_ok_new: "distinct as \<Longrightarrow> snap_ok cr (newSnapshot e n h (NewFullnodeSet cr as p))"
  by (auto simp: snap_ok_def newSnapshot_def tally_rep_def)

lemma snap_ok_copy: "snap_ok cr s \<Longrightarrow> snap_ok cr (snap_copy cr s)"
  by (auto simp: snap_ok_def snap_copy_def Copy_id)

lemma discardVote_spec:
  assumes "snap_ok cr s"
  shows "snap_ok cr (discardVote f a s)" "s_FullnodeSet (discardVote f a s) = s_FullnodeSet s"
    "s_Epoch (discardVote f a s) = s_Epoch s" "set (s_Votes (discardVote f a s)) \<subseteq> set (s_Votes s)"
    "v \<in> set (s_Votes (discardVote f a s)) \<Longrightarrow> vote_Fullnode v = f \<Longrightarrow> vote_Address v \<noteq> a"
proof -
  note ok = snap_okD [OF assms]
  have "snap_ok cr (discardVote f a s) \<and> s_FullnodeSet (discardVote f a s) = s_FullnodeSet s \<and>
    s_Epoch (discardVote f a s) = s_Epoch s \<and> set (s_Votes (discardVote f a s)) \<subseteq> set (s_Votes s) \<and>
    (\<forall>v \<in> set (s_Votes (discardVote f a s)). vote_Fullnode v = f \<longrightarrow> vote_Address v \<noteq> a)"
  proof (cases "find_vote f a (s_Votes s)")
    case None
    then have "discardVote f a s = s" by (simp add: discardVote_def)
    with assms find_vote_None [of f a "s_Votes s"] None show ?thesis by auto
  next
    case (Some x)
    then obtain v ws where x: "find_vote f a (s_Votes s) = Some (v, ws)" by (cases x) auto
    note v = find_vote_Some [OF x]
    have "set_mset (mset (s_Votes s)) = set_mset (add_mset v (mset ws))" using v by simp
    then have set: "set (s_Votes s) = insert v (set ws)" by simp
    have "distinct (map voter_and_account (v # ws))"
      using ok(2) v mset_eq_imp_distinct_iff [of "map voter_and_account (s_Votes s)" "map voter_and_account (v # ws)"] by simp
    then have ws: "distinct (map voter_and_account ws)" "\<forall>w \<in> set ws. vote_Fullnode w = f \<longrightarrow> vote_Address w \<noteq> a"
      using v by (auto simp: image_iff)
    have cnt: "votes_on (s_Votes s) b = (if b = a then Suc (votes_on ws b) else votes_on ws b)" for b
      using v by (auto simp: votes_on_mset)
    have auth: "vote_Authorize v = (a \<notin> members s)" using ok(3) [of v] set v by simp
    let ?s = "snd (uncast a (a \<notin> members s) s)"
    have "(votes_on (s_Votes s))(a := votes_on (s_Votes s) a - 1) = votes_on ws" using cnt by (intro ext) simp
    then have u: "tally_rep (\<lambda>b. b \<notin> members s) (votes_on ws) (s_Tally ?s)"
      using uncast_rep [OF ok(4), of a] cnt [of a] by simp
    have d: "discardVote f a s = ?s\<lparr>s_Votes := ws\<rparr>" using x v auth by (simp add: discardVote_def)
    have "snap_ok cr (discardVote f a s)" using u ws(1) ok(1,3) set by (simp add: d snap_ok_def)
    then show ?thesis using ws(2) set by (auto simp: d)
  qed
  then show "snap_ok cr (discardVote f a s)" "s_FullnodeSet (discardVote f a s) = s_FullnodeSet s"
    "s_Epoch (discardVote f a s) = s_Epoch s" "set (s_Votes (discardVote f a s)) \<subseteq> set (s_Votes s)"
    "v \<in> set (s_Votes (discardVote f a s)) \<Longrightarrow> vote_Fullnode v = f \<Longrightarrow> vote_Address v \<noteq> a" by blast+
qed

lemma votes_on_filter_le: "votes_on (filter P vs) b \<le> votes_on vs b"
  by (induction vs) auto

lemma votes_on_split: "votes_on vs b - votes_on (filter P vs) b = votes_on (filter (\<lambda>v. \<not> P v) vs) b"
proof -
  have "votes_on vs b = votes_on (filter P vs) b + votes_on (filter (\<lambda>v. \<not> P v) vs) b"
    by (induction vs) auto
  then show ?thesis by simp
qed

lemma votes_on_drop: "votes_on (filter (\<lambda>v. vote_Address v \<noteq> a) vs) b = (if b = a then 0 else votes_on vs b)"
  by (induction vs) auto

text \<open>A vote that has passed on \<open>a\<close>: the membership of \<open>a\<close> flips and its votes are gone.\<close>

lemma passVote_members:
  assumes "snap_ok cr s" "map_of (s_Tally s) a = Some t"
  shows "tally_Authorize t = (a \<notin> members s)"
    "members (passVote cr a t s) = (if a \<in> members s then members s - {a} else insert a (members s))"
proof -
  show t: "tally_Authorize t = (a \<notin> members s)"
    using snap_okD(4) [OF assms(1)] assms(2) by (auto simp: tally_rep_def split: if_splits)
  show "members (passVote cr a t s) = (if a \<in> members s then members s - {a} else insert a (members s))"
    using t fullnode_set.members_remove [OF snap_okD(1) [OF assms(1)], of a]
      fullnode_set.members_add [OF snap_okD(1) [OF assms(1)], of a]
    by (auto simp: passVote_def Let_def uncastVotesOf_def)
qed

lemma passVote_ok:
  assumes "snap_ok cr s" "map_of (s_Tally s) a = Some t"
  shows "snap_ok cr (passVote cr a t s)"
proof -
  note ok = snap_okD [OF assms(1)] and mem = passVote_members [OF assms]
  have auth: "\<forall>v \<in> set (s_Votes s). vote_Authorize v = (vote_Address v \<notin> members s)" using ok(3) by blast
  show ?thesis
  proof (cases "a \<in> members s")
    case False
    let ?fs = "fst (AddFullnode cr a (s_FullnodeSet s))"
    have p: "passVote cr a t s = s\<lparr>s_FullnodeSet := ?fs,
        s_Votes := filter (\<lambda>v. vote_Address v \<noteq> a) (s_Votes s), s_Tally := AList.delete a (s_Tally s)\<rparr>"
      using False mem(1) by (simp add: passVote_def)
    have "set (fullnodes ?fs) = insert a (members s)" by (rule fullnodes_AddFullnode)
    moreover have "wf_set cr ?fs" using ok(1) by (rule wf_set_Add)
    moreover have "tally_rep (\<lambda>b. b \<notin> insert a (members s)) (votes_on (filter (\<lambda>v. vote_Address v \<noteq> a) (s_Votes s)))
        (AList.delete a (s_Tally s))"
      using ok(4) by (auto simp: tally_rep_def map_of_delete votes_on_drop)
    ultimately show ?thesis
      using ok(2,3) by (auto simp: p snap_ok_def distinct_map inj_on_def)
  next
    case True
    let ?fs = "fst (RemoveFullnode a (s_FullnodeSet s))"
    let ?ws = "filter (\<lambda>v. vote_Fullnode v \<noteq> a) (s_Votes s)"
    let ?u = "fold (uncast_if a) (s_Votes s) (s\<lparr>s_FullnodeSet := ?fs\<rparr>)"
    have p: "passVote cr a t s = ?u\<lparr>s_Votes := filter (\<lambda>v. vote_Address v \<noteq> a) ?ws, s_Tally := AList.delete a (s_Tally ?u)\<rparr>"
      using True mem(1) by (simp add: passVote_def uncastVotesOf_def)
    have fs: "set (fullnodes ?fs) = members s - {a}" "wf_set cr ?fs"
      using fullnode_set.members_remove [OF ok(1)] wf_set_Remove [OF ok(1)] by auto
    have "tally_rep (\<lambda>b. b \<notin> members s) (votes_on ?ws) (s_Tally ?u)"
      using uncastVotes_rep [of "\<lambda>b. b \<notin> members s" "votes_on (s_Votes s)" "s\<lparr>s_FullnodeSet := ?fs\<rparr>" "s_Votes s" a] ok(4) auth
      by (simp add: votes_on_split)
    then have "tally_rep (\<lambda>b. b \<notin> members s - {a}) (votes_on (filter (\<lambda>v. vote_Address v \<noteq> a) ?ws)) (AList.delete a (s_Tally ?u))"
      unfolding tally_rep_def map_of_delete votes_on_drop by simp
    moreover have "distinct (map voter_and_account (filter (\<lambda>v. vote_Address v \<noteq> a) ?ws))"
      using ok(2) by (auto simp: distinct_map inj_on_def)
    ultimately show ?thesis using ok(3) fs by (auto simp: p snap_ok_def)
  qed
qed

lemma castVote_frame [simp]:
  "s_FullnodeSet (castVote f n a x s) = s_FullnodeSet s" "s_Epoch (castVote f n a x s) = s_Epoch s"
  using cast_frame [of a x s] by (cases "cast a x s"; simp add: castVote_def)+

lemma castVote_ok:
  assumes "snap_ok cr s" "f \<in> members s" "\<And>v. v \<in> set (s_Votes s) \<Longrightarrow> vote_Fullnode v = f \<Longrightarrow> vote_Address v \<noteq> a"
  shows "snap_ok cr (castVote f n a x s)"
    "v \<in> set (s_Votes (castVote f n a x s)) \<Longrightarrow> v \<in> set (s_Votes s) \<or> vote_Fullnode v = f"
proof -
  note ok = snap_okD [OF assms(1)]
  have "snap_ok cr (castVote f n a x s) \<and> (\<forall>v \<in> set (s_Votes (castVote f n a x s)). v \<in> set (s_Votes s) \<or> vote_Fullnode v = f)"
  proof (cases "checkVote a x s")
    case False
    then have "castVote f n a x s = s" by (simp add: castVote_def cast_def)
    with assms(1) show ?thesis by simp
  next
    case True
    then have x: "x = (a \<notin> members s)" by (auto simp: checkVote_def Let_def)
    obtain w where w: "w = \<lparr>vote_Fullnode = f, vote_BlockNum = n, vote_Address = a, vote_Authorize = x\<rparr>"
      "vote_Fullnode w = f" "vote_Address w = a" "vote_Authorize w = (a \<notin> members s)" using x by simp
    let ?s = "snd (cast a x s)"
    have r: "fst (cast a x s)" "tally_rep (\<lambda>a. a \<notin> members s) ((votes_on (s_Votes s))(a := votes_on (s_Votes s) a + 1)) (s_Tally ?s)"
      using cast_rep [OF ok(4), of a] True unfolding x by auto
    have c: "castVote f n a x s = ?s\<lparr>s_Votes := s_Votes s @ [w]\<rparr>"
      using r(1) cast_frame(3) [of a x s] by (cases "cast a x s") (simp add: castVote_def w(1))
    have "(votes_on (s_Votes s))(a := votes_on (s_Votes s) a + 1) = votes_on (s_Votes s @ [w])" using w(3) by (intro ext) simp
    moreover have "distinct (map voter_and_account (s_Votes s @ [w]))" using ok(2) assms(3) w(2,3) by (fastforce simp: image_iff)
    ultimately have "snap_ok cr (?s\<lparr>s_Votes := s_Votes s @ [w]\<rparr>)"
      using r(2) ok(1,3) assms(2) w(2-4) by (auto simp: snap_ok_def)
    with w(2) show ?thesis unfolding c by auto
  qed
  then show "snap_ok cr (castVote f n a x s)"
    "v \<in> set (s_Votes (castVote f n a x s)) \<Longrightarrow> v \<in> set (s_Votes s) \<or> vote_Fullnode v = f" by blast+
qed

text \<open>The votes on one account are from as many fullnodes as there are votes.\<close>

lemma votes_on_voters:
  assumes "distinct (map voter_and_account vs)"
  shows "card (vote_Fullnode ` {v \<in> set vs. vote_Address v = a}) = votes_on vs a"
proof -
  have "inj_on vote_Fullnode {v \<in> set vs. vote_Address v = a}" "distinct (filter (\<lambda>v. vote_Address v = a) vs)"
    using assms by (auto simp: distinct_map inj_on_def)
  then show ?thesis using distinct_card [of "filter (\<lambda>v. vote_Address v = a) vs"] by (simp add: card_image votes_on_def)
qed

lemma tallyVote_spec:
  fixes n :: uint64 and x :: bool
  assumes "snap_ok cr s" "f \<in> members s" "\<And>v. v \<in> set (s_Votes s) \<Longrightarrow> vote_Fullnode v = f \<Longrightarrow> vote_Address v \<noteq> a"
  defines "s1 \<equiv> castVote f n a x s" and "s2 \<equiv> tallyVote cr f n a x s"
  shows "snap_ok cr s2" "members s2 = members s \<or>
      int (card (members s)) div 2 < int (votes_on (s_Votes s1) a) \<and>
      members s2 = (if a \<in> members s then members s - {a} else insert a (members s))"
proof -
  note ok = castVote_ok(1) [OF assms(1-3), of n x, folded s1_def]
  have size: "Size (s_FullnodeSet s1) = card (members s)" "members s1 = members s"
    using fullnode_set.count_card [OF snap_okD(1) [OF assms(1)]] by (auto simp: s1_def)
  have "snap_ok cr s2 \<and> (members s2 = members s \<or> int (card (members s)) div 2 < int (votes_on (s_Votes s1) a) \<and>
      members s2 = (if a \<in> members s then members s - {a} else insert a (members s)))"
  proof (cases "map_of (s_Tally s1) a")
    case None
    then have "s2 = s1" by (simp add: s2_def tallyVote_def flip: s1_def)
    with ok size show ?thesis by simp
  next
    case (Some t)
    then have "s2 = (if tally_Votes t > int (Size (s_FullnodeSet s1)) div 2 then passVote cr a t s1 else s1)"
      by (simp add: s2_def tallyVote_def flip: s1_def)
    moreover have "tally_Votes t = int (votes_on (s_Votes s1) a)"
      using snap_okD(4) [OF ok] Some by (auto simp: tally_rep_def split: if_splits)
    ultimately show ?thesis
      using ok size passVote_ok [OF ok Some] passVote_members(2) [OF ok Some] by (cases "a \<in> members s") auto
  qed
  then show "snap_ok cr s2" "members s2 = members s \<or>
      int (card (members s)) div 2 < int (votes_on (s_Votes s1) a) \<and>
      members s2 = (if a \<in> members s then members s - {a} else insert a (members s))" by blast+
qed

lemma tallyVote_Epoch [simp]: "s_Epoch (tallyVote cr f n a x s) = s_Epoch s"
  by (auto simp: tallyVote_def Let_def passVote_def uncastVotesOf_def split: option.split)

lemma applyHeader_cases:
  assumes "applyHeader cr recent h s = Some (Inr s')"
  obtains number f x where "header_Uint64 h = Some number" "s_Epoch s \<noteq> 0" "ecrecover cr recent h = Inr f" "f \<in> members s"
    "s' = tallyVote cr f number (h_Coinbase h) x (discardVote f (h_Coinbase h)
       (if number mod s_Epoch s = 0 then s\<lparr>s_Votes := [], s_Tally := []\<rparr> else s))"
    "x = (h_Nonce h = nonceAuthVote)" "h_Nonce h \<in> {nonceAuthVote, nonceDropVote}"
proof -
  obtain number where n: "header_Uint64 h = Some number" using assms by (auto simp: applyHeader_def bind_eq_Some_conv)
  let ?s = "if number mod s_Epoch s = 0 then s\<lparr>s_Votes := [], s_Tally := []\<rparr> else s"
  have e: "s_Epoch s \<noteq> 0" using assms n by (auto simp: applyHeader_def split: if_splits)
  obtain f where f: "ecrecover cr recent h = Inr f"
    using assms n e by (cases "ecrecover cr recent h") (auto simp: applyHeader_def Let_def)
  have mem: "f \<in> members s" using assms n e f by (auto simp: applyHeader_def Let_def split: if_splits)
  show ?thesis
    using assms that [OF n e f mem] n e f mem
    by (auto simp: applyHeader_def Let_def nonceAuthVote_def nonceDropVote_def split: if_splits)
qed

lemma applyHeader_spec:
  assumes "applyHeader cr recent h s = Some (Inr s')" "snap_ok cr s"
  shows "snap_ok cr s' \<and> s_Epoch s' = s_Epoch s \<and>
    (members s' = members s \<or>
     (\<exists>f V. ecrecover cr recent h = Inr f \<and> V \<subseteq> members s \<and> card (members s) div 2 < card V \<and>
        (\<forall>g \<in> V. g = f \<or> (\<exists>v \<in> set (s_Votes s). vote_Fullnode v = g \<and> vote_Address v = h_Coinbase h)) \<and>
        members s' = (if h_Coinbase h \<in> members s then members s - {h_Coinbase h} else insert (h_Coinbase h) (members s))))"
proof -
  obtain number f x where h: "ecrecover cr recent h = Inr f" "f \<in> members s"
    "s' = tallyVote cr f number (h_Coinbase h) x (discardVote f (h_Coinbase h)
       (if number mod s_Epoch s = 0 then s\<lparr>s_Votes := [], s_Tally := []\<rparr> else s))"
    using assms(1) by (rule applyHeader_cases)
  let ?a = "h_Coinbase h"
  define s0 where "s0 = (if number mod s_Epoch s = 0 then s\<lparr>s_Votes := [], s_Tally := []\<rparr> else s)"
  let ?s1 = "discardVote f ?a s0"
  let ?s2 = "castVote f number ?a x ?s1"
  have s0: "snap_ok cr s0" "members s0 = members s" "set (s_Votes s0) \<subseteq> set (s_Votes s)" "s_Epoch s0 = s_Epoch s"
    using assms(2) snap_ok_checkpoint by (auto simp: s0_def)
  note d = discardVote_spec [OF s0(1), where f = f and a = ?a]
  have mem1: "members ?s1 = members s" using d(2) s0(2) by simp
  have f1: "f \<in> members ?s1" using h(2) mem1 by simp
  note t = tallyVote_spec [OF d(1) f1 d(5), where n = number and x = x, folded s0_def h(3) [folded s0_def]]
  note c = castVote_ok [OF d(1) f1 d(5), where n = number and x = x]
  let ?V = "vote_Fullnode ` {v \<in> set (s_Votes ?s2). vote_Address v = ?a}"
  have card: "card ?V = votes_on (s_Votes ?s2) ?a" using votes_on_voters [OF snap_okD(2) [OF c(1)]] .
  have mem: "?V \<subseteq> members s" using snap_okD(3) [OF c(1)] mem1 by auto
  have voters: "\<forall>g \<in> ?V. g = f \<or> (\<exists>v \<in> set (s_Votes s). vote_Fullnode v = g \<and> vote_Address v = ?a)"
    using c(2) d(4) s0(3) by blast
  have "int (card (members s)) div 2 < int (votes_on (s_Votes ?s2) ?a) \<longleftrightarrow> card (members s) div 2 < card ?V"
    unfolding card by linarith
  with t(2) [unfolded mem1] mem voters h(1) have "members s' = members s \<or>
     (\<exists>f V. ecrecover cr recent h = Inr f \<and> V \<subseteq> members s \<and> card (members s) div 2 < card V \<and>
        (\<forall>g \<in> V. g = f \<or> (\<exists>v \<in> set (s_Votes s). vote_Fullnode v = g \<and> vote_Address v = ?a)) \<and>
        members s' = (if ?a \<in> members s then members s - {?a} else insert ?a (members s)))" by blast
  moreover have "s_Epoch s' = s_Epoch s" using h(3) d(3) s0(4) by (simp flip: s0_def)
  ultimately show ?thesis using t(1) by blast
qed

lemma applyHeaders_ok:
  "applyHeaders cr recent hs s = Some (Inr s') \<Longrightarrow> snap_ok cr s \<Longrightarrow> snap_ok cr s' \<and> s_Epoch s' = s_Epoch s"
proof (induction hs arbitrary: s)
  case (Cons h hs)
  then obtain r where r: "applyHeader cr recent h s = Some r" by (auto simp: bind_eq_Some_conv)
  then obtain s1 where "applyHeader cr recent h s = Some (Inr s1)" "applyHeaders cr recent hs s1 = Some (Inr s')"
    using Cons.prems(1) by (cases r) auto
  with Cons.IH Cons.prems(2) applyHeader_spec show ?case by metis
qed simp

lemma snap_apply_Nil [simp]: "snap_apply cr recent [] s = Some (Inr s)"
  by (simp add: snap_apply_def)

lemma snap_apply_cases:
  assumes "snap_apply cr recent hs s = Some (Inr s')"
  obtains (none) "hs = []" "s' = s"
  | (some) s1 where "hs \<noteq> []" "contiguous hs = Some True" "header_Uint64 (hd hs) = Some (s_Number s + 1)"
      "applyHeaders cr recent hs (snap_copy cr s) = Some (Inr s1)"
      "s' = s1\<lparr>s_Number := s_Number s1 + of_nat (length hs), s_Hash := header_Hash cr (last hs)\<rparr>"
proof (cases "hs = []")
  case True
  with assms none show ?thesis by (simp add: snap_apply_def)
next
  case False
  then obtain r where "contiguous hs = Some True" "header_Uint64 (hd hs) = Some (s_Number s + 1)"
    "applyHeaders cr recent hs (snap_copy cr s) = Some r"
    "map_sum id (\<lambda>snap. snap\<lparr>s_Number := s_Number snap + of_nat (length hs), s_Hash := header_Hash cr (last hs)\<rparr>) r = Inr s'"
    using assms by (auto simp: snap_apply_def bind_eq_Some_conv split: if_splits)
  with False some show ?thesis by (cases r) auto
qed

lemma snap_apply_ok:
  assumes "snap_apply cr recent hs s = Some (Inr s')" "snap_ok cr s"
  shows "snap_ok cr s'"
  using assms(1)
proof (cases rule: snap_apply_cases)
  case (some s1)
  then have "snap_ok cr s1" using applyHeaders_ok [OF some(4) snap_ok_copy [OF assms(2)]] by simp
  then show ?thesis by (simp add: some(5) snap_ok_def)
qed (use assms(2) in simp)

lemma discardVote_Epoch [simp]: "s_Epoch (discardVote f a s) = s_Epoch s"
  by (auto simp: discardVote_def split: option.split)

lemma applyHeaders_Epoch: "applyHeaders cr recent hs s = Some (Inr s') \<Longrightarrow> s_Epoch s' = s_Epoch s"
proof (induction hs arbitrary: s)
  case (Cons h hs)
  then obtain r where r: "applyHeader cr recent h s = Some r" by (auto simp: bind_eq_Some_conv)
  then obtain s1 where s1: "applyHeader cr recent h s = Some (Inr s1)" "applyHeaders cr recent hs s1 = Some (Inr s')"
    using Cons.prems by (cases r) auto
  have "s_Epoch s1 = s_Epoch s" using s1(1) by (auto elim!: applyHeader_cases)
  with Cons.IH [OF s1(2)] show ?case by simp
qed simp

lemma snap_apply_Epoch: "snap_apply cr recent hs s = Some (Inr s') \<Longrightarrow> s_Epoch s' = s_Epoch s"
  by (erule snap_apply_cases) (auto dest: applyHeaders_Epoch simp: snap_copy_def)

lemma snap_apply_Hash: "snap_apply cr recent ks s = Some (Inr s') \<Longrightarrow> ks \<noteq> [] \<Longrightarrow> s_Hash s' = header_Hash cr (last ks)"
  by (erule snap_apply_cases) auto


subsection \<open>Applying in two steps\<close>

text \<open>
  Replaying headers does not look at the number, the hash or the current speaker of a snapshot.
  \<open>retag\<close> sets them; every step of \<open>apply\<close> commutes with it.
\<close>

definition retag :: "address option \<Rightarrow> uint64 \<Rightarrow> hash \<Rightarrow> Snapshot \<Rightarrow> Snapshot" where
  "retag x n h s = s\<lparr>s_Number := n, s_Hash := h, s_FullnodeSet := (s_FullnodeSet s)\<lparr>speaker := x\<rparr>\<rparr>"

lemma retag_simps [simp]:
  "s_Epoch (retag x n h s) = s_Epoch s" "s_Votes (retag x n h s) = s_Votes s" "s_Tally (retag x n h s) = s_Tally s"
  "fullnodes (s_FullnodeSet (retag x n h s)) = fullnodes (s_FullnodeSet s)" "s_Number (retag x n h s) = n"
  "s_Hash (retag x n h s) = h" "GetByAddress a (s_FullnodeSet (retag x n h s)) = GetByAddress a (s_FullnodeSet s)"
  "Size (s_FullnodeSet (retag x n h s)) = Size (s_FullnodeSet s)"
  "(retag x n h s)\<lparr>s_Tally := t\<rparr> = retag x n h (s\<lparr>s_Tally := t\<rparr>)"
  "(retag x n h s)\<lparr>s_Votes := vs\<rparr> = retag x n h (s\<lparr>s_Votes := vs\<rparr>)"
  by (simp_all add: retag_def GetByAddress_def Size_def)

lemma uncast_retag: "uncast a b (retag x n h s) = apsnd (retag x n h) (uncast a b s)"
  by (auto simp: uncast_def split: option.split)

lemma cast_retag: "cast a b (retag x n h s) = apsnd (retag x n h) (cast a b s)"
  by (auto simp: cast_def checkVote_def Let_def split: option.split)

lemma discardVote_retag: "discardVote f a (retag x n h s) = retag x n h (discardVote f a s)"
  by (auto simp: discardVote_def uncast_retag split: option.split)

lemma castVote_retag: "castVote f m a b (retag x n h s) = retag x n h (castVote f m a b s)"
  by (cases "cast a b s") (simp add: castVote_def cast_retag)

lemma uncast_fold_retag: "fold (uncast_if a) vs (retag x n h s) = retag x n h (fold (uncast_if a) vs s)"
  by (induction vs arbitrary: s) (auto simp: uncast_retag)

lemma passVote_retag: "passVote cr a t (retag x n h s) = retag x n h (passVote cr a t s)"
proof -
  have add: "(retag x n h s)\<lparr>s_FullnodeSet := fst (AddFullnode cr a (s_FullnodeSet (retag x n h s)))\<rparr> =
      retag x n h (s\<lparr>s_FullnodeSet := fst (AddFullnode cr a (s_FullnodeSet s))\<rparr>)"
    by (simp add: retag_def AddFullnode_def)
  have rem: "(retag x n h s)\<lparr>s_FullnodeSet := fst (RemoveFullnode a (s_FullnodeSet (retag x n h s)))\<rparr> =
      retag x n h (s\<lparr>s_FullnodeSet := fst (RemoveFullnode a (s_FullnodeSet s))\<rparr>)"
    by (simp add: retag_def RemoveFullnode_remove1)
  show ?thesis
    unfolding passVote_def add rem by (simp add: Let_def uncastVotesOf_def uncast_fold_retag)
qed

lemma tallyVote_retag: "tallyVote cr f m a b (retag x n h s) = retag x n h (tallyVote cr f m a b s)"
  by (auto simp: tallyVote_def Let_def castVote_retag passVote_retag split: option.split)

lemma applyHeader_retag:
  "applyHeader cr recent k (retag x n h s) = map_option (map_sum id (retag x n h)) (applyHeader cr recent k s)"
  by (cases "header_Uint64 k"; cases "ecrecover cr recent k")
    (auto simp: applyHeader_def Let_def discardVote_retag tallyVote_retag)

lemma applyHeaders_retag:
  "applyHeaders cr recent hs (retag x n h s) = map_option (map_sum id (retag x n h)) (applyHeaders cr recent hs s)"
proof (induction hs arbitrary: s)
  case (Cons k hs)
  then show ?case
    by (cases "applyHeader cr recent k s") (auto simp: applyHeader_retag split: sum.split)
qed simp

lemma applyHeaders_append:
  "applyHeaders cr recent (hs @ ks) s =
     Option.bind (applyHeaders cr recent hs s) (\<lambda>r. case r of Inl e \<Rightarrow> Some (Inl e) | Inr s1 \<Rightarrow> applyHeaders cr recent ks s1)"
proof (induction hs arbitrary: s)
  case (Cons k hs)
  then show ?case by (cases "applyHeader cr recent k s") (auto split: sum.split)
qed simp

lemma contiguous_numbers:
  "contiguous hs = Some True \<Longrightarrow> hs \<noteq> [] \<Longrightarrow> header_Uint64 (hd hs) = Some (n + 1) \<Longrightarrow>
     header_Uint64 (last hs) = Some (n + of_nat (length hs))"
proof (induction hs arbitrary: n rule: contiguous.induct)
  case (1 h h' hs)
  then obtain m where m: "header_Uint64 h' = Some m" "m = n + 1 + 1" "contiguous (h' # hs) = Some True"
    by (auto simp: bind_eq_Some_conv split: if_splits)
  have "header_Uint64 (last (h' # hs)) = Some (n + 1 + of_nat (length (h' # hs)))"
    using "1.IH" [of m "n + 1" "n + 1"] 1(3-4) m by auto
  then show ?case by (simp add: algebra_simps)
qed (auto simp: algebra_simps)

lemma contiguous_append:
  assumes "contiguous hs = Some True" "hs \<noteq> []" "ks \<noteq> []" "header_Uint64 (last hs) = Some n" "header_Uint64 (hd ks) = Some m"
  shows "contiguous (hs @ ks) = (if m = n + 1 then contiguous ks else Some False)"
  using assms
proof (induction hs)
  case (Cons h hs)
  then show ?case by (cases hs; cases ks) (auto simp: bind_eq_Some_conv split: if_splits)
qed simp

lemma Copy_speaker: "wf_set cr fs \<Longrightarrow> \<exists>x. Copy cr fs = fs\<lparr>speaker := x\<rparr>"
  by (simp add: Copy_def NewFullnodeSet_def wf_set_def sort_fullnodes_id Let_def) (metis fullnodeSet.surjective fullnodeSet.update_convs(3) old.unit.exhaust)

lemma snap_copy_retag: "snap_ok cr s \<Longrightarrow> \<exists>x. snap_copy cr s = retag x (s_Number s) (s_Hash s) s"
  using Copy_speaker [of cr "s_FullnodeSet s"] snap_okD(1) [of cr s] by (auto simp: snap_copy_def retag_def)

lemma tallyVote_tags [simp]:
  "s_Number (tallyVote cr f n a x s) = s_Number s"
  using cast_frame(4) [of a x s]
  by (cases "cast a x s") (auto simp: tallyVote_def castVote_def Let_def passVote_def uncastVotesOf_def split: option.split)

lemma discardVote_tags [simp]: "s_Number (discardVote f a s) = s_Number s"
  by (auto simp: discardVote_def split: option.split)

lemma applyHeaders_Number: "applyHeaders cr recent hs s = Some (Inr s') \<Longrightarrow> s_Number s' = s_Number s"
proof (induction hs arbitrary: s)
  case (Cons h hs)
  then obtain r where r: "applyHeader cr recent h s = Some r" by (auto simp: bind_eq_Some_conv)
  then obtain s1 where s1: "applyHeader cr recent h s = Some (Inr s1)" "applyHeaders cr recent hs s1 = Some (Inr s')"
    using Cons.prems by (cases r) auto
  have "s_Number s1 = s_Number s" using s1(1) by (auto elim!: applyHeader_cases)
  with Cons.IH [OF s1(2)] show ?case by simp
qed simp

text \<open>Applying the headers in two steps gives the same snapshot, up to the cached speaker.\<close>

lemma snap_apply_append:
  assumes "snap_ok cr s" "snap_apply cr recent hs s = Some (Inr s1)" "snap_apply cr recent ks s1 = Some (Inr s2)"
  shows "\<exists>x. snap_apply cr recent (hs @ ks) s = Some (Inr (s2\<lparr>s_FullnodeSet := (s_FullnodeSet s2)\<lparr>speaker := x\<rparr>\<rparr>))"
proof (cases "hs = [] \<or> ks = []")
  case True
  then have "snap_apply cr recent (hs @ ks) s = Some (Inr s2)" using assms(2,3) by auto
  then show ?thesis by (intro exI [of _ "speaker (s_FullnodeSet s2)"]) simp
next
  case False
  obtain u where u: "contiguous hs = Some True" "header_Uint64 (hd hs) = Some (s_Number s + 1)"
    "applyHeaders cr recent hs (snap_copy cr s) = Some (Inr u)"
    "s1 = u\<lparr>s_Number := s_Number u + of_nat (length hs), s_Hash := header_Hash cr (last hs)\<rparr>"
    using assms(2) False by (auto elim: snap_apply_cases)
  obtain w where w: "contiguous ks = Some True" "header_Uint64 (hd ks) = Some (s_Number s1 + 1)"
    "applyHeaders cr recent ks (snap_copy cr s1) = Some (Inr w)"
    "s2 = w\<lparr>s_Number := s_Number w + of_nat (length ks), s_Hash := header_Hash cr (last ks)\<rparr>"
    using assms(3) False by (auto elim: snap_apply_cases)
  have ok: "snap_ok cr u" using applyHeaders_ok [OF u(3) snap_ok_copy [OF assms(1)]] by simp
  have un: "s_Number u = s_Number s" using applyHeaders_Number [OF u(3)] by (simp add: snap_copy_def)
  have "snap_ok cr s1" using ok by (simp add: u(4) snap_ok_def)
  then obtain x where "snap_copy cr s1 = retag x (s_Number s1) (s_Hash s1) s1" using snap_copy_retag by blast
  then have "snap_copy cr s1 = retag x (s_Number s1) (s_Hash s1) u" by (simp add: u(4) retag_def)
  with w(3) obtain r where r: "applyHeaders cr recent ks u = Some r" "Inr w = map_sum id (retag x (s_Number s1) (s_Hash s1)) r"
    by (auto simp: applyHeaders_retag)
  then obtain v where v: "applyHeaders cr recent ks u = Some (Inr v)" "w = retag x (s_Number s1) (s_Hash s1) v"
    by (cases r) auto
  have "header_Uint64 (last hs) = Some (s_Number s1)"
    using contiguous_numbers [OF u(1) _ u(2)] False un by (simp add: u(4))
  then have "contiguous (hs @ ks) = Some True"
    using contiguous_append [OF u(1) _ _ _ w(2)] False w(1) by simp
  then have "snap_apply cr recent (hs @ ks) s = Some (Inr (v\<lparr>s_Number := s_Number v + of_nat (length (hs @ ks)),
      s_Hash := header_Hash cr (last (hs @ ks))\<rparr>))"
    using False u(2,3) v(1) by (simp add: snap_apply_def applyHeaders_append)
  moreover have "v\<lparr>s_Number := s_Number v + of_nat (length (hs @ ks)), s_Hash := header_Hash cr (last (hs @ ks))\<rparr> =
      s2\<lparr>s_FullnodeSet := (s_FullnodeSet s2)\<lparr>speaker := speaker (s_FullnodeSet v)\<rparr>\<rparr>"
    using False v(2) applyHeaders_Number [OF v(1)] by (simp add: w(4) retag_def u(4) algebra_simps)
  ultimately show ?thesis by (intro exI [of _ "speaker (s_FullnodeSet v)"]) simp
qed


subsection \<open>Properties\<close>

lemma tallyVote_passes:
  assumes "snap_ok cr s" "f \<in> members s" "\<And>v. v \<in> set (s_Votes s) \<Longrightarrow> vote_Fullnode v = f \<Longrightarrow> vote_Address v \<noteq> a"
    and "a \<in> members s" "Size (s_FullnodeSet s) = 1"
  shows "members (tallyVote cr f n a False s) = members s - {a}"
proof -
  let ?s = "castVote f n a False s"
  have ok: "snap_ok cr ?s" using castVote_ok(1) [OF assms(1-3)] .
  have "checkVote a False s" using assms(4) by (auto simp: checkVote_def Let_def dest: GetByAddress_member)
  then have "0 < votes_on (s_Votes ?s) a"
    using cast_rep(1) [OF snap_okD(4) [OF assms(1)], of a] assms(4) by (cases "cast a False s") (auto simp: castVote_def)
  then obtain t where t: "map_of (s_Tally ?s) a = Some t" "tally_Votes t \<ge> 1"
    using snap_okD(4) [OF ok] by (auto simp: tally_rep_def)
  have "tallyVote cr f n a False s = passVote cr a t ?s" using t assms(5) by (simp add: tallyVote_def)
  then show ?thesis using passVote_members(2) [OF ok t(1)] assms(4) by simp
qed

lemma lone_drop:
  assumes "snap_ok cr s" "fullnodes (s_FullnodeSet s) = [a]" "s_Epoch s \<noteq> 0" "h_Number h \<noteq> None"
    and "ecrecover cr recent h = Inr a" "h_Coinbase h = a" "h_Nonce h = 0"
  shows "\<exists>s'. applyHeader cr recent h s = Some (Inr s') \<and> fullnodes (s_FullnodeSet s') = []"
proof -
  obtain number where n: "header_Uint64 h = Some number" using assms(4) by (auto simp: header_Uint64_def)
  define s0 where "s0 = (if number mod s_Epoch s = 0 then s\<lparr>s_Votes := [], s_Tally := []\<rparr> else s)"
  have s0: "snap_ok cr s0" "s_FullnodeSet s0 = s_FullnodeSet s" using assms(1) snap_ok_checkpoint by (auto simp: s0_def)
  let ?s = "tallyVote cr a number a False (discardVote a a s0)"
  have "applyHeader cr recent h s = Some (Inr ?s)"
    using n assms(2-7) by (simp add: applyHeader_def Let_def nonceAuthVote_def nonceDropVote_def GetByAddress_def flip: s0_def)
      (simp add: s0_def)
  moreover have "members ?s = {a} - {a}"
    using tallyVote_passes [OF discardVote_spec(1) [OF s0(1)], where f = a and a = a and n = number] discardVote_spec [OF s0(1)] s0(2) assms(2)
    by (simp add: Size_def)
  ultimately show ?thesis by auto
qed

text \<open>A set of one fullnode and a header by it on itself, at which the properties are instantiated.\<close>

definition demo_snapshot :: Snapshot where
  "demo_snapshot = newSnapshot 30000 0 0 \<lparr>fullnodes = [5], policy = 0, speaker = Some 5\<rparr>"

definition demo_self_header :: header where
  "demo_self_header = demo_header\<lparr>h_Coinbase := 5\<rparr>"

lemma demo_snapshot_ok: "snap_ok cr demo_snapshot"
  by (simp add: snap_ok_def demo_snapshot_def newSnapshot_def wf_set_def tally_rep_def)

lemma demo_self_signer: "ecrecover demo_crypto (\<lambda>_. None) demo_self_header = Inr 5"
proof -
  have "case ExtractSportExtra demo_self_header of Inl _ \<Rightarrow> False | Inr _ \<Rightarrow> True" by code_simp
  then show ?thesis
    by (auto simp: ecrecover_def GetSignatureAddress_def demo_crypto_def split: sum.splits)
qed

lemma demo_self_drop:
  "\<exists>s'. applyHeader demo_crypto (\<lambda>_. None) demo_self_header demo_snapshot = Some (Inr s') \<and> fullnodes (s_FullnodeSet s') = []"
  by (rule lone_drop [OF demo_snapshot_ok _ _ _ demo_self_signer])
    (simp_all add: demo_snapshot_def newSnapshot_def demo_self_header_def demo_header_def)

lemma demo_self_apply:
  "\<exists>s'. snap_apply demo_crypto (\<lambda>_. None) [demo_self_header] demo_snapshot = Some (Inr s')"
proof -
  have "snap_copy demo_crypto demo_snapshot = demo_snapshot"
    by (simp add: snap_copy_def demo_snapshot_def newSnapshot_def Copy_def NewFullnodeSet_def sort_fullnodes_def Let_def Size_def GetByIndex_def)
  moreover have "header_Uint64 demo_self_header = Some (s_Number demo_snapshot + 1)"
    by (simp add: header_Uint64_def demo_self_header_def demo_header_def demo_snapshot_def newSnapshot_def)
  ultimately show ?thesis using demo_self_drop by (auto simp: snap_apply_def)
qed

text \<open>
  C25. Applying headers keeps the invariant of the voting snapshot: each fullnode has at most one
  vote per account, every vote was cast by a member and would change the membership of the account,
  and the tally counts exactly the votes.
\<close>
theorem snapshot_invariant:
  "(distinct as \<longrightarrow> snap_ok cr (newSnapshot e n h (NewFullnodeSet cr as p))) \<and>
   (snap_ok cr s \<and> snap_apply cr recent hs s = Some (Inr s') \<longrightarrow> snap_ok cr s')"
  by (auto intro: snap_ok_new snap_apply_ok)

theorem snapshot_invariant_witness:
  "\<exists>s'. snap_apply demo_crypto (\<lambda>_. None) [demo_self_header] demo_snapshot = Some (Inr s') \<and> snap_ok demo_crypto s'"
proof -
  obtain s' where "snap_apply demo_crypto (\<lambda>_. None) [demo_self_header] demo_snapshot = Some (Inr s')"
    using demo_self_apply by blast
  with snapshot_invariant [of "[]" demo_crypto 0 0 0 0 demo_snapshot "\<lambda>_. None" "[demo_self_header]" s'] demo_snapshot_ok
  show ?thesis by blast
qed



text \<open>
  C27. Applying headers to a snapshot in two batches gives the same number, hash, votes, tally and
  fullnodes as applying them in one.
\<close>
theorem snapshot_two_steps:
  assumes "snap_ok cr s" "snap_apply cr recent hs s = Some (Inr s1)" "snap_apply cr recent ks s1 = Some (Inr s2)"
  shows "\<exists>s2'. snap_apply cr recent (hs @ ks) s = Some (Inr s2') \<and>
           s_Number s2' = s_Number s2 \<and> s_Hash s2' = s_Hash s2 \<and> s_Votes s2' = s_Votes s2 \<and> s_Tally s2' = s_Tally s2 \<and>
           fullnodes (s_FullnodeSet s2') = fullnodes (s_FullnodeSet s2)"
proof -
  obtain x where "snap_apply cr recent (hs @ ks) s = Some (Inr (s2\<lparr>s_FullnodeSet := (s_FullnodeSet s2)\<lparr>speaker := x\<rparr>\<rparr>))"
    using snap_apply_append [OF assms] by blast
  then show ?thesis by simp
qed

theorem snapshot_two_steps_witness:
  "\<exists>s1 s2. snap_apply demo_crypto (\<lambda>_. None) [] demo_snapshot = Some (Inr s1) \<and>
     snap_apply demo_crypto (\<lambda>_. None) [demo_self_header] s1 = Some (Inr s2) \<and>
     (\<exists>s2'. snap_apply demo_crypto (\<lambda>_. None) ([] @ [demo_self_header]) demo_snapshot = Some (Inr s2') \<and>
        s_Votes s2' = s_Votes s2 \<and> s_Tally s2' = s_Tally s2)"
proof -
  obtain s2 where s2: "snap_apply demo_crypto (\<lambda>_. None) [demo_self_header] demo_snapshot = Some (Inr s2)"
    using demo_self_apply by blast
  have s1: "snap_apply demo_crypto (\<lambda>_. None) [] demo_snapshot = Some (Inr demo_snapshot)" by simp
  from snapshot_two_steps [OF demo_snapshot_ok s1 s2] s1 s2 show ?thesis by blast
qed

text \<open>
  C28. The exchange sort in fullnodes() lists exactly the members of the set in ascending order.
\<close>
theorem snapshot_fullnodes_sorted:
  "snap_fullnodes s = sort (fullnodes (s_FullnodeSet s))"
  by (simp add: snap_fullnodes_def exchange_sort_sort)

text \<open>
  C29. A block without a vote has nonce zero, which reads as a vote to drop its coinbase: with a
  single fullnode whose coinbase is its own address, the first such block removes it and leaves the
  set empty.
\<close>
theorem lone_fullnode_drops_itself:
  assumes "snap_ok cr s" "fullnodes (s_FullnodeSet s) = [a]" "s_Epoch s \<noteq> 0" "h_Number h \<noteq> None"
    and "ecrecover cr recent h = Inr a" "h_Coinbase h = a" "h_Nonce h = 0"
  shows "\<exists>s'. applyHeader cr recent h s = Some (Inr s') \<and> fullnodes (s_FullnodeSet s') = []"
  using assms by (rule lone_drop)

theorem lone_fullnode_drops_itself_witness:
  "\<exists>s'. applyHeader demo_crypto (\<lambda>_. None) demo_self_header demo_snapshot = Some (Inr s') \<and> fullnodes (s_FullnodeSet s') = []"
  by (rule lone_fullnode_drops_itself [OF demo_snapshot_ok _ _ _ demo_self_signer])
    (simp_all add: demo_snapshot_def newSnapshot_def demo_self_header_def demo_header_def)

end
