(* ===== verification/Engine.thy ===== *)
theory Engine
  imports Snapshot
begin

text \<open>
  The Sport engine: finding the voting snapshot of a block and verifying headers
  (\<open>consensus/sport/backend/backend_engine.go\<close>, \<open>backend_engine_sport.go\<close>, the persistent form of
  snapshots in \<open>model.go\<close> and \<open>snapshot.go\<close>).

  The chain is what the engine reads of it through \<open>consensus.ChainReader\<close>. An operation takes the
  state of the backend and gives an error or a value and the new state; \<open>None\<close> is a panic. Third-party
  code is in the environment: the current time, whether the database accepts a write, and what the
  ARC cache keeps after an addition.
\<close>

subsection \<open>The chain, the environment and the state\<close>

record chainReader =
  GetHeader :: "hash \<Rightarrow> uint64 \<Rightarrow> header option"
  GetHeaderByNumber :: "uint64 \<Rightarrow> header option"
  GetHeaderByHash :: "hash \<Rightarrow> header option"
  CurrentHeader :: "header option"
  SixtySixPercentBlock :: "int option"

text \<open>JSON is the struct it is made from and read into.\<close>

record snapshotJSON =
  j_Epoch :: uint64
  j_Number :: uint64
  j_Hash :: hash
  j_Votes :: "Vote list"
  j_Tally :: "(address \<times> Tally) list"
  j_Fullnodes :: "address list"
  j_Policy :: uint64

record engineEnv =
  e_crypto :: crypto
  e_recentAddresses :: "hash \<Rightarrow> address option"
  e_nowNano :: int
  e_putErr :: "hash \<Rightarrow> error option"
  e_evict :: "(hash \<Rightarrow> Snapshot option) \<Rightarrow> hash \<Rightarrow> Snapshot option"

record sportBackend =
  sb_config :: Config
  sb_address :: address
  sb_db :: "hash \<Rightarrow> snapshotJSON option"
  sb_recents :: "hash \<Rightarrow> Snapshot option"
  sb_candidates :: "(address \<times> bool) list"
  sb_coreStarted :: bool
  sb_proposedBlockHash :: hash

type_synonym 'a run = "((error + 'a) \<times> sportBackend) option"

definition andThen :: "'a run \<Rightarrow> ('a \<Rightarrow> sportBackend \<Rightarrow> 'b run) \<Rightarrow> 'b run" where
  "andThen m f =
     (case m of None \<Rightarrow> None
      | Some (r, sb) \<Rightarrow> (case r of Inl err \<Rightarrow> Some (Inl err, sb) | Inr x \<Rightarrow> f x sb))"

definition now_Unix :: "engineEnv \<Rightarrow> int" where
  "now_Unix env = e_nowNano env div 1000000000"


subsection \<open>Snapshots on disk\<close>

definition toJSONStruct :: "Snapshot \<Rightarrow> snapshotJSON" where
  "toJSONStruct s =
     \<lparr>j_Epoch = s_Epoch s, j_Number = s_Number s, j_Hash = s_Hash s, j_Votes = s_Votes s, j_Tally = s_Tally s,
      j_Fullnodes = snap_fullnodes s, j_Policy = policy (s_FullnodeSet s)\<rparr>"

definition snap_UnmarshalJSON :: "crypto \<Rightarrow> snapshotJSON \<Rightarrow> Snapshot" where
  "snap_UnmarshalJSON cr j =
     \<lparr>s_Epoch = j_Epoch j, s_Number = j_Number j, s_Hash = j_Hash j, s_Votes = j_Votes j, s_Tally = j_Tally j,
      s_FullnodeSet = NewFullnodeSet cr (j_Fullnodes j) (j_Policy j)\<rparr>"

definition loadSnapshot :: "crypto \<Rightarrow> uint64 \<Rightarrow> (hash \<Rightarrow> snapshotJSON option) \<Rightarrow> hash \<Rightarrow> Snapshot option" where
  "loadSnapshot cr epoch db hash =
     (case db hash of None \<Rightarrow> None
      | Some blob \<Rightarrow> Some ((snap_UnmarshalJSON cr blob)\<lparr>s_Epoch := epoch\<rparr>))"

definition snap_store :: "engineEnv \<Rightarrow> Snapshot \<Rightarrow> sportBackend \<Rightarrow> unit run" where
  "snap_store env s sb =
     Some (case e_putErr env (s_Hash s) of
        Some err \<Rightarrow> (Inl err, sb)
      | None \<Rightarrow> (Inr (), sb\<lparr>sb_db := (sb_db sb)(s_Hash s \<mapsto> toJSONStruct s)\<rparr>))"

definition recents_Add :: "engineEnv \<Rightarrow> Snapshot \<Rightarrow> sportBackend \<Rightarrow> sportBackend" where
  "recents_Add env s sb = sb\<lparr>sb_recents := e_evict env ((sb_recents sb)(s_Hash s \<mapsto> s))\<rparr>"


subsection \<open>The snapshot of a block\<close>

definition checkpointInterval :: uint64 where
  "checkpointInterval = 1024"

text \<open>
  \<open>genesisSnapshot\<close> is the branch for block zero; \<open>verify\<close> is \<open>VerifyHeader\<close> of the genesis header.
  A missing genesis header is dereferenced.
\<close>

definition genesisSnapshot ::
    "engineEnv \<Rightarrow> chainReader \<Rightarrow> (header \<Rightarrow> sportBackend \<Rightarrow> unit run) \<Rightarrow> sportBackend \<Rightarrow> Snapshot run" where
  "genesisSnapshot env chain verify sb =
     (case GetHeaderByNumber chain 0 of None \<Rightarrow> None
      | Some genesis \<Rightarrow>
          andThen (verify genesis sb) (\<lambda>_ sb.
            case ExtractSportExtra genesis of Inl err \<Rightarrow> Some (Inl err, sb)
            | Inr sportExtra \<Rightarrow>
                let snap = newSnapshot (Epoch (sb_config sb)) 0 (header_Hash (e_crypto env) genesis)
                      (NewFullnodeSet (e_crypto env) (Fullnodes sportExtra) (SpeakerPolicy (sb_config sb)))
                in andThen (snap_store env snap sb) (\<lambda>_ sb. Some (Inr snap, sb))))"

text \<open>The header to move back over: the last of the explicit parents, or one of the chain.\<close>

definition pickHeader ::
    "engineEnv \<Rightarrow> chainReader \<Rightarrow> uint64 \<Rightarrow> hash \<Rightarrow> header list \<Rightarrow> (error + header \<times> header list) option" where
  "pickHeader env chain number hash parents =
     (if parents \<noteq> [] then
        let header = last parents
        in if header_Hash (e_crypto env) header \<noteq> hash then Some (Inl ErrUnknownAncestor)
           else (case header_Uint64 header of None \<Rightarrow> None
                 | Some n \<Rightarrow> if n \<noteq> number then Some (Inl ErrUnknownAncestor) else Some (Inr (header, butlast parents)))
      else (case GetHeader chain hash number of
              None \<Rightarrow> Some (Inl ErrUnknownAncestor) | Some header \<Rightarrow> Some (Inr (header, parents))))"

text \<open>The loop of \<open>snapshot\<close>: the snapshot it stops at and the headers gathered, the newest first.\<close>

function findSnapshot ::
    "engineEnv \<Rightarrow> chainReader \<Rightarrow> (header \<Rightarrow> sportBackend \<Rightarrow> unit run) \<Rightarrow> uint64 \<Rightarrow> hash \<Rightarrow> header list \<Rightarrow>
     header list \<Rightarrow> sportBackend \<Rightarrow> (Snapshot \<times> header list) run" where
  "findSnapshot env chain verify number hash parents headers sb =
     (case sb_recents sb hash of Some s \<Rightarrow> Some (Inr (s, headers), sb)
      | None \<Rightarrow>
          (case (if number mod checkpointInterval = 0
                 then loadSnapshot (e_crypto env) (Epoch (sb_config sb)) (sb_db sb) hash else None) of
             Some s \<Rightarrow> Some (Inr (s, headers), sb)
           | None \<Rightarrow>
               if number = 0 then andThen (genesisSnapshot env chain verify sb) (\<lambda>s sb. Some (Inr (s, headers), sb))
               else (case pickHeader env chain number hash parents of
                  None \<Rightarrow> None
                | Some (Inl err) \<Rightarrow> Some (Inl err, sb)
                | Some (Inr (header, parents)) \<Rightarrow>
                    findSnapshot env chain verify (number - 1) (h_ParentHash header) parents (headers @ [header]) sb)))"
  by pat_completeness auto

lemma unat_pred_less: "n \<noteq> 0 \<Longrightarrow> unat (n - 1 :: uint64) < unat n"
  by (simp add: unat_minus_one unat_gt_0)

termination findSnapshot
  by (relation "measure (\<lambda>(_, _, _, number, _). unat number)") (auto simp: unat_pred_less)

declare findSnapshot.simps [simp del]

text \<open>What follows the loop: the gathered headers are applied and the result is cached and, at a checkpoint, stored.\<close>

definition finishSnapshot :: "engineEnv \<Rightarrow> header list \<Rightarrow> Snapshot \<Rightarrow> sportBackend \<Rightarrow> Snapshot run" where
  "finishSnapshot env headers snap sb =
     (case snap_apply (e_crypto env) (e_recentAddresses env) (rev headers) snap of
        None \<Rightarrow> None
      | Some (Inl err) \<Rightarrow> Some (Inl err, sb)
      | Some (Inr snap) \<Rightarrow>
          let sb = recents_Add env snap sb
          in if s_Number snap mod checkpointInterval = 0 \<and> headers \<noteq> [] then
               andThen (snap_store env snap sb) (\<lambda>_ sb. Some (Inr snap, sb))
             else Some (Inr snap, sb))"

definition snapshotWith ::
    "engineEnv \<Rightarrow> chainReader \<Rightarrow> (header \<Rightarrow> sportBackend \<Rightarrow> unit run) \<Rightarrow>
     uint64 \<Rightarrow> hash \<Rightarrow> header list \<Rightarrow> sportBackend \<Rightarrow> Snapshot run" where
  "snapshotWith env chain verify number hash parents sb =
     andThen (findSnapshot env chain verify number hash parents [] sb) (\<lambda>(snap, headers). finishSnapshot env headers snap)"


subsection \<open>Verifying a header\<close>

text \<open>\<open>snapshot\<close> and \<open>verifyHeader\<close> call each other; the functions below take \<open>snapshot\<close> as \<open>snapshotFn\<close>.\<close>

type_synonym snapshotFn = "uint64 \<Rightarrow> hash \<Rightarrow> header list \<Rightarrow> sportBackend \<Rightarrow> Snapshot run"

definition verifySigner :: "engineEnv \<Rightarrow> snapshotFn \<Rightarrow> header \<Rightarrow> header list \<Rightarrow> sportBackend \<Rightarrow> unit run" where
  "verifySigner env snapshotFn header parents sb =
     (case header_Uint64 header of None \<Rightarrow> None
      | Some number \<Rightarrow>
          if number = 0 then Some (Inl errUnknownBlock, sb)
          else andThen (snapshotFn (number - 1) (h_ParentHash header) parents sb) (\<lambda>snap sb.
            Some (case ecrecover (e_crypto env) (e_recentAddresses env) header of
                Inl err \<Rightarrow> (Inl err, sb)
              | Inr signer \<Rightarrow>
                  if GetByAddress signer (s_FullnodeSet snap) = None then (Inl errUnauthorized, sb) else (Inr (), sb))))"

text \<open>The loop over the committed seals counts the fullnodes that are taken off the copied set.\<close>

fun countSeals :: "crypto \<Rightarrow> bytes \<Rightarrow> bytes list \<Rightarrow> fullnodeSet \<Rightarrow> nat \<Rightarrow> error + nat" where
  "countSeals cr proposalSeal [] fs validSeal = Inr validSeal"
| "countSeals cr proposalSeal (seal # seals) fs validSeal =
     (case GetSignatureAddress cr proposalSeal seal of
        Inl _ \<Rightarrow> Inl errInvalidSignature
      | Inr addr \<Rightarrow>
          (case RemoveFullnode addr fs of
             (fs, True) \<Rightarrow> countSeals cr proposalSeal seals fs (validSeal + 1)
           | (_, False) \<Rightarrow> Inl errInvalidCommittedSeals))"

definition verifyCommittedSeals ::
    "engineEnv \<Rightarrow> chainReader \<Rightarrow> snapshotFn \<Rightarrow> header \<Rightarrow> header list \<Rightarrow> sportBackend \<Rightarrow> unit run" where
  "verifyCommittedSeals env chain snapshotFn header parents sb =
     (case (h_Number header, header_Uint64 header) of
        (Some bigNumber, Some number) \<Rightarrow>
          if number = 0 then Some (Inr (), sb)
          else andThen (snapshotFn (number - 1) (h_ParentHash header) parents sb) (\<lambda>snap sb.
            (case ExtractSportExtra header of Inl err \<Rightarrow> Some (Inl err, sb)
             | Inr extra \<Rightarrow>
                 if CommittedSeals extra = [] then Some (Inl errEmptyCommittedSeals, sb)
                 else let proposalSeal = PrepareCommittedSeal (header_Hash (e_crypto env) header)
                   in (case countSeals (e_crypto env) proposalSeal (CommittedSeals extra)
                              (Copy (e_crypto env) (s_FullnodeSet snap)) 0 of
                         Inl err \<Rightarrow> Some (Inl err, sb)
                       | Inr validSeal \<Rightarrow>
                           let minApprovers = MinApprovers (s_FullnodeSet snap)
                           in if validSeal < minApprovers then
                                (case SixtySixPercentBlock chain of None \<Rightarrow> None
                                 | Some fork \<Rightarrow>
                                     if bigNumber > fork \<or> int validSeal < int minApprovers - 1
                                     then Some (Inl errInvalidCommittedSeals, sb) else Some (Inr (), sb))
                              else Some (Inr (), sb))))
      | _ \<Rightarrow> None)"

definition verifyCascadingFields ::
    "engineEnv \<Rightarrow> chainReader \<Rightarrow> snapshotFn \<Rightarrow> header \<Rightarrow> header list \<Rightarrow> sportBackend \<Rightarrow> unit run" where
  "verifyCascadingFields env chain snapshotFn header parents sb =
     (case header_Uint64 header of None \<Rightarrow> None
      | Some number \<Rightarrow>
          if number = 0 then Some (Inr (), sb)
          else (case (if parents \<noteq> [] then Some (last parents) else GetHeader chain (h_ParentHash header) (number - 1)) of
              None \<Rightarrow> Some (Inl ErrUnknownAncestor, sb)
            | Some parent \<Rightarrow>
                (case header_Uint64 parent of None \<Rightarrow> None
                 | Some parentNumber \<Rightarrow>
                     if parentNumber \<noteq> number - 1 \<or> header_Hash (e_crypto env) parent \<noteq> h_ParentHash header
                     then Some (Inl ErrUnknownAncestor, sb)
                     else if h_Time parent + BlockPeriod (sb_config sb) > h_Time header then Some (Inl errInvalidTimestamp, sb)
                     else andThen (snapshotFn (number - 1) (h_ParentHash header) parents sb) (\<lambda>_ sb.
                       andThen (verifySigner env snapshotFn header parents sb) (\<lambda>_ sb.
                         verifyCommittedSeals env chain snapshotFn header parents sb)))))"

definition EmptyUncleHash :: "crypto \<Rightarrow> hash" where
  "EmptyUncleHash cr = rlpHash cr (list_item header_item) []"

definition CalcUncleHash :: "crypto \<Rightarrow> header list \<Rightarrow> hash" where
  "CalcUncleHash cr uncles = (if uncles = [] then EmptyUncleHash cr else rlpHash cr (list_item header_item) uncles)"

definition nilUncleHash :: "crypto \<Rightarrow> hash" where
  "nilUncleHash cr = CalcUncleHash cr []"

definition defaultDifficulty :: int where
  "defaultDifficulty = 1"

text \<open>The checks of \<open>verifyHeader\<close> on the header alone.\<close>

definition checkStandalone :: "engineEnv \<Rightarrow> header \<Rightarrow> error option" where
  "checkStandalone env header =
     (if h_Number header = None then Some errUnknownBlock
      else if sint (h_Time header) > now_Unix env then Some ErrFutureBlock
      else (case ExtractSportExtra header of Inl _ \<Rightarrow> Some errInvalidExtraDataFormat
        | Inr _ \<Rightarrow>
            if h_Nonce header \<noteq> 0 \<and> h_Nonce header \<noteq> nonceAuthVote \<and> h_Nonce header \<noteq> nonceDropVote
            then Some errInvalidNonce
            else if h_MixDigest header \<noteq> SportDigest then Some errInvalidMixDigest
            else if h_UncleHash header \<noteq> nilUncleHash (e_crypto env) then Some errInvalidUncleHash
            else if h_Difficulty header \<noteq> Some defaultDifficulty then Some errInvalidDifficulty
            else None))"

definition verifyHeaderWith ::
    "engineEnv \<Rightarrow> chainReader \<Rightarrow> snapshotFn \<Rightarrow> header \<Rightarrow> header list \<Rightarrow> sportBackend \<Rightarrow> unit run" where
  "verifyHeaderWith env chain snapshotFn header parents sb =
     (case checkStandalone env header of
        Some err \<Rightarrow> Some (Inl err, sb)
      | None \<Rightarrow> verifyCascadingFields env chain snapshotFn header parents sb)"

text \<open>
  \<open>depth\<close> bounds how often \<open>snapshot\<close> verifies a genesis header within the verification of another
  one. One level is enough when block zero carries the number zero.
\<close>

primrec snapshotDepth ::
    "nat \<Rightarrow> engineEnv \<Rightarrow> chainReader \<Rightarrow> uint64 \<Rightarrow> hash \<Rightarrow> header list \<Rightarrow> sportBackend \<Rightarrow> Snapshot run" where
  "snapshotDepth 0 env chain number hash parents sb = None"
| "snapshotDepth (Suc depth) env chain number hash parents sb =
     snapshotWith env chain (\<lambda>genesis. verifyHeaderWith env chain (snapshotDepth depth env chain) genesis [])
       number hash parents sb"

definition snapshot :: "engineEnv \<Rightarrow> chainReader \<Rightarrow> uint64 \<Rightarrow> hash \<Rightarrow> header list \<Rightarrow> sportBackend \<Rightarrow> Snapshot run" where
  "snapshot = snapshotDepth 2"

definition verifyHeader :: "engineEnv \<Rightarrow> chainReader \<Rightarrow> header \<Rightarrow> header list \<Rightarrow> sportBackend \<Rightarrow> unit run" where
  "verifyHeader env chain = verifyHeaderWith env chain (snapshot env chain)"

definition VerifyHeader :: "engineEnv \<Rightarrow> chainReader \<Rightarrow> header \<Rightarrow> bool \<Rightarrow> sportBackend \<Rightarrow> unit run" where
  "VerifyHeader env chain header seal sb = verifyHeader env chain header [] sb"

text \<open>\<open>VerifyHeaders\<close> with no abort: the results in the order of the headers.\<close>

fun verifyHeadersFrom ::
    "engineEnv \<Rightarrow> chainReader \<Rightarrow> header list \<Rightarrow> header list \<Rightarrow> sportBackend \<Rightarrow> ((error + unit) list \<times> sportBackend) option" where
  "verifyHeadersFrom env chain before [] sb = Some ([], sb)"
| "verifyHeadersFrom env chain before (header # headers) sb =
     (case verifyHeader env chain header before sb of None \<Rightarrow> None
      | Some (r, sb) \<Rightarrow> map_option (apfst ((#) r)) (verifyHeadersFrom env chain (before @ [header]) headers sb))"

definition VerifyHeaders ::
    "engineEnv \<Rightarrow> chainReader \<Rightarrow> header list \<Rightarrow> sportBackend \<Rightarrow> ((error + unit) list \<times> sportBackend) option" where
  "VerifyHeaders env chain headers sb = verifyHeadersFrom env chain [] headers sb"

definition VerifySeal :: "engineEnv \<Rightarrow> chainReader \<Rightarrow> header \<Rightarrow> sportBackend \<Rightarrow> unit run" where
  "VerifySeal env chain header sb =
     (case header_Uint64 header of None \<Rightarrow> None
      | Some number \<Rightarrow>
          if number = 0 then Some (Inl errUnknownBlock, sb)
          else (case h_Difficulty header of None \<Rightarrow> None
            | Some difficulty \<Rightarrow>
                if difficulty \<noteq> defaultDifficulty then Some (Inl errInvalidDifficulty, sb)
                else verifySigner env (snapshot env chain) header [] sb))"

definition Author :: "engineEnv \<Rightarrow> header \<Rightarrow> error + address" where
  "Author env header = ecrecover (e_crypto env) (e_recentAddresses env) header"


subsection \<open>Runs\<close>

lemma andThen_Inr:
  "andThen m f = Some (Inr y, sb') \<longleftrightarrow> (\<exists>x sb. m = Some (Inr x, sb) \<and> f x sb = Some (Inr y, sb'))"
  by (auto simp: andThen_def split: option.splits sum.splits prod.splits)

lemma andThen_None: "andThen m f = None \<longleftrightarrow> m = None \<or> (\<exists>x sb. m = Some (Inr x, sb) \<and> f x sb = None)"
  by (auto simp: andThen_def split: option.splits sum.splits prod.splits)

lemma andThen_simps [simp]:
  "andThen (Some (Inl err, sb)) f = Some (Inl err, sb)" "andThen (Some (Inr x, sb)) f = f x sb"
  by (simp_all add: andThen_def)

text \<open>\<open>keeps I m\<close>: the run ends in a state that satisfies \<open>I\<close>, with an error or without.\<close>

definition keeps :: "(sportBackend \<Rightarrow> bool) \<Rightarrow> 'a run \<Rightarrow> bool" where
  "keeps I m \<longleftrightarrow> (\<forall>r sb. m = Some (r, sb) \<longrightarrow> I sb)"

lemma keepsD: "keeps I m \<Longrightarrow> m = Some (r, sb) \<Longrightarrow> I sb"
  by (simp add: keeps_def)

lemma keeps_simps [simp]: "keeps I None" "keeps I (Some (r, sb)) \<longleftrightarrow> I sb"
  by (auto simp: keeps_def)

lemma keeps_andThen:
  assumes "keeps I m" "\<And>x sb. m = Some (Inr x, sb) \<Longrightarrow> I sb \<Longrightarrow> keeps I (f x sb)"
  shows "keeps I (andThen m f)"
  using assms by (auto simp: andThen_def keeps_def split: option.splits sum.splits)


subsection \<open>What a snapshot stands for\<close>

text \<open>\<open>ancestry cr hs h0 h\<close>: the headers \<open>hs\<close>, the oldest first, lead from block \<open>h0\<close> to block \<open>h\<close> by parent hashes.\<close>

fun backwards :: "crypto \<Rightarrow> header list \<Rightarrow> hash \<Rightarrow> hash \<Rightarrow> bool" where
  "backwards cr [] h h0 \<longleftrightarrow> h = h0"
| "backwards cr (x # xs) h h0 \<longleftrightarrow> header_Hash cr x = h \<and> backwards cr xs (h_ParentHash x) h0"

definition ancestry :: "crypto \<Rightarrow> header list \<Rightarrow> hash \<Rightarrow> hash \<Rightarrow> bool" where
  "ancestry cr hs h0 h \<longleftrightarrow> backwards cr (rev hs) h h0"

lemma backwards_append: "backwards cr (xs @ ys) h h0 \<longleftrightarrow> (\<exists>m. backwards cr xs h m \<and> backwards cr ys m h0)"
  by (induction xs arbitrary: h) auto

lemma ancestry_append: "ancestry cr (hs @ ks) h0 h \<longleftrightarrow> (\<exists>m. ancestry cr hs h0 m \<and> ancestry cr ks m h)"
  by (auto simp: ancestry_def backwards_append)

lemma ancestry_Nil [simp]: "ancestry cr [] h0 h \<longleftrightarrow> h = h0"
  by (simp add: ancestry_def)

lemma ancestry_last: "ancestry cr hs h0 h \<Longrightarrow> hs \<noteq> [] \<Longrightarrow> header_Hash cr (last hs) = h"
  by (cases hs rule: rev_cases) (auto simp: ancestry_def)

abbreviation with_speaker :: "address option \<Rightarrow> Snapshot \<Rightarrow> Snapshot" where
  "with_speaker x s \<equiv> s\<lparr>s_FullnodeSet := (s_FullnodeSet s)\<lparr>speaker := x\<rparr>\<rparr>"

definition firstSnapshot :: "engineEnv \<Rightarrow> Config \<Rightarrow> header \<Rightarrow> sportExtra \<Rightarrow> Snapshot" where
  "firstSnapshot env cfg genesis extra =
     newSnapshot (Epoch cfg) 0 (header_Hash (e_crypto env) genesis)
       (NewFullnodeSet (e_crypto env) (Fullnodes extra) (SpeakerPolicy cfg))"

text \<open>\<open>s\<close> is, up to the cached speaker, the replay of a chain of headers that ends in block \<open>h\<close>.\<close>

definition replay_of :: "engineEnv \<Rightarrow> Snapshot \<Rightarrow> hash \<Rightarrow> Snapshot \<Rightarrow> bool" where
  "replay_of env G h s \<longleftrightarrow>
     (\<exists>hs h0 x. ancestry (e_crypto env) hs h0 h \<and>
        snap_apply (e_crypto env) (e_recentAddresses env) hs G = Some (Inr (with_speaker x s)))"

definition caches_ok :: "engineEnv \<Rightarrow> Snapshot \<Rightarrow> Config \<Rightarrow> sportBackend \<Rightarrow> bool" where
  "caches_ok env G cfg sb \<longleftrightarrow>
     sb_config sb = cfg \<and>
     (\<forall>h s. sb_recents sb h = Some s \<longrightarrow> replay_of env G h s) \<and>
     (\<forall>h s. loadSnapshot (e_crypto env) (Epoch cfg) (sb_db sb) h = Some s \<longrightarrow> replay_of env G h s)"

definition chain_ok :: "engineEnv \<Rightarrow> chainReader \<Rightarrow> header \<Rightarrow> sportExtra \<Rightarrow> bool" where
  "chain_ok env chain genesis extra \<longleftrightarrow>
     (\<forall>h n x. GetHeader chain h n = Some x \<longrightarrow> header_Hash (e_crypto env) x = h) \<and>
     GetHeaderByNumber chain 0 = Some genesis \<and> header_Uint64 genesis = Some 0 \<and>
     ExtractSportExtra genesis = Inr extra \<and> distinct (Fullnodes extra) \<and>
     (\<forall>m. e_evict env m \<subseteq>\<^sub>m m)"

lemma snap_ok_first: "chain_ok env chain genesis extra \<Longrightarrow> snap_ok (e_crypto env) (firstSnapshot env cfg genesis extra)"
  by (simp add: chain_ok_def firstSnapshot_def snap_ok_new)

lemma snap_ok_with_speaker [simp]: "snap_ok cr (with_speaker x s) = snap_ok cr s"
  by (simp add: snap_ok_def wf_set_def)

lemma snap_copy_with_speaker [simp]: "snap_copy cr (with_speaker x s) = snap_copy cr s"
  by (simp add: snap_copy_def Copy_def)

lemma snap_apply_with_speaker: "ks \<noteq> [] \<Longrightarrow> snap_apply cr recent ks (with_speaker x s) = snap_apply cr recent ks s"
  by (simp add: snap_apply_def cong: if_cong)

lemma replay_ok: "snap_ok (e_crypto env) G \<Longrightarrow> replay_of env G h s \<Longrightarrow> snap_ok (e_crypto env) s"
  using snap_apply_ok by (fastforce simp: replay_of_def)

lemma replay_Epoch: "replay_of env G h s \<Longrightarrow> s_Epoch s = s_Epoch G"
  by (auto simp: replay_of_def dest!: snap_apply_Epoch)

lemma replay_with_speaker: "replay_of env G h (with_speaker x s) = replay_of env G h s"
  by (auto simp: replay_of_def)

lemma replay_first: "replay_of env G h G"
  unfolding replay_of_def by (rule exI [of _ "[]"]) (auto intro: exI [of _ "speaker (s_FullnodeSet G)"])

text \<open>Replaying further headers on a replay gives a replay.\<close>

lemma replay_apply:
  assumes "snap_ok (e_crypto env) G" "replay_of env G h s" "ancestry (e_crypto env) ks h h'"
    and "snap_apply (e_crypto env) (e_recentAddresses env) ks s = Some (Inr s')"
  shows "replay_of env G h' s'"
proof (cases "ks = []")
  case True
  with assms show ?thesis by simp
next
  case False
  obtain hs h0 x where hs: "ancestry (e_crypto env) hs h0 h"
    "snap_apply (e_crypto env) (e_recentAddresses env) hs G = Some (Inr (with_speaker x s))"
    using assms(2) by (auto simp: replay_of_def)
  have "snap_apply (e_crypto env) (e_recentAddresses env) ks (with_speaker x s) = Some (Inr s')"
    using assms(4) False by (simp add: snap_apply_with_speaker)
  from snap_apply_append [OF assms(1) hs(2) this] have "\<exists>x. snap_apply (e_crypto env) (e_recentAddresses env) (hs @ ks) G = Some (Inr (with_speaker x s'))" .
  moreover have "ancestry (e_crypto env) (hs @ ks) h0 h'" using hs(1) assms(3) by (auto simp: ancestry_append)
  ultimately show ?thesis unfolding replay_of_def by blast
qed


subsection \<open>Storing and loading\<close>

lemma load_stored:
  assumes "snap_ok cr s"
  shows "\<exists>x. (snap_UnmarshalJSON cr (toJSONStruct s))\<lparr>s_Epoch := s_Epoch s\<rparr> = with_speaker x s"
proof -
  have "NewFullnodeSet cr (snap_fullnodes s) (policy (s_FullnodeSet s)) = Copy cr (s_FullnodeSet s)"
    unfolding Copy_def by (rule New_perm) (simp add: snap_fullnodes_def exchange_sort_sort)
  moreover obtain x where "Copy cr (s_FullnodeSet s) = (s_FullnodeSet s)\<lparr>speaker := x\<rparr>"
    using Copy_speaker snap_okD(1) [OF assms] by blast
  ultimately have "(snap_UnmarshalJSON cr (toJSONStruct s))\<lparr>s_Epoch := s_Epoch s\<rparr> = with_speaker x s"
    by (simp add: snap_UnmarshalJSON_def toJSONStruct_def)
  then show ?thesis by blast
qed

lemma caches_store:
  assumes "caches_ok env G cfg sb" "snap_ok (e_crypto env) G" "s_Epoch G = Epoch cfg" "replay_of env G (s_Hash s) s"
  shows "caches_ok env G cfg (sb\<lparr>sb_db := (sb_db sb)(s_Hash s \<mapsto> toJSONStruct s)\<rparr>)"
proof -
  have e: "s_Epoch s = Epoch cfg" using replay_Epoch [OF assms(4)] assms(3) by simp
  obtain x where x: "(snap_UnmarshalJSON (e_crypto env) (toJSONStruct s))\<lparr>s_Epoch := Epoch cfg\<rparr> = with_speaker x s"
    using load_stored [OF replay_ok [OF assms(2,4)]] unfolding e by blast
  then show ?thesis using assms(1,4)
    by (auto simp: caches_ok_def loadSnapshot_def replay_with_speaker)
qed

lemma caches_Add:
  assumes "caches_ok env G cfg sb" "\<And>m. e_evict env m \<subseteq>\<^sub>m m" "replay_of env G (s_Hash s) s"
  shows "caches_ok env G cfg (recents_Add env s sb)"
proof -
  have "replay_of env G h s'" if "e_evict env ((sb_recents sb)(s_Hash s \<mapsto> s)) h = Some s'" for h s'
  proof -
    have "((sb_recents sb)(s_Hash s \<mapsto> s)) h = Some s'"
      using assms(2) that by (metis domI map_le_def)
    then show ?thesis using assms(1,3) by (auto simp: caches_ok_def split: if_splits)
  qed
  then show ?thesis using assms(1) by (simp add: caches_ok_def recents_Add_def)
qed


subsection \<open>The snapshot is a replay\<close>

text \<open>Verifying the genesis header needs no snapshot.\<close>

lemma verify_genesis:
  assumes "header_Uint64 genesis = Some 0"
  shows "verifyHeaderWith env chain f genesis ps sb =
           Some (case checkStandalone env genesis of Some err \<Rightarrow> Inl err | None \<Rightarrow> Inr (), sb)"
  using assms by (simp add: verifyHeaderWith_def verifyCascadingFields_def split: option.split)

definition genesisVerifier :: "engineEnv \<Rightarrow> chainReader \<Rightarrow> (header \<Rightarrow> sportBackend \<Rightarrow> unit run) \<Rightarrow> bool" where
  "genesisVerifier env chain verify \<longleftrightarrow>
     (\<forall>genesis sb. GetHeaderByNumber chain 0 = Some genesis \<longrightarrow>
        verify genesis sb = Some (case checkStandalone env genesis of Some err \<Rightarrow> Inl err | None \<Rightarrow> Inr (), sb))"

lemma genesisVerifier:
  assumes "chain_ok env chain genesis extra"
  shows "genesisVerifier env chain (\<lambda>g. verifyHeaderWith env chain f g [])"
  using assms by (auto simp: genesisVerifier_def chain_ok_def intro: verify_genesis)

lemma genesisSnapshot_unique:
  "genesisVerifier env chain v \<Longrightarrow> genesisVerifier env chain w \<Longrightarrow> genesisSnapshot env chain v sb = genesisSnapshot env chain w sb"
  by (auto simp: genesisSnapshot_def genesisVerifier_def split: option.split)

text \<open>One round of the loop.\<close>

definition cachedSnapshot :: "engineEnv \<Rightarrow> uint64 \<Rightarrow> hash \<Rightarrow> sportBackend \<Rightarrow> Snapshot option" where
  "cachedSnapshot env number hash sb =
     (case sb_recents sb hash of Some s \<Rightarrow> Some s
      | None \<Rightarrow> if number mod checkpointInterval = 0
          then loadSnapshot (e_crypto env) (Epoch (sb_config sb)) (sb_db sb) hash else None)"

lemma findSnapshot_cases:
  obtains (cached) s where "cachedSnapshot env number hash sb = Some s"
      "\<And>verify. findSnapshot env chain verify number hash parents headers sb = Some (Inr (s, headers), sb)"
  | (genesis) "number = 0"
      "\<And>verify. findSnapshot env chain verify number hash parents headers sb =
        andThen (genesisSnapshot env chain verify sb) (\<lambda>s sb. Some (Inr (s, headers), sb))"
  | (panic) "number \<noteq> 0" "pickHeader env chain number hash parents = None"
      "\<And>verify. findSnapshot env chain verify number hash parents headers sb = None"
  | (error) err where "number \<noteq> 0"
      "\<And>verify. findSnapshot env chain verify number hash parents headers sb = Some (Inl err, sb)"
  | (move) header ps where "number \<noteq> 0" "pickHeader env chain number hash parents = Some (Inr (header, ps))"
      "\<And>verify. findSnapshot env chain verify number hash parents headers sb =
        findSnapshot env chain verify (number - 1) (h_ParentHash header) ps (headers @ [header]) sb"
proof (cases "cachedSnapshot env number hash sb")
  case (Some s)
  then show ?thesis using cached
    by (simp add: cachedSnapshot_def findSnapshot.simps [of env chain _ number] split: option.splits if_splits)
next
  case None
  show ?thesis
  proof (cases "number = 0")
    case True
    then show ?thesis using None genesis
      by (simp add: cachedSnapshot_def findSnapshot.simps [of env chain _ 0] split: option.splits if_splits)
  next
    case False
    show ?thesis
    proof (cases "pickHeader env chain number hash parents")
      case None': None
      then show ?thesis using None False panic
        by (simp add: cachedSnapshot_def findSnapshot.simps [of env chain _ number] split: option.splits if_splits)
    next
      case pick: (Some r)
      show ?thesis
      proof (cases r)
        case (Inl err)
        then show ?thesis using pick None False error
          by (simp add: cachedSnapshot_def findSnapshot.simps [of env chain _ number] split: option.splits if_splits)
      next
        case (Inr p)
        then show ?thesis using pick None False move [of "fst p" "snd p"]
          by (cases p) (simp add: cachedSnapshot_def findSnapshot.simps [of env chain _ number] split: option.splits if_splits)
      qed
    qed
  qed
qed

lemma findSnapshot_unique:
  assumes "genesisVerifier env chain v" "genesisVerifier env chain w"
  shows "findSnapshot env chain v number hash parents headers sb = findSnapshot env chain w number hash parents headers sb"
proof (induction "unat number" arbitrary: number hash parents headers rule: less_induct)
  case less
  show ?case
  proof (cases rule: findSnapshot_cases [of env number hash sb chain parents headers])
    case genesis
    then show ?thesis using genesisSnapshot_unique [OF assms] by simp
  next
    case (move header ps)
    then show ?thesis using less [OF unat_pred_less] by simp
  qed simp_all
qed

lemma snapshotDepth_enough:
  assumes "chain_ok env chain genesis extra"
  shows "snapshotDepth (Suc n) env chain = snapshotDepth (Suc m) env chain"
proof (intro ext)
  fix number hash parents sb
  show "snapshotDepth (Suc n) env chain number hash parents sb = snapshotDepth (Suc m) env chain number hash parents sb"
    unfolding snapshotDepth.simps snapshotWith_def
    by (subst findSnapshot_unique [OF genesisVerifier [OF assms] genesisVerifier [OF assms]]) (rule refl)
qed

lemma caches_cached: "caches_ok env G cfg sb \<Longrightarrow> cachedSnapshot env number h sb = Some s \<Longrightarrow> replay_of env G h s"
  by (auto simp: caches_ok_def cachedSnapshot_def split: option.splits if_splits)

lemma store_spec:
  assumes "caches_ok env G cfg sb" "snap_ok (e_crypto env) G" "s_Epoch G = Epoch cfg" "replay_of env G (s_Hash s) s"
  shows "keeps (caches_ok env G cfg) (snap_store env s sb)"
  using caches_store [OF assms] assms(1) by (simp add: snap_store_def split: option.split)

lemma genesisSnapshot_spec:
  assumes "chain_ok env chain genesis extra" "genesisVerifier env chain verify"
    and "G = firstSnapshot env cfg genesis extra" "caches_ok env G cfg sb"
  shows "keeps (caches_ok env G cfg) (genesisSnapshot env chain verify sb)"
    and "genesisSnapshot env chain verify sb = Some (Inr s, sb') \<Longrightarrow> s = G"
proof -
  have eq: "genesisSnapshot env chain verify sb =
      (case checkStandalone env genesis of Some err \<Rightarrow> Some (Inl err, sb)
       | None \<Rightarrow> andThen (snap_store env G sb) (\<lambda>_ sb. Some (Inr G, sb)))"
    using assms by (simp add: genesisSnapshot_def genesisVerifier_def chain_ok_def firstSnapshot_def caches_ok_def Let_def split: option.split)
  have e: "s_Epoch G = Epoch cfg" by (simp add: assms(3) firstSnapshot_def newSnapshot_def)
  have "keeps (caches_ok env G cfg) (andThen (snap_store env G sb) (\<lambda>_ sb. Some (Inr G, sb)))"
    by (rule keeps_andThen [OF store_spec [OF assms(4) _ e replay_first]]) (simp_all add: assms(3) snap_ok_first [OF assms(1)])
  then show "keeps (caches_ok env G cfg) (genesisSnapshot env chain verify sb)"
    using assms(4) by (simp add: eq split: option.split)
  show "genesisSnapshot env chain verify sb = Some (Inr s, sb') \<Longrightarrow> s = G"
    by (auto simp: eq andThen_Inr split: option.splits)
qed

lemma pickHeader_hash:
  assumes "chain_ok env chain genesis extra" "pickHeader env chain number hash parents = Some (Inr (header, ps))"
  shows "header_Hash (e_crypto env) header = hash"
  using assms by (auto simp: pickHeader_def chain_ok_def Let_def split: if_splits option.splits)

lemma findSnapshot_keeps:
  assumes "chain_ok env chain genesis extra" "genesisVerifier env chain verify"
    and "G = firstSnapshot env cfg genesis extra" "caches_ok env G cfg sb"
  shows "keeps (caches_ok env G cfg) (findSnapshot env chain verify number hash parents headers sb)"
proof (induction "unat number" arbitrary: number hash parents headers rule: less_induct)
  case less
  show ?case
  proof (cases rule: findSnapshot_cases [of env number hash sb chain parents headers])
    case genesis
    show ?thesis unfolding genesis(2) by (rule keeps_andThen [OF genesisSnapshot_spec(1) [OF assms]]) simp
  next
    case (move header ps)
    then show ?thesis using less [OF unat_pred_less] by simp
  qed (simp_all add: assms(4))
qed

lemma findSnapshot_replay:
  assumes "chain_ok env chain genesis extra" "genesisVerifier env chain verify"
    and "G = firstSnapshot env cfg genesis extra" "caches_ok env G cfg sb"
    and "findSnapshot env chain verify number hash parents headers sb = Some (Inr (s, ks), sb')"
  shows "\<exists>new h. ks = headers @ new \<and> backwards (e_crypto env) new hash h \<and> replay_of env G h s"
  using assms(5)
proof (induction "unat number" arbitrary: number hash parents headers rule: less_induct)
  case less
  show ?case
  proof (cases rule: findSnapshot_cases [of env number hash sb chain parents headers])
    case (cached t)
    then show ?thesis using less.prems caches_cached [OF assms(4)] by (intro exI [of _ "[]"]) auto
  next
    case genesis
    then have "s = G" "ks = headers" using less.prems genesisSnapshot_spec(2) [OF assms(1-4)] by (auto simp: andThen_Inr)
    then show ?thesis using replay_first by (intro exI [of _ "[]"]) auto
  next
    case (move header ps)
    obtain new h where n: "ks = (headers @ [header]) @ new" "backwards (e_crypto env) new (h_ParentHash header) h" "replay_of env G h s"
      using less.hyps [OF unat_pred_less [OF move(1)], of "h_ParentHash header" ps "headers @ [header]"] less.prems move(3) by auto
    then have "ks = headers @ (header # new)" "backwards (e_crypto env) (header # new) hash h"
      using pickHeader_hash [OF assms(1) move(2)] by simp_all
    then show ?thesis using n(3) by blast
  qed (use less.prems in simp_all)
qed

lemma backwards_rev: "backwards cr ks h h0 \<Longrightarrow> ancestry cr (rev ks) h0 h"
  by (simp add: ancestry_def)

lemma replay_Hash:
  assumes "snap_ok (e_crypto env) G" "replay_of env G h s"
  shows "replay_of env G (s_Hash s) s"
proof -
  obtain hs h0 x where hs: "ancestry (e_crypto env) hs h0 h"
    "snap_apply (e_crypto env) (e_recentAddresses env) hs G = Some (Inr (with_speaker x s))"
    using assms(2) by (auto simp: replay_of_def)
  show ?thesis
  proof (cases "hs = []")
    case True
    with hs(2) have "G = with_speaker x s" by simp
    then have "replay_of env G (s_Hash s) (with_speaker x s)" using replay_first [of env G] by metis
    then show ?thesis by (simp only: replay_with_speaker)
  next
    case False
    have "s_Hash s = h" using snap_apply_Hash [OF hs(2) False] ancestry_last [OF hs(1) False] by simp
    with assms(2) show ?thesis by simp
  qed
qed

lemma finishSnapshot_apply:
  assumes "finishSnapshot env headers snap sb = Some (Inr s, sb')"
  shows "snap_apply (e_crypto env) (e_recentAddresses env) (rev headers) snap = Some (Inr s)"
  using assms by (auto simp: finishSnapshot_def Let_def andThen_Inr split: option.splits sum.splits if_splits)

lemma finishSnapshot_keeps:
  assumes "caches_ok env G cfg sb" "\<And>m. e_evict env m \<subseteq>\<^sub>m m" "snap_ok (e_crypto env) G" "s_Epoch G = Epoch cfg"
    and "\<And>s. snap_apply (e_crypto env) (e_recentAddresses env) (rev headers) snap = Some (Inr s) \<Longrightarrow> replay_of env G h s"
  shows "keeps (caches_ok env G cfg) (finishSnapshot env headers snap sb)"
proof (cases "snap_apply (e_crypto env) (e_recentAddresses env) (rev headers) snap")
  case (Some r)
  show ?thesis
  proof (cases r)
    case (Inr s)
    have rep: "replay_of env G (s_Hash s) s" by (rule replay_Hash [OF assms(3) assms(5)]) (simp add: Some Inr)
    note add = caches_Add [OF assms(1,2) rep]
    have "keeps (caches_ok env G cfg) (andThen (snap_store env s (recents_Add env s sb)) (\<lambda>_ sb. Some (Inr s, sb)))"
      by (rule keeps_andThen [OF store_spec [OF add assms(3,4) rep]]) simp
    with add show ?thesis by (simp add: finishSnapshot_def Some Inr Let_def)
  qed (simp add: finishSnapshot_def Some assms(1))
qed (simp add: finishSnapshot_def)

lemma snapshotWith_spec:
  assumes "chain_ok env chain genesis extra" "genesisVerifier env chain verify"
    and "G = firstSnapshot env cfg genesis extra" "caches_ok env G cfg sb"
  shows "keeps (caches_ok env G cfg) (snapshotWith env chain verify number hash parents sb)"
    and "snapshotWith env chain verify number hash parents sb = Some (Inr s, sb') \<Longrightarrow> replay_of env G hash s"
proof -
  have ok: "snap_ok (e_crypto env) G" and e: "s_Epoch G = Epoch cfg"
    by (simp_all add: assms(3) snap_ok_first [OF assms(1)]) (simp add: firstSnapshot_def newSnapshot_def)
  have ev: "e_evict env m \<subseteq>\<^sub>m m" for m using assms(1) by (simp add: chain_ok_def)
  have rep: "replay_of env G hash s"
    if f: "findSnapshot env chain verify number hash parents [] sb = Some (Inr (snap, headers), sb1)"
      and a: "snap_apply (e_crypto env) (e_recentAddresses env) (rev headers) snap = Some (Inr s)" for snap headers sb1 s
  proof -
    obtain h where "backwards (e_crypto env) headers hash h" "replay_of env G h snap"
      using findSnapshot_replay [OF assms f] by auto
    then show ?thesis using replay_apply [OF ok _ backwards_rev a] by blast
  qed
  show "keeps (caches_ok env G cfg) (snapshotWith env chain verify number hash parents sb)"
    unfolding snapshotWith_def
    by (rule keeps_andThen [OF findSnapshot_keeps [OF assms]])
      (auto intro!: finishSnapshot_keeps [where h = hash] ev ok e rep)
  show "snapshotWith env chain verify number hash parents sb = Some (Inr s, sb') \<Longrightarrow> replay_of env G hash s"
    unfolding snapshotWith_def by (auto simp: andThen_Inr dest!: finishSnapshot_apply rep)
qed

lemma snapshot_spec:
  assumes "chain_ok env chain genesis extra" "G = firstSnapshot env cfg genesis extra" "caches_ok env G cfg sb"
  shows "keeps (caches_ok env G cfg) (snapshot env chain number hash parents sb)"
    and "snapshot env chain number hash parents sb = Some (Inr s, sb') \<Longrightarrow> replay_of env G hash s"
  using snapshotWith_spec [OF assms(1) genesisVerifier [OF assms(1)] assms(2,3)]
  by (simp_all add: snapshot_def numeral_2_eq_2)

end
