(* ===== verification/Engine_Cached.thy ===== *)
theory Engine_Cached
  imports Engine
begin

text \<open>
  Verification of a header at a node that has the snapshot of the parent in its cache: each check of
  the engine in turn, and what the committed seals have to be. The last part is a small chain at
  which the properties of the engine are instantiated.
\<close>

subsection \<open>Committed seals\<close>

definition signed_by :: "crypto \<Rightarrow> bytes \<Rightarrow> bytes list \<Rightarrow> address list \<Rightarrow> bool" where
  "signed_by cr data seals addrs \<longleftrightarrow> list_all2 (\<lambda>seal a. GetSignatureAddress cr data seal = Inr a) seals addrs"

lemma signed_by_simps [simp]:
  "signed_by cr data [] addrs \<longleftrightarrow> addrs = []"
  "signed_by cr data (seal # seals) addrs \<longleftrightarrow>
     (\<exists>a as. addrs = a # as \<and> GetSignatureAddress cr data seal = Inr a \<and> signed_by cr data seals as)"
  by (auto simp: signed_by_def list_all2_Cons1)

lemma countSeals_removes:
  "countSeals cr data seals fs n = Inr m \<longleftrightarrow>
     (\<exists>addrs t. signed_by cr data seals addrs \<and> fullnode_set.remove_all addrs fs = Some t \<and> m = n + length addrs)"
proof (induction seals arbitrary: fs n)
  case (Cons seal seals)
  show ?case
  proof (cases "GetSignatureAddress cr data seal")
    case (Inr a)
    obtain fs' ok where r: "RemoveFullnode a fs = (fs', ok)" by fastforce
    with Inr Cons.IH [of fs' "n + 1"] show ?thesis by (cases ok) auto
  qed simp
qed auto

lemma countSeals_iff:
  assumes "wf_set cr fs"
  shows "countSeals cr data seals fs n = Inr m \<longleftrightarrow>
     (\<exists>addrs. signed_by cr data seals addrs \<and> distinct addrs \<and> set addrs \<subseteq> set (fullnodes fs) \<and> m = n + length addrs)"
  using fullnode_set.remove_all_iff [OF assms] unfolding countSeals_removes by blast


subsection \<open>Headers that differ in their seals\<close>

text \<open>What the later steps change of the header.\<close>

definition same_duties :: "header \<Rightarrow> header \<Rightarrow> bool" where
  "same_duties h h' \<longleftrightarrow>
     h_Number h' = h_Number h \<and> h_ParentHash h' = h_ParentHash h \<and> h_MixDigest h' = h_MixDigest h \<and>
     h_Difficulty h' = h_Difficulty h \<and> h_Nonce h' = h_Nonce h \<and> h_Time h' = h_Time h"

lemma same_duties_trans: "same_duties a b \<Longrightarrow> same_duties b c \<Longrightarrow> same_duties a c"
  by (simp add: same_duties_def)

lemma same_duties_set_extra [simp]: "same_duties h (set_extra h p)"
  by (simp add: same_duties_def set_extra_def)

lemma writeCommittedSeals_frame:
  assumes "writeCommittedSeals h seals = Inr h'"
  shows "same_duties h h'" "h_UncleHash h' = h_UncleHash h"
proof -
  obtain x payload where "h' = set_extra h payload" using assms by (rule writeCommittedSeals_cases)
  then show "same_duties h h'" "h_UncleHash h' = h_UncleHash h" by simp_all (simp add: set_extra_def)
qed


subsection \<open>A node that knows the snapshot of the parent\<close>

text \<open>An ARC cache keeps the entry that has just been added.\<close>

definition keeps_last :: "engineEnv \<Rightarrow> bool" where
  "keeps_last env \<longleftrightarrow> (\<forall>m k v. e_evict env (m(k \<mapsto> v)) k = Some v)"

lemma snapshot_cached:
  assumes "sb_recents sb hash = Some s"
  shows "snapshot env chain number hash parents sb = Some (Inr s, recents_Add env s sb)"
  using assms by (simp add: snapshot_def numeral_2_eq_2 snapshotWith_def findSnapshot.simps [of env chain _ number] finishSnapshot_def Let_def)

lemma recents_Add_kept: "keeps_last env \<Longrightarrow> sb_recents (recents_Add env s sb) (s_Hash s) = Some s"
  by (simp add: keeps_last_def recents_Add_def)

lemma verifySigner_member:
  assumes "sb_recents sb (h_ParentHash h) = Some s" "header_Uint64 h = Some n" "n \<noteq> 0"
    and "ecrecover (e_crypto env) (e_recentAddresses env) h = Inr a" "a \<in> members s"
  shows "verifySigner env (snapshot env chain) h parents sb = Some (Inr (), recents_Add env s sb)"
  using assms by (simp add: verifySigner_def snapshot_cached)

lemma verifyCommittedSeals_cached:
  assumes "sb_recents sb (h_ParentHash h) = Some s" "header_Uint64 h = Some n" "n \<noteq> 0" "ExtractSportExtra h = Inr x"
    and "wf_set (e_crypto env) (s_FullnodeSet s)"
    and "signed_by (e_crypto env) (PrepareCommittedSeal (header_Hash (e_crypto env) h)) (CommittedSeals x) addrs"
    and "distinct addrs" "set addrs \<subseteq> members s" "MinApprovers (s_FullnodeSet s) \<le> length addrs" "CommittedSeals x \<noteq> []"
  shows "verifyCommittedSeals env chain (snapshot env chain) h parents sb = Some (Inr (), recents_Add env s sb)"
proof -
  obtain num where num: "h_Number h = Some num" using assms(2) by (auto simp: header_Uint64_def)
  have "countSeals (e_crypto env) (PrepareCommittedSeal (header_Hash (e_crypto env) h)) (CommittedSeals x)
      (Copy (e_crypto env) (s_FullnodeSet s)) 0 = Inr (length addrs)"
    unfolding countSeals_iff [OF wf_set_Copy [OF assms(5)]] Copy_id [OF assms(5)] using assms(6-8) by auto
  then show ?thesis using assms num by (simp add: verifyCommittedSeals_def snapshot_cached Let_def)
qed

lemma verifyCommittedSeals_empty:
  assumes "sb_recents sb (h_ParentHash h) = Some s" "header_Uint64 h = Some n" "n \<noteq> 0" "ExtractSportExtra h = Inr x"
    and "CommittedSeals x = []"
  shows "verifyCommittedSeals env chain (snapshot env chain) h parents sb = Some (Inl errEmptyCommittedSeals, recents_Add env s sb)"
proof -
  obtain num where num: "h_Number h = Some num" using assms(2) by (auto simp: header_Uint64_def)
  then show ?thesis using assms by (simp add: verifyCommittedSeals_def snapshot_cached)
qed

text \<open>The checks before the committed seals, at a node that knows the snapshot of the parent.\<close>

lemma verifyCascadingFields_cached:
  assumes "header_Uint64 h = Some n" "n \<noteq> 0" "GetHeader chain (h_ParentHash h) (n - 1) = Some parent"
    and "header_Uint64 parent = Some (n - 1)" "header_Hash (e_crypto env) parent = h_ParentHash h"
    and "h_Time parent + BlockPeriod (sb_config sb) \<le> h_Time h"
    and "sb_recents sb (h_ParentHash h) = Some s" "s_Hash s = h_ParentHash h" "keeps_last env"
    and "ecrecover (e_crypto env) (e_recentAddresses env) h = Inr a" "a \<in> members s"
  shows "verifyCascadingFields env chain (snapshot env chain) h [] sb =
    verifyCommittedSeals env chain (snapshot env chain) h [] (recents_Add env s (recents_Add env s sb))"
proof -
  have r: "sb_recents (recents_Add env s sb') (h_ParentHash h) = Some s" for sb'
    using recents_Add_kept [OF assms(9), of s sb'] assms(8) by simp
  have "\<not> h_Time h < h_Time parent + BlockPeriod (sb_config sb)" using assms(6) by simp
  then show ?thesis using assms(1-7)
    by (simp add: verifyCascadingFields_def snapshot_cached verifySigner_member [OF r assms(1,2,10,11)])
qed


subsection \<open>Acceptance\<close>

definition parent_of :: "crypto \<Rightarrow> chainReader \<Rightarrow> header \<Rightarrow> header \<Rightarrow> bool" where
  "parent_of cr chain h parent \<longleftrightarrow>
     (\<exists>n. header_Uint64 h = Some n \<and> n \<noteq> 0 \<and> GetHeader chain (h_ParentHash h) (n - 1) = Some parent \<and>
        header_Uint64 parent = Some (n - 1) \<and> header_Hash cr parent = h_ParentHash h)"

text \<open>\<open>env\<close> and \<open>sb\<close> are a node that has the snapshot \<open>s\<close> of the parent and whose clock has reached the time of \<open>h\<close>.\<close>

definition ready_for :: "engineEnv \<Rightarrow> sportBackend \<Rightarrow> header \<Rightarrow> Snapshot \<Rightarrow> bool" where
  "ready_for env sb h s \<longleftrightarrow>
     keeps_last env \<and> sb_recents sb (h_ParentHash h) = Some s \<and> s_Hash s = h_ParentHash h \<and>
     wf_set (e_crypto env) (s_FullnodeSet s) \<and> sint (h_Time h) \<le> now_Unix env"

definition quorum_seals :: "crypto \<Rightarrow> fullnodeSet \<Rightarrow> hash \<Rightarrow> bytes list \<Rightarrow> bool" where
  "quorum_seals cr fs hash seals \<longleftrightarrow>
     (\<exists>addrs. signed_by cr (PrepareCommittedSeal hash) seals addrs \<and> distinct addrs \<and> set addrs \<subseteq> set (fullnodes fs) \<and>
        MinApprovers fs \<le> length addrs)"

lemma parent_of_same: "same_duties h h' \<Longrightarrow> parent_of cr chain h parent \<Longrightarrow> parent_of cr chain h' parent"
  by (simp add: same_duties_def parent_of_def header_Uint64_def)

lemma verify_cached:
  assumes "parent_of (e_crypto env) chain h parent" "h_Time parent + BlockPeriod (sb_config sb) \<le> h_Time h"
    and "ready_for env sb h s" "ecrecover (e_crypto env) (e_recentAddresses env) h = Inr a" "a \<in> members s"
    and "checkStandalone env h = None"
  shows "verifyHeader env chain h [] sb =
    verifyCommittedSeals env chain (snapshot env chain) h [] (recents_Add env s (recents_Add env s sb))"
  using assms
  by (auto simp: verifyHeader_def verifyHeaderWith_def parent_of_def ready_for_def intro!: verifyCascadingFields_cached)

lemma same_duties_checkStandalone:
  assumes "same_duties h h'" "checkStandalone env h = None" "h_UncleHash h' = h_UncleHash h" "ExtractSportExtra h' = Inr x"
  shows "checkStandalone env h' = None"
  using assms by (auto simp: same_duties_def checkStandalone_def split: if_splits sum.splits)

lemma writeCommittedSeals_nonempty: "writeCommittedSeals h seals = Inr h' \<Longrightarrow> seals \<noteq> []"
  by (auto simp: writeCommittedSeals_def)

lemma ready_recents: "ready_for env sb h s \<Longrightarrow> sb_recents (recents_Add env s sb0) (h_ParentHash h) = Some s"
  using recents_Add_kept [of env s sb0] by (simp add: ready_for_def)

lemma unsealed_header_verifies:
  assumes "parent_of (e_crypto env) chain h parent" "h_Time parent + BlockPeriod (sb_config sb) \<le> h_Time h"
    and "ready_for env sb h s" "ecrecover (e_crypto env) (e_recentAddresses env) h = Inr a" "a \<in> members s"
    and "checkStandalone env h = None" "ExtractSportExtra h = Inr x" "CommittedSeals x = []"
  shows "\<exists>sb'. verifyHeader env chain h [] sb = Some (Inl errEmptyCommittedSeals, sb')"
proof -
  obtain n where n: "header_Uint64 h = Some n" "n \<noteq> 0" using assms(1) by (auto simp: parent_of_def)
  show ?thesis
    using verify_cached [OF assms(1-6)] verifyCommittedSeals_empty [OF ready_recents [OF assms(3)] n assms(7,8)] by simp
qed

lemma committed_header_verifies:
  assumes "parent_of (e_crypto env) chain h parent" "h_Time parent + BlockPeriod (sb_config sb) \<le> h_Time h"
    and "ready_for env sb h s" "ecrecover (e_crypto env) (e_recentAddresses env) h = Inr a" "a \<in> members s"
    and "checkStandalone env h = None" "writeCommittedSeals h seals = Inr h'"
    and "quorum_seals (e_crypto env) (s_FullnodeSet s) (header_Hash (e_crypto env) h) seals"
  shows "\<exists>sb'. verifyHeader env chain h' [] sb = Some (Inr (), sb')"
proof -
  have mix: "h_MixDigest h = SportDigest" using assms(6) by (auto simp: checkStandalone_def split: if_splits sum.splits)
  note k = writeCommittedSeals_hash [OF assms(7) mix] and w = writeCommittedSeals_frame [OF assms(7)]
  obtain x where x: "ExtractSportExtra h' = Inr (x\<lparr>CommittedSeals := seals\<rparr>)" using k [of "e_crypto env"] by blast
  have ready: "ready_for env sb h' s" using assms(3) w(1) by (simp add: ready_for_def same_duties_def)
  have par: "parent_of (e_crypto env) chain h' parent" by (rule parent_of_same [OF w(1) assms(1)])
  then obtain n where n: "header_Uint64 h' = Some n" "n \<noteq> 0" by (auto simp: parent_of_def)
  have t: "h_Time parent + BlockPeriod (sb_config sb) \<le> h_Time h'" using assms(2) w(1) by (simp add: same_duties_def)
  have wf: "wf_set (e_crypto env) (s_FullnodeSet s)" using ready by (simp add: ready_for_def)
  have e: "ecrecover (e_crypto env) (e_recentAddresses env) h' = Inr a" using k assms(4) by simp
  obtain addrs where a: "signed_by (e_crypto env) (PrepareCommittedSeal (header_Hash (e_crypto env) h')) seals addrs"
    "distinct addrs" "set addrs \<subseteq> members s" "MinApprovers (s_FullnodeSet s) \<le> length addrs"
    using assms(8) k by (auto simp: quorum_seals_def)
  have "verifyCommittedSeals env chain (snapshot env chain) h' [] (recents_Add env s (recents_Add env s sb)) =
      Some (Inr (), recents_Add env s (recents_Add env s (recents_Add env s sb)))"
    using a writeCommittedSeals_nonempty [OF assms(7)]
    by (intro verifyCommittedSeals_cached [OF ready_recents [OF ready] n x wf]) auto
  with verify_cached [OF par t ready e assms(5) same_duties_checkStandalone [OF w(1) assms(6) w(2) x]] show ?thesis by simp
qed


subsection \<open>A small chain\<close>

text \<open>A chain of one genesis block with the fullnode 5, at which the properties are instantiated.\<close>

definition demo_genesis :: header where
  "demo_genesis = demo_header\<lparr>h_Number := Some 0, h_UncleHash := nilUncleHash demo_crypto,
     h_Extra := replicate 32 0 @ [0xD8, 0xD5, 0x94] @ replicate 19 0 @ [5, 0x80, 0xC0]\<rparr>"

definition demo_env :: engineEnv where
  "demo_env = \<lparr>e_crypto = demo_crypto, e_recentAddresses = (\<lambda>_. None), e_nowNano = 100000000000, e_putErr = (\<lambda>_. None), e_evict = (\<lambda>m. m)\<rparr>"

definition demo_chain :: chainReader where
  "demo_chain =
     \<lparr>GetHeader = (\<lambda>h n. if h = header_Hash demo_crypto demo_genesis \<and> n = 0 then Some demo_genesis else None),
      GetHeaderByNumber = (\<lambda>n. if n = 0 then Some demo_genesis else None),
      GetHeaderByHash = (\<lambda>h. if h = header_Hash demo_crypto demo_genesis then Some demo_genesis else None),
      CurrentHeader = Some demo_genesis, SixtySixPercentBlock = Some 0\<rparr>"

definition demo_extra :: sportExtra where
  "demo_extra = \<lparr>Fullnodes = [5], Seal = [], CommittedSeals = []\<rparr>"

definition demo_first :: Snapshot where
  "demo_first = firstSnapshot demo_env DefaultConfig demo_genesis demo_extra"

definition demo_sport :: sportBackend where
  "demo_sport = \<lparr>sb_config = DefaultConfig, sb_address = 5, sb_db = (\<lambda>_. None), sb_recents = (\<lambda>_. None), sb_candidates = [],
     sb_coreStarted = False, sb_proposedBlockHash = 0\<rparr>"

lemma Extract_cong: "h_Extra h = h_Extra h' \<Longrightarrow> ExtractSportExtra h = ExtractSportExtra h'"
  by (simp add: ExtractSportExtra_def)

lemma demo_genesis_Extract: "ExtractSportExtra demo_genesis = Inr demo_extra"
proof -
  have "ExtractSportExtra (demo_header\<lparr>h_Extra := replicate 32 0 @ [0xD8, 0xD5, 0x94] @ replicate 19 0 @ [5, 0x80, 0xC0]\<rparr>) = Inr demo_extra"
    by code_simp
  moreover have "ExtractSportExtra demo_genesis =
      ExtractSportExtra (demo_header\<lparr>h_Extra := replicate 32 0 @ [0xD8, 0xD5, 0x94] @ replicate 19 0 @ [5, 0x80, 0xC0]\<rparr>)"
    by (rule Extract_cong) (simp add: demo_genesis_def)
  ultimately show ?thesis by simp
qed

lemma demo_env_simps [simp]:
  "e_crypto demo_env = demo_crypto" "e_recentAddresses demo_env h = None" "e_putErr demo_env h = None" "e_evict demo_env m = m"
  "now_Unix demo_env = 100"
  by (simp_all add: demo_env_def now_Unix_def)

lemma demo_chain_ok: "chain_ok demo_env demo_chain demo_genesis demo_extra"
  using demo_genesis_Extract
  by (simp add: chain_ok_def demo_chain_def demo_env_def header_Uint64_def demo_genesis_def demo_extra_def)

lemma demo_caches_ok: "caches_ok demo_env demo_first DefaultConfig demo_sport"
  by (simp add: caches_ok_def demo_sport_def loadSnapshot_def)

lemma demo_genesis_checked: "checkStandalone demo_env demo_genesis = None"
  using demo_genesis_Extract
  by (simp add: checkStandalone_def) (simp add: demo_genesis_def demo_header_def defaultDifficulty_def)

lemma demo_snapshot_run:
  "\<exists>sb'. snapshot demo_env demo_chain 0 (header_Hash demo_crypto demo_genesis) [] demo_sport = Some (Inr demo_first, sb')"
proof -
  have g: "GetHeaderByNumber demo_chain 0 = Some demo_genesis" "header_Uint64 demo_genesis = Some 0"
    using demo_chain_ok by (simp_all add: chain_ok_def)
  have "genesisSnapshot demo_env demo_chain (\<lambda>g. verifyHeaderWith demo_env demo_chain f g []) demo_sport =
      Some (Inr demo_first, demo_sport\<lparr>sb_db := (sb_db demo_sport)(s_Hash demo_first \<mapsto> toJSONStruct demo_first)\<rparr>)" for f
    using demo_genesis_checked demo_genesis_Extract
    by (simp add: genesisSnapshot_def g verify_genesis demo_first_def firstSnapshot_def snap_store_def Let_def)
      (simp add: demo_sport_def)
  moreover have "sb_recents demo_sport h = None" "sb_db demo_sport h = None" for h by (simp_all add: demo_sport_def)
  ultimately show ?thesis
    by (simp add: snapshot_def numeral_2_eq_2 snapshotWith_def findSnapshot.simps [of _ _ _ 0] loadSnapshot_def finishSnapshot_def Let_def)
qed

text \<open>A child of the genesis block with one committed seal, at a node that has cached the genesis snapshot.\<close>

definition demo_child :: header where
  "demo_child = demo_genesis\<lparr>h_Number := Some 1, h_ParentHash := header_Hash demo_crypto demo_genesis, h_Time := 10, h_Coinbase := 0\<rparr>"

definition demo_cached :: sportBackend where
  "demo_cached = demo_sport\<lparr>sb_recents := [header_Hash demo_crypto demo_genesis \<mapsto> demo_first]\<rparr>"

lemma demo_cached_ok: "caches_ok demo_env demo_first DefaultConfig demo_cached"
  using replay_first by (auto simp: caches_ok_def demo_cached_def demo_sport_def loadSnapshot_def split: if_splits)

lemma demo_child_parent: "parent_of demo_crypto demo_chain demo_child demo_genesis"
  by (simp add: parent_of_def demo_child_def demo_chain_def header_Uint64_def) (simp add: demo_genesis_def)

lemma demo_first_fullnodes: "fullnodes (s_FullnodeSet demo_first) = [5]" "s_Hash demo_first = header_Hash demo_crypto demo_genesis"
  by (simp_all add: demo_first_def firstSnapshot_def newSnapshot_def demo_extra_def sort_fullnodes_def)

lemma demo_ready: "h_ParentHash h = header_Hash demo_crypto demo_genesis \<Longrightarrow> sint (h_Time h) \<le> 100 \<Longrightarrow> ready_for demo_env demo_cached h demo_first"
  using snap_okD(1) [OF snap_ok_first [OF demo_chain_ok, of DefaultConfig]]
  by (simp add: ready_for_def keeps_last_def demo_cached_def demo_first_fullnodes) (simp add: demo_first_def)

lemma demo_quorum: "length seals = 1 \<Longrightarrow> quorum_seals demo_crypto (s_FullnodeSet demo_first) hash seals"
  unfolding quorum_seals_def
  by (rule exI [of _ "[5]"])
    (auto simp: demo_first_fullnodes MinApprovers_def Size_def ceil_div_def length_Suc_conv GetSignatureAddress_def demo_crypto_def)

lemma demo_recovers: "ExtractSportExtra h = Inr x \<Longrightarrow> ecrecover demo_crypto (\<lambda>_. None) h = Inr 5"
  by (simp add: ecrecover_def GetSignatureAddress_def demo_crypto_def)

lemma demo_child_Extract: "ExtractSportExtra demo_child = Inr demo_extra"
  using demo_genesis_Extract Extract_cong [of demo_child demo_genesis] by (simp add: demo_child_def)

lemma demo_committed:
  "\<exists>h. writeCommittedSeals demo_child [replicate 65 7] = Inr h \<and> header_Uint64 h = Some 1 \<and>
     (\<exists>sb'. verifyHeader demo_env demo_chain h [] demo_cached = Some (Inr (), sb'))"
proof -
  have "EncodeToBytes sportExtra_item (demo_extra\<lparr>CommittedSeals := [replicate 65 7]\<rparr>) \<noteq> None" by code_simp
  then obtain h where h: "writeCommittedSeals demo_child [replicate 65 7] = Inr h"
    by (auto simp: writeCommittedSeals_def SportExtraSeal_def demo_child_Extract)
  have ch: "checkStandalone demo_env demo_child = None"
    using demo_child_Extract by (simp add: checkStandalone_def) (simp add: demo_child_def demo_genesis_def demo_header_def defaultDifficulty_def)
  have "\<exists>sb'. verifyHeader demo_env demo_chain h [] demo_cached = Some (Inr (), sb')"
    using demo_recovers [OF demo_child_Extract] demo_child_parent
    by (intro committed_header_verifies [OF _ _ _ _ _ ch h, where parent = demo_genesis and s = demo_first and a = 5] demo_ready)
      (simp_all add: demo_quorum demo_first_fullnodes demo_env_def, simp_all add: demo_child_def demo_genesis_def demo_header_def demo_cached_def demo_sport_def DefaultConfig_def)
  moreover have "header_Uint64 h = Some 1"
    using writeCommittedSeals_frame(1) [OF h] by (simp add: same_duties_def header_Uint64_def demo_child_def)
  ultimately show ?thesis using h by blast
qed

end
