(* ===== verification/Engine_Verify.thy ===== *)
theory Engine_Verify
  imports Engine_Cached
begin

text \<open>
  What the engine's verification of a header guarantees, and that the search for a snapshot always
  returns.
\<close>


subsection \<open>Accepted headers\<close>










subsection \<open>The search returns\<close>

definition numbered :: "chainReader \<Rightarrow> header list \<Rightarrow> bool" where
  "numbered chain parents \<longleftrightarrow>
     (\<forall>h n x. GetHeader chain h n = Some x \<longrightarrow> h_Number x \<noteq> None) \<and> (\<forall>x \<in> set parents. h_Number x \<noteq> None)"

lemma header_Uint64_None [simp]: "header_Uint64 h = None \<longleftrightarrow> h_Number h = None"
  by (simp add: header_Uint64_def)

lemma pickHeader_numbered:
  assumes "numbered chain parents"
  shows "pickHeader env chain number hash parents \<noteq> None"
    "pickHeader env chain number hash parents = Some (Inr (x, ps)) \<Longrightarrow> h_Number x \<noteq> None \<and> numbered chain ps"
proof -
  have l: "parents \<noteq> [] \<Longrightarrow> \<exists>y. h_Number (last parents) = Some y" using assms by (simp add: numbered_def)
  show "pickHeader env chain number hash parents \<noteq> None"
    using l by (cases "parents = []") (auto simp: pickHeader_def Let_def split: option.splits)
  show "pickHeader env chain number hash parents = Some (Inr (x, ps)) \<Longrightarrow> h_Number x \<noteq> None \<and> numbered chain ps"
    using l assms in_set_butlastD [of _ parents]
    by (auto simp: pickHeader_def numbered_def Let_def split: if_splits option.splits)
qed

lemma genesisSnapshot_returns:
  assumes "chain_ok env chain genesis extra" "genesisVerifier env chain verify"
  shows "genesisSnapshot env chain verify sb \<noteq> None"
  using assms
  by (auto simp: genesisSnapshot_def genesisVerifier_def chain_ok_def andThen_None snap_store_def Let_def split: option.splits)

lemma findSnapshot_returns:
  assumes "chain_ok env chain genesis extra" "genesisVerifier env chain verify" "numbered chain parents"
    and "\<forall>x \<in> set headers. h_Number x \<noteq> None"
  shows "findSnapshot env chain verify number hash parents headers sb \<noteq> None \<and>
    (\<forall>s ks sb'. findSnapshot env chain verify number hash parents headers sb = Some (Inr (s, ks), sb') \<longrightarrow>
       (\<forall>x \<in> set ks. h_Number x \<noteq> None) \<and> length ks \<le> length headers + unat number)"
  using assms(3,4)
proof (induction "unat number" arbitrary: number hash parents headers rule: less_induct)
  case less
  show ?case
  proof (cases rule: findSnapshot_cases [of env number hash sb chain parents headers])
    case genesis
    then show ?thesis using genesisSnapshot_returns [OF assms(1,2)] less.prems(2) by (auto simp: andThen_None andThen_Inr)
  next
    case panic
    then show ?thesis using pickHeader_numbered(1) [OF less.prems(1)] by simp
  next
    case (move header ps)
    note p = pickHeader_numbered(2) [OF less.prems(1) move(2)]
    have "Suc (unat (number - 1)) = unat number" using move(1) by (simp add: unat_minus_one unat_gt_0)
    then show ?thesis
      using less.hyps [OF unat_pred_less [OF move(1)], of ps "headers @ [header]" "h_ParentHash header"] p less.prems(2)
      by (fastforce simp: move(3))
  qed (use less.prems in auto)
qed

lemma applyHeaders_returns:
  assumes "s_Epoch s \<noteq> 0" "\<forall>x \<in> set hs. h_Number x \<noteq> None"
  shows "applyHeaders cr recent hs s \<noteq> None"
  using assms
proof (induction hs arbitrary: s)
  case (Cons h hs)
  obtain n where n: "header_Uint64 h = Some n" using Cons.prems by fastforce
  then obtain r where r: "applyHeader cr recent h s = Some r" using Cons.prems(1) by (auto simp: applyHeader_def Let_def)
  show ?case
  proof (cases r)
    case (Inr s1)
    then have "s_Epoch s1 = s_Epoch s" using r by (auto elim!: applyHeader_cases)
    then show ?thesis using Cons.IH [of s1] Cons.prems r Inr by simp
  qed (simp add: r)
qed simp

lemma contiguous_returns: "\<forall>x \<in> set hs. h_Number x \<noteq> None \<Longrightarrow> contiguous hs \<noteq> None"
  by (induction hs rule: contiguous.induct) (auto simp: header_Uint64_def)

lemma snap_apply_returns:
  assumes "s_Epoch s \<noteq> 0" "\<forall>x \<in> set hs. h_Number x \<noteq> None"
  shows "snap_apply cr recent hs s \<noteq> None"
proof (cases "hs = []")
  case False
  obtain ok n where "contiguous hs = Some ok" "header_Uint64 (hd hs) = Some n"
    using contiguous_returns [OF assms(2)] assms(2) False by (fastforce simp: header_Uint64_def)
  then show ?thesis using applyHeaders_returns [of "snap_copy cr s" hs cr recent] assms False
    by (auto simp: snap_apply_def snap_copy_def)
qed simp

text \<open>
  C37. The search for a snapshot returns a result, without a panic, after gathering at most as many
  headers as the number of the block, when headers carry numbers and the epoch is not zero; the
  mutual recursion of snapshot and verifyHeader ends after one level.
\<close>
theorem snapshot_search_terminates:
  assumes "chain_ok env chain genesis extra" "caches_ok env (firstSnapshot env cfg genesis extra) cfg sb"
    and "Epoch cfg \<noteq> 0" "numbered chain parents"
  shows "(\<exists>r sb'. \<forall>depth > 0. snapshotDepth depth env chain number hash parents sb = Some (r, sb')) \<and>
    (\<forall>verify s headers sb'. genesisVerifier env chain verify \<longrightarrow>
       findSnapshot env chain verify number hash parents [] sb = Some (Inr (s, headers), sb') \<longrightarrow> length headers \<le> unat number)"
proof
  let ?v = "\<lambda>g. verifyHeaderWith env chain (snapshotDepth 0 env chain) g []" and ?G = "firstSnapshot env cfg genesis extra"
  note gv = genesisVerifier [OF assms(1)]
  note ret = findSnapshot_returns [OF assms(1) gv assms(4), where headers = "[]", simplified]
  have "finishSnapshot env headers s sb1 \<noteq> None"
    if f: "findSnapshot env chain ?v number hash parents [] sb = Some (Inr (s, headers), sb1)" for s headers sb1
  proof -
    obtain h where "replay_of env ?G h s" using findSnapshot_replay [OF assms(1) gv refl assms(2) f] by blast
    then have "s_Epoch s \<noteq> 0" using replay_Epoch assms(3) by (fastforce simp: firstSnapshot_def newSnapshot_def)
    moreover have "\<forall>x \<in> set (rev headers). h_Number x \<noteq> None" using ret [of "snapshotDepth 0 env chain" number hash sb] f by simp
    ultimately obtain r where "snap_apply (e_crypto env) (e_recentAddresses env) (rev headers) s = Some r"
      using snap_apply_returns by fastforce
    then show ?thesis by (cases r) (auto simp: finishSnapshot_def Let_def snap_store_def split: option.split)
  qed
  then have "snapshotWith env chain ?v number hash parents sb \<noteq> None"
    using ret [of "snapshotDepth 0 env chain" number hash sb] by (auto simp: snapshotWith_def andThen_None)
  then obtain r sb' where r: "snapshotDepth (Suc 0) env chain number hash parents sb = Some (r, sb')" by auto
  have "snapshotDepth depth env chain number hash parents sb = Some (r, sb')" if "depth > 0" for depth
    using r snapshotDepth_enough [OF assms(1), of "depth - 1" 0] that by simp
  then show "\<exists>r sb'. \<forall>depth > 0. snapshotDepth depth env chain number hash parents sb = Some (r, sb')" by blast
next
  show "\<forall>verify s headers sb'. genesisVerifier env chain verify \<longrightarrow>
      findSnapshot env chain verify number hash parents [] sb = Some (Inr (s, headers), sb') \<longrightarrow> length headers \<le> unat number"
    using findSnapshot_returns [OF assms(1) _ assms(4), where headers = "[]" and number = number and hash = hash and sb = sb] by simp
qed

theorem snapshot_search_terminates_witness:
  "\<exists>r sb'. snapshotDepth 5 demo_env demo_chain 0 (header_Hash demo_crypto demo_genesis) [] demo_sport = Some (r, sb') \<and>
     snapshot demo_env demo_chain 0 (header_Hash demo_crypto demo_genesis) [] demo_sport = Some (r, sb')"
proof -
  have "numbered demo_chain []" by (auto simp: numbered_def demo_chain_def demo_genesis_def split: if_splits)
  moreover have "Epoch DefaultConfig \<noteq> 0" by (simp add: DefaultConfig_def)
  ultimately have "\<exists>r sb'. \<forall>depth > 0. snapshotDepth depth demo_env demo_chain 0 (header_Hash demo_crypto demo_genesis) [] demo_sport = Some (r, sb')"
    using snapshot_search_terminates [OF demo_chain_ok demo_caches_ok [unfolded demo_first_def]] by blast
  then show ?thesis by (auto simp: snapshot_def)
qed

end
