(* ===== verification/Smilo_Pay.thy ===== *)
theory Smilo_Pay
  imports Complex_Main
begin

text \<open>
  The SmiloPay allowance of an account (\<open>core/state/smilopay.go\<close>): an amount that grows with the
  blocks since its last update, at a speed given by the square root of the balance, up to a maximum.

  The source computes with \<open>big.Float\<close>. A \<open>bigFloat\<close> is a rational with the precision of its
  mantissa; every operation rounds to nearest, ties to even, and a result whose precision is not set
  takes the larger precision of its operands. \<open>None\<close> is the panic of the square root of a negative
  number.
\<close>

subsection \<open>Arbitrary-precision floats\<close>

record bigFloat =
  bf_prec :: int
  bf_val :: rat

fun bitlen :: "int \<Rightarrow> int" where
  "bitlen n = (if n \<le> 0 then 0 else 1 + bitlen (n div 2))"

declare bitlen.simps [simp del]

text \<open>The exponent \<open>e\<close> with \<open>2\<^sup>e \<le> x < 2\<^sup>e\<^sup>+\<^sup>1\<close>, for a positive fraction.\<close>

definition log2_rat :: "rat \<Rightarrow> int" where
  "log2_rat x =
     (case quotient_of x of (n, d) \<Rightarrow>
        let e = bitlen n - bitlen d
        in if 2 powi e \<le> x then e else e - 1)"

definition round_even :: "rat \<Rightarrow> int" where
  "round_even x =
     (let f = \<lfloor>x\<rfloor>; r = x - of_int f
      in if r > 1 / 2 \<or> r = 1 / 2 \<and> odd f then f + 1 else f)"

definition round_prec :: "int \<Rightarrow> rat \<Rightarrow> rat" where
  "round_prec p x =
     (if x = 0 then 0
      else let u = 2 powi (log2_rat \<bar>x\<bar> - p + 1) in sgn x * (of_int (round_even (\<bar>x\<bar> / u)) * u))"

definition bf_SetInt :: "int \<Rightarrow> bigFloat" where
  "bf_SetInt i = \<lparr>bf_prec = max (bitlen \<bar>i\<bar>) 64, bf_val = of_int i\<rparr>"

definition NewFloat :: "rat \<Rightarrow> bigFloat" where
  "NewFloat c = \<lparr>bf_prec = 53, bf_val = round_prec 53 c\<rparr>"

definition bf_op :: "(rat \<Rightarrow> rat \<Rightarrow> rat) \<Rightarrow> bigFloat \<Rightarrow> bigFloat \<Rightarrow> bigFloat" where
  "bf_op f x y =
     (let p = max (bf_prec x) (bf_prec y) in \<lparr>bf_prec = p, bf_val = round_prec p (f (bf_val x) (bf_val y))\<rparr>)"

function isqrt :: "int \<Rightarrow> int" where
  "isqrt n = (if n \<le> 0 then 0 else let r = 2 * isqrt (n div 4) in if (r + 1) * (r + 1) \<le> n then r + 1 else r)"
  by pat_completeness auto
termination by (relation "measure nat") auto

declare isqrt.simps [simp del]

text \<open>
  The root of a whole number, which is all the source takes it of: enough bits of the integer root,
  and a last bit that tells whether the root is exact.
\<close>

definition bf_Sqrt :: "bigFloat \<Rightarrow> bigFloat option" where
  "bf_Sqrt x =
     (if bf_val x < 0 then None
      else let m = \<lfloor>bf_val x\<rfloor> * 4 ^ nat (bf_prec x + 2); s = isqrt m;
               t = 2 * s + (if s * s = m then 0 else 1)
           in Some \<lparr>bf_prec = bf_prec x, bf_val = round_prec (bf_prec x) (of_int t / 2 ^ nat (bf_prec x + 3))\<rparr>)"

definition bf_SetPrec :: "int \<Rightarrow> bigFloat \<Rightarrow> bigFloat" where
  "bf_SetPrec p x = \<lparr>bf_prec = p, bf_val = round_prec p (bf_val x)\<rparr>"

text \<open>\<open>Int\<close> truncates towards zero.\<close>

definition bf_Int :: "bigFloat \<Rightarrow> int" where
  "bf_Int x = (if bf_val x < 0 then - \<lfloor>- bf_val x\<rfloor> else \<lfloor>bf_val x\<rfloor>)"


subsection \<open>SmiloPay\<close>

definition floatToBigInt :: "bigFloat \<Rightarrow> int \<Rightarrow> int" where
  "floatToBigInt bigval precision =
     (let bigval = bf_SetPrec 64 bigval
      in bf_Int \<lparr>bf_prec = 64, bf_val = round_prec 64 (bf_val bigval * bf_val (bf_SetInt precision))\<rparr>)"

definition MaxSmiloPay :: "int \<Rightarrow> (int \<times> bigFloat) option" where
  "MaxSmiloPay balance =
     (let balanceSmilo = bf_SetInt (balance div 1000000000000000000)
      in map_option (\<lambda>f.
           let fDiv = bf_op (/) f (NewFloat 50000); fAdd = bf_op (+) fDiv (NewFloat (1 / 1000));
               maxSmiloPayMul = bf_op (*) fAdd (NewFloat 5)
           in (floatToBigInt maxSmiloPayMul 1000000000000000000, balanceSmilo)) (bf_Sqrt balanceSmilo))"

definition CalculateSmiloPay :: "int \<Rightarrow> int \<Rightarrow> int \<Rightarrow> int \<Rightarrow> int option" where
  "CalculateSmiloPay prevBlock newBlock prevSmiloPay balance =
     (if prevBlock \<ge> newBlock then Some prevSmiloPay
      else case MaxSmiloPay balance of None \<Rightarrow> None
        | Some (maxSmiloPay, balanceSmilo) \<Rightarrow>
            map_option (\<lambda>sqrt.
              let sqrtDiv = bf_op (/) sqrt (NewFloat 750000);
                  sqrtAdd = bf_op (+) sqrtDiv (NewFloat (1 / 1000000));
                  smiloSpeedMul = bf_op (*) sqrtAdd (NewFloat (1 / 2));
                  smiloSpeedBig = bf_op (*) smiloSpeedMul (NewFloat 1000000000000000000);
                  smiloPayResult = bf_op (*) (bf_SetInt (newBlock - prevBlock)) smiloSpeedBig;
                  prevSmiloPayFloat = bf_SetInt prevSmiloPay;
                  smiloPayFloat = bf_op (+) prevSmiloPayFloat smiloPayResult
              in if bf_val smiloPayFloat > bf_val (bf_SetInt maxSmiloPay)
                    \<or> bf_val prevSmiloPayFloat > bf_val smiloPayFloat
                 then maxSmiloPay
                 else floatToBigInt smiloPayFloat 1) (bf_Sqrt balanceSmilo))"


subsection \<open>Rounding\<close>

lemma bitlen_int: "0 < n \<Longrightarrow> 0 < bitlen n \<and> 2 ^ nat (bitlen n - 1) \<le> n \<and> n < 2 ^ nat (bitlen n)"
proof (induction n rule: bitlen.induct)
  case (1 n)
  show ?case
  proof (cases "n = 1")
    case True
    then show ?thesis by (simp add: bitlen.simps)
  next
    case False
    with "1.prems" have n2: "0 < n div 2" "\<not> n \<le> 0" by auto
    note IH = "1.IH" [OF n2(2,1)]
    have b: "bitlen n = 1 + bitlen (n div 2)" using n2(2) by (subst bitlen.simps) simp
    obtain k where k: "bitlen (n div 2) = int (Suc k)" using IH by (metis Suc_pred gr0_implies_Suc zero_less_imp_eq_int)
    have "2 ^ k \<le> n div 2" "n div 2 < 2 * 2 ^ k" using IH by (simp_all add: k nat_add_distrib)
    then have "2 * 2 ^ k \<le> n" "n < 2 * (2 * 2 ^ k)" by linarith+
    then show ?thesis by (simp add: b k nat_add_distrib)
  qed
qed

lemma bitlen_rat:
  assumes "0 < n"
  shows "2 powi (bitlen n - 1) \<le> rat_of_int n" "rat_of_int n < 2 powi bitlen n"
proof -
  note b = bitlen_int [OF assms]
  have "rat_of_int (2 ^ nat (bitlen n - 1)) \<le> rat_of_int n" "rat_of_int n < rat_of_int (2 ^ nat (bitlen n))"
    using b by (simp_all only: of_int_le_iff of_int_less_iff)
  then show "2 powi (bitlen n - 1) \<le> rat_of_int n" "rat_of_int n < 2 powi bitlen n"
    using b by (simp_all add: power_int_def)
qed

lemma log2_rat:
  assumes "0 < x"
  shows "2 powi log2_rat x \<le> x" "x < 2 powi (log2_rat x + 1)"
proof -
  obtain n d where q: "quotient_of x = (n, d)" by (metis surj_pair)
  have d: "0 < d" "x = rat_of_int n / rat_of_int d" using quotient_of_denom_pos [OF q] quotient_of_div [OF q] by auto
  have n: "0 < n" using assms d by (simp add: zero_less_divide_iff)
  let ?e = "bitlen n - bitlen d"
  have "x < 2 powi bitlen n / 2 powi (bitlen d - 1)"
    using bitlen_rat [OF n] bitlen_rat [OF d(1)] d n by (auto intro!: frac_less)
  also have "\<dots> = 2 powi (?e + 1)" by (simp add: power_int_diff power_int_add)
  finally have up: "x < 2 powi (?e + 1)" .
  have "2 powi (bitlen n - 1) / 2 powi bitlen d < x"
    using bitlen_rat [OF n] bitlen_rat [OF d(1)] d by (auto intro!: frac_less2)
  also have "2 powi (bitlen n - 1) / 2 powi bitlen d = (2 :: rat) powi (?e - 1)" by (simp add: power_int_diff)
  finally have lo: "2 powi (?e - 1) < x" .
  show "2 powi log2_rat x \<le> x" "x < 2 powi (log2_rat x + 1)"
    using up lo by (auto simp: log2_rat_def q Let_def)
qed

lemma round_even_int [simp]: "round_even (rat_of_int z) = z"
  by (simp add: round_even_def Let_def)


lemma round_even_mono:
  assumes "x \<le> y"
  shows "round_even x \<le> round_even y"
proof (cases "\<lfloor>x\<rfloor> = \<lfloor>y\<rfloor>")
  case True
  then show ?thesis using assms by (auto simp: round_even_def Let_def)
next
  case False
  then have "\<lfloor>x\<rfloor> + 1 \<le> \<lfloor>y\<rfloor>" using floor_mono [OF assms] by simp
  then show ?thesis by (auto simp: round_even_def Let_def)
qed

lemma round_prec_pos:
  assumes "0 < x"
  shows "round_prec p x = of_int (round_even (x / 2 powi (log2_rat x - p + 1))) * 2 powi (log2_rat x - p + 1)"
  using assms by (simp add: round_prec_def Let_def)

lemma powi_int: "0 \<le> k \<Longrightarrow> 2 powi k = rat_of_int (2 ^ nat k)"
  by (simp add: power_int_def)

lemma powi_less_iff: "(2 :: rat) powi m < 2 powi n \<longleftrightarrow> m < n"
  using power_int_strict_increasing [of m n "2 :: rat"] power_int_increasing [of n m "2 :: rat"] by (cases "m < n") auto

lemma powi_le_iff: "(2 :: rat) powi m \<le> 2 powi n \<longleftrightarrow> m \<le> n"
  using powi_less_iff [of n m] by (auto simp: not_less)

lemma round_prec_fixed:
  assumes "z = rat_of_int m * 2 powi e" "0 < z" "rat_of_int m < 2 powi p"
  shows "round_prec p z = z"
proof -
  let ?k = "e - log2_rat z + p - 1" and ?u = "2 powi (log2_rat z - p + 1) :: rat"
  have "z < 2 powi (p + e)" using assms by (simp add: power_int_add)
  then have "2 powi log2_rat z < (2 :: rat) powi (p + e)" using log2_rat(1) [OF assms(2)] by linarith
  then have k: "0 \<le> ?k" using powi_less_iff [of "log2_rat z" "p + e"] by linarith
  have "z = (rat_of_int m * 2 powi ?k) * ?u" using assms(1) by (simp flip: power_int_add)
  then have zu: "z / ?u = rat_of_int (m * 2 ^ nat ?k)" using k by (simp add: powi_int field_simps)
  then have "round_even (z / ?u) = m * 2 ^ nat ?k" by (simp only: round_even_int)
  then show ?thesis using zu assms(2) by (simp add: round_prec_pos field_simps)
qed

lemma round_prec_bounds:
  assumes "0 < x" "0 < p"
  shows "2 powi log2_rat x \<le> round_prec p x" "round_prec p x \<le> 2 powi (log2_rat x + 1)"
proof -
  let ?u = "2 powi (log2_rat x - p + 1) :: rat"
  have two: "rat_of_int (2 ^ nat (p - 1)) * ?u = 2 powi log2_rat x" "rat_of_int (2 ^ nat p) * ?u = 2 powi (log2_rat x + 1)"
    using assms(2) by (simp_all del: of_int_power flip: power_int_add powi_int [of "p - 1"] powi_int [of p])
  have "rat_of_int (2 ^ nat (p - 1)) \<le> x / ?u" "x / ?u \<le> rat_of_int (2 ^ nat p)"
    using log2_rat [OF assms(1)] by (simp_all add: pos_le_divide_eq pos_divide_le_eq two del: of_int_power)
  then have "2 ^ nat (p - 1) \<le> round_even (x / ?u)" "round_even (x / ?u) \<le> 2 ^ nat p"
    using round_even_mono round_even_int by metis+
  then have "rat_of_int (2 ^ nat (p - 1)) * ?u \<le> round_prec p x" "round_prec p x \<le> rat_of_int (2 ^ nat p) * ?u"
    unfolding round_prec_pos [OF assms(1)] by (simp_all only: of_int_le_iff mult_right_mono zero_le_power_int zero_le_numeral)
  then show "2 powi log2_rat x \<le> round_prec p x" "round_prec p x \<le> 2 powi (log2_rat x + 1)"
    by (simp_all only: two)
qed

lemma round_prec_mono:
  assumes "x \<le> y" "0 \<le> x" "0 < p"
  shows "round_prec p x \<le> round_prec p y"
proof (cases "x = 0")
  case True
  have "0 < round_prec p y" if "0 < y"
    using round_prec_bounds(1) [OF that assms(3)] by (meson less_le_trans zero_less_numeral zero_less_power_int)
  then show ?thesis using True assms by (cases "y = 0") (auto simp: round_prec_def)
next
  case False
  with assms have x: "0 < x" and y: "0 < y" by auto
  have "2 powi log2_rat x < (2 :: rat) powi (log2_rat y + 1)" using log2_rat [OF x] log2_rat [OF y] assms(1) by linarith
  then have le: "log2_rat x \<le> log2_rat y" by (simp add: powi_less_iff)
  show ?thesis
  proof (cases "log2_rat x = log2_rat y")
    case True
    then show ?thesis using assms(1) x y by (simp add: round_prec_pos round_even_mono divide_right_mono)
  next
    case False
    with le have "(2 :: rat) powi (log2_rat x + 1) \<le> 2 powi log2_rat y" by (simp add: powi_le_iff)
    then show ?thesis using round_prec_bounds [OF x assms(3)] round_prec_bounds [OF y assms(3)] by linarith
  qed
qed


lemma round_prec_nonneg: "0 \<le> x \<Longrightarrow> 0 < p \<Longrightarrow> 0 \<le> round_prec p x"
  using round_prec_mono [of 0 x p] by (simp add: round_prec_def)

text \<open>A number with at most \<open>p\<close> significant bits is not changed.\<close>

lemma round_prec_repr:
  assumes "0 \<le> m" "m \<le> 2 ^ nat p" "0 < p"
  shows "round_prec p (rat_of_int m * 2 powi e) = rat_of_int m * 2 powi e"
proof (cases "m = 0 \<or> m = 2 ^ nat p")
  case True
  have "rat_of_int (2 ^ nat p) * 2 powi e = rat_of_int 1 * 2 powi (p + e)"
    using assms(3) by (simp add: power_int_add powi_int)
  moreover have "rat_of_int 1 < 2 powi p" using powi_less_iff [of 0 p] assms(3) by simp
  ultimately show ?thesis
    using True round_prec_fixed [of "rat_of_int 1 * 2 powi (p + e)" 1 "p + e" p] by (auto simp: round_prec_def)
next
  case False
  then have "rat_of_int m < rat_of_int (2 ^ nat p)" using assms by (simp only: of_int_less_iff) simp
  then show ?thesis using assms False by (intro round_prec_fixed [where m = m and e = e]) (simp_all add: powi_int)
qed

lemma round_prec_int:
  assumes "0 \<le> n" "n \<le> 2 ^ nat p" "0 < p"
  shows "round_prec p (rat_of_int n) = rat_of_int n"
  using round_prec_repr [OF assms, of 0] by simp

lemma round_prec_is_repr:
  assumes "0 < x" "0 < p"
  obtains m where "0 \<le> m" "m \<le> 2 ^ nat p" "round_prec p x = rat_of_int m * 2 powi (log2_rat x - p + 1)"
proof
  let ?u = "2 powi (log2_rat x - p + 1) :: rat"
  have "rat_of_int (round_even (x / ?u)) * ?u \<le> rat_of_int (2 ^ nat p) * ?u"
    using round_prec_bounds(2) [OF assms] assms(2)
    by (simp add: round_prec_pos [OF assms(1)] del: of_int_power flip: power_int_add powi_int [of p])
  then show "round_even (x / ?u) \<le> 2 ^ nat p" by (simp only: mult_le_cancel_right of_int_le_iff) simp
  show "0 \<le> round_even (x / ?u)" using round_even_mono [of 0 "x / ?u"] round_even_int [of 0] assms by simp
qed (simp add: round_prec_pos [OF assms(1)])

text \<open>The whole part of a rounded number needs no more bits than the number.\<close>

lemma round_prec_floor:
  assumes "0 \<le> x" "0 < p"
  shows "round_prec p (rat_of_int \<lfloor>round_prec p x\<rfloor>) = rat_of_int \<lfloor>round_prec p x\<rfloor>"
proof (cases "x = 0")
  case False
  with assms have x: "0 < x" by simp
  let ?k = "log2_rat x - p + 1"
  obtain m where m: "0 \<le> m" "m \<le> 2 ^ nat p" "round_prec p x = rat_of_int m * 2 powi ?k"
    using round_prec_is_repr [OF x assms(2)] .
  show ?thesis
  proof (cases "0 \<le> ?k")
    case True
    then have "rat_of_int \<lfloor>round_prec p x\<rfloor> = round_prec p x"
      using m(3) by (metis floor_of_int of_int_mult powi_int)
    then show ?thesis using round_prec_repr [OF m(1,2) assms(2), of ?k] by (simp only: m(3))
  next
    case False
    then have "round_prec p x \<le> 2 powi p"
      using round_prec_bounds(2) [OF x assms(2)] powi_le_iff [of "log2_rat x + 1" p] by linarith
    then have "round_prec p x \<le> rat_of_int (2 ^ nat p)" using assms(2) by (simp add: powi_int)
    then have "\<lfloor>round_prec p x\<rfloor> \<le> 2 ^ nat p" by (metis floor_mono floor_of_int)
    then show ?thesis using round_prec_nonneg [OF assms] assms(2) by (intro round_prec_int) simp_all
  qed
qed (simp add: round_prec_def)


subsection \<open>Bounds\<close>

definition bf_ok :: "bigFloat \<Rightarrow> bool" where
  "bf_ok x \<longleftrightarrow> 0 < bf_prec x \<and> 0 \<le> bf_val x"

lemma bf_ok_ops [simp]:
  "bf_ok x \<Longrightarrow> bf_ok y \<Longrightarrow> bf_ok (bf_op (+) x y)"
  "bf_ok x \<Longrightarrow> bf_ok y \<Longrightarrow> bf_ok (bf_op (*) x y)"
  "bf_ok x \<Longrightarrow> bf_ok y \<Longrightarrow> bf_ok (bf_op (/) x y)"
  "0 \<le> c \<Longrightarrow> bf_ok (NewFloat c)"
  "0 \<le> i \<Longrightarrow> bf_ok (bf_SetInt i)"
  by (auto simp: bf_ok_def bf_op_def Let_def NewFloat_def bf_SetInt_def less_max_iff_disj intro!: round_prec_nonneg)

lemma bf_val_SetInt [simp]: "bf_val (bf_SetInt i) = of_int i"
  by (simp add: bf_SetInt_def)

lemma isqrt_nonneg: "0 \<le> isqrt n"
  by (induction n rule: isqrt.induct) (subst isqrt.simps, auto simp: Let_def)

lemma bf_ok_Sqrt: "bf_ok x \<Longrightarrow> \<exists>y. bf_Sqrt x = Some y \<and> bf_ok y"
  by (auto simp: bf_Sqrt_def bf_ok_def Let_def isqrt_nonneg intro!: round_prec_nonneg divide_nonneg_nonneg)

lemma floatToBigInt_floor:
  assumes "0 \<le> bf_val x" "0 \<le> c"
  shows "floatToBigInt x c = \<lfloor>round_prec 64 (round_prec 64 (bf_val x) * rat_of_int c)\<rfloor>"
proof -
  have "0 \<le> round_prec 64 (round_prec 64 (bf_val x) * rat_of_int c)" using assms by (simp add: round_prec_nonneg)
  then show ?thesis by (simp add: floatToBigInt_def bf_Int_def bf_SetPrec_def bf_SetInt_def Let_def)
qed

text \<open>Rounding does not leave a range whose ends are rounded numbers.\<close>

lemma round_prec_between:
  assumes "0 < p" "0 \<le> a" "round_prec p a = a" "round_prec p b = b" "a \<le> v" "v \<le> b"
  shows "a \<le> round_prec p v" "round_prec p v \<le> b"
  using round_prec_mono [of a v p] round_prec_mono [of v b p] assms by auto

lemma MaxSmiloPay_ok:
  assumes "0 \<le> balance"
  obtains mx f where "MaxSmiloPay balance = Some (mx, f)" "bf_ok f" "0 \<le> mx" "round_prec 64 (rat_of_int mx) = rat_of_int mx"
proof -
  let ?f = "bf_SetInt (balance div 1000000000000000000)"
  have f: "bf_ok ?f" using assms by simp
  then obtain y where y: "bf_Sqrt ?f = Some y" "bf_ok y" using bf_ok_Sqrt by blast
  let ?m = "bf_op (*) (bf_op (+) (bf_op (/) y (NewFloat 50000)) (NewFloat (1 / 1000))) (NewFloat 5)"
  have m: "0 \<le> bf_val ?m" using y by (metis bf_ok_def bf_ok_ops(1-4) zero_le_divide_1_iff zero_le_numeral)
  then show thesis
    using that [of "floatToBigInt ?m 1000000000000000000" ?f] f y
    by (simp add: MaxSmiloPay_def floatToBigInt_floor round_prec_floor round_prec_nonneg)
qed

text \<open>
  C30. For a new block number the SmiloPay allowance of an account is computed without a panic, is
  at most the maximum for the balance, and never shrinks unless it is cut to that maximum; the
  balance must not be negative and the old allowance at most 2^64.
\<close>
theorem smilopay_bounds:
  assumes "prevBlock < newBlock" "0 \<le> prevSmiloPay" "prevSmiloPay \<le> 2 ^ 64" "0 \<le> balance"
  shows "\<exists>r mx f. CalculateSmiloPay prevBlock newBlock prevSmiloPay balance = Some r \<and>
           MaxSmiloPay balance = Some (mx, f) \<and> r \<le> mx \<and> (prevSmiloPay \<le> r \<or> r = mx)"
proof -
  obtain mx f where mx: "MaxSmiloPay balance = Some (mx, f)" "bf_ok f" "0 \<le> mx" "round_prec 64 (rat_of_int mx) = rat_of_int mx"
    using MaxSmiloPay_ok [OF assms(4)] .
  obtain y where y: "bf_Sqrt f = Some y" using bf_ok_Sqrt [OF mx(2)] by blast
  define pay where "pay = bf_op (+) (bf_SetInt prevSmiloPay) (bf_op (*) (bf_SetInt (newBlock - prevBlock))
    (bf_op (*) (bf_op (*) (bf_op (+) (bf_op (/) y (NewFloat 750000)) (NewFloat (1 / 1000000))) (NewFloat (1 / 2)))
      (NewFloat 1000000000000000000)))"
  let ?prev = "rat_of_int prevSmiloPay" and ?r = "floatToBigInt pay 1"
  have rounds: "prevSmiloPay \<le> ?r \<and> ?r \<le> mx" if le: "?prev \<le> bf_val pay" "bf_val pay \<le> rat_of_int mx"
  proof -
    have p: "round_prec 64 ?prev = ?prev" "0 \<le> ?prev" using assms by (simp_all add: round_prec_int)
    note once = round_prec_between [OF _ p(2,1) mx(4) le, simplified]
    have "?prev \<le> round_prec 64 (round_prec 64 (bf_val pay))" "round_prec 64 (round_prec 64 (bf_val pay)) \<le> rat_of_int mx"
      using round_prec_between [OF _ p(2,1) mx(4) once] by simp_all
    then show ?thesis using le p(2) by (simp add: floatToBigInt_floor le_floor_iff floor_le_iff)
  qed
  show ?thesis
    using rounds assms(1) mx(1) y by (auto simp: CalculateSmiloPay_def Let_def not_less simp flip: pay_def)
qed

theorem smilopay_bounds_witness:
  "\<exists>r mx f. CalculateSmiloPay 100 110 1000000000000000 90000000000000000000 = Some r \<and>
     MaxSmiloPay 90000000000000000000 = Some (mx, f) \<and> r \<le> mx \<and> (1000000000000000 \<le> r \<or> r = mx)"
  by (rule smilopay_bounds) simp_all

end
