(* ===== verification/State_Object.thy ===== *)
theory State_Object
  imports Sport_Model Smilo_Pay "HOL-Library.Monad_Syntax"
begin

text \<open>
  Accounts of the world state (\<open>core/state/state_object.go\<close>): the RLP form of an account, the live
  object with its storage caches, and the operations that only touch one object.

  A Merkle trie is the map from keys to values that the interface \<open>Trie\<close> of
  \<open>core/state/database.go\<close> promises; reads of an open trie do not fail. \<open>stateDatabase\<close> collects the
  database behind the state: opening tries, the root hash of a trie, contract code, and the Keccak
  hash. \<open>None\<close> as the result of an operation is a panic.
\<close>

type_synonym trie = "bytes \<Rightarrow> bytes option"

datatype state_error = ErrNoTrie | ErrNoCode | ErrSplit

record stateDatabase =
  OpenTrie :: "hash \<Rightarrow> state_error + trie"
  OpenStorageTrie :: "hash \<Rightarrow> hash \<Rightarrow> state_error + trie"
  ContractCode :: "hash \<Rightarrow> hash \<Rightarrow> state_error + bytes"
  trie_Hash :: "trie \<Rightarrow> hash"
  db_Keccak256 :: "bytes \<Rightarrow> bytes"

definition TryGet :: "bytes \<Rightarrow> trie \<Rightarrow> bytes" where
  "TryGet key tr = (case tr key of None \<Rightarrow> [] | Some v \<Rightarrow> v)"

definition TryUpdate :: "bytes \<Rightarrow> bytes \<Rightarrow> trie \<Rightarrow> trie" where
  "TryUpdate key v tr = tr(key := if v = [] then None else Some v)"

definition TryDelete :: "bytes \<Rightarrow> trie \<Rightarrow> trie" where
  "TryDelete key tr = tr(key := None)"

lemma TryGet_update [simp]: "TryGet k (TryUpdate k' v tr) = (if k = k' then v else TryGet k tr)"
  by (auto simp: TryGet_def TryUpdate_def)

lemma TryGet_delete [simp]: "TryGet k (TryDelete k' tr) = (if k = k' then [] else TryGet k tr)"
  by (auto simp: TryGet_def TryDelete_def)


subsection \<open>Accounts\<close>

record Account =
  acc_Nonce :: uint64
  acc_Balance :: int
  acc_SmiloPay :: int
  acc_BlockNumber :: int
  acc_Root :: hash
  acc_CodeHash :: bytes

definition account_item :: "Account \<Rightarrow> rlp option" where
  "account_item a = do {
     i1 \<leftarrow> uint64_item (acc_Nonce a);
     i2 \<leftarrow> bigInt_item (acc_Balance a);
     i3 \<leftarrow> bigInt_item (acc_SmiloPay a);
     i4 \<leftarrow> bigInt_item (acc_BlockNumber a);
     i5 \<leftarrow> array_item 32 (acc_Root a);
     i6 \<leftarrow> bytes_item (acc_CodeHash a);
     Some (Lst [i1, i2, i3, i4, i5, i6]) }"

definition item_account :: "rlp \<Rightarrow> Account option" where
  "item_account i =
     (case i of
        Lst [i1, i2, i3, i4, i5, i6] \<Rightarrow> do {
          n \<leftarrow> item_uint64 i1; b \<leftarrow> item_bigInt i2; s \<leftarrow> item_bigInt i3; bn \<leftarrow> item_bigInt i4;
          r \<leftarrow> item_array 32 i5; c \<leftarrow> item_bytes i6;
          Some \<lparr>acc_Nonce = n, acc_Balance = b, acc_SmiloPay = s, acc_BlockNumber = bn, acc_Root = r, acc_CodeHash = c\<rparr> }
      | _ \<Rightarrow> None)"

type_synonym Storage = "(hash \<times> hash) list"

record stateObject =
  so_address :: address
  so_addrHash :: hash
  so_data :: Account
  so_dbErr :: "state_error option"
  so_trie :: "trie option"
  so_code :: "bytes option"
  originStorage :: Storage
  dirtyStorage :: Storage
  fakeStorage :: "Storage option"
  dirtyCode :: bool
  suicided :: bool
  deleted :: bool

text \<open>Reading a Go map at a missing key gives the zero value.\<close>

definition storage_get :: "Storage \<Rightarrow> hash \<Rightarrow> hash" where
  "storage_get st key = (case map_of st key of None \<Rightarrow> 0 | Some v \<Rightarrow> v)"

definition emptyCodeHash :: "stateDatabase \<Rightarrow> bytes" where
  "emptyCodeHash db = db_Keccak256 db []"

definition Keccak256Hash :: "stateDatabase \<Rightarrow> bytes \<Rightarrow> hash" where
  "Keccak256Hash db b = BytesToHash (db_Keccak256 db b)"

definition so_empty :: "stateDatabase \<Rightarrow> stateObject \<Rightarrow> bool" where
  "so_empty db s \<longleftrightarrow>
     acc_Nonce (so_data s) = 0 \<and> acc_Balance (so_data s) = 0 \<and> acc_CodeHash (so_data s) = emptyCodeHash db"

text \<open>\<open>None\<close> stands for the literal \<open>Account{}\<close>, all of whose pointers are nil.\<close>

definition newObject :: "stateDatabase \<Rightarrow> address \<Rightarrow> Account option \<Rightarrow> stateObject" where
  "newObject db a data =
     \<lparr>so_address = a, so_addrHash = Keccak256Hash db (be_fixed 20 (unat a)),
      so_data = (case data of
          Some d \<Rightarrow> d
        | None \<Rightarrow> \<lparr>acc_Nonce = 0, acc_Balance = 0, acc_SmiloPay = 0, acc_BlockNumber = 0, acc_Root = 0,
                   acc_CodeHash = emptyCodeHash db\<rparr>),
      so_dbErr = None, so_trie = None, so_code = None, originStorage = [], dirtyStorage = [], fakeStorage = None,
      dirtyCode = False, suicided = False, deleted = False\<rparr>"

definition so_setError :: "state_error \<Rightarrow> stateObject \<Rightarrow> stateObject" where
  "so_setError e s = (if so_dbErr s = None then s\<lparr>so_dbErr := Some e\<rparr> else s)"

lemma so_setError_frame [simp]:
  "so_address (so_setError e s) = so_address s" "so_addrHash (so_setError e s) = so_addrHash s"
  "so_data (so_setError e s) = so_data s" "so_trie (so_setError e s) = so_trie s" "so_code (so_setError e s) = so_code s"
  "originStorage (so_setError e s) = originStorage s" "dirtyStorage (so_setError e s) = dirtyStorage s"
  "fakeStorage (so_setError e s) = fakeStorage s" "dirtyCode (so_setError e s) = dirtyCode s"
  "suicided (so_setError e s) = suicided s" "deleted (so_setError e s) = deleted s"
  by (simp_all add: so_setError_def)


subsection \<open>Storage and code\<close>

definition getTrie :: "stateDatabase \<Rightarrow> stateObject \<Rightarrow> trie option \<times> stateObject" where
  "getTrie db s =
     (case so_trie s of
        Some t \<Rightarrow> (Some t, s)
      | None \<Rightarrow>
          let s = (case OpenStorageTrie db (so_addrHash s) (acc_Root (so_data s)) of
              Inr t \<Rightarrow> s\<lparr>so_trie := Some t\<rparr>
            | Inl _ \<Rightarrow> so_setError ErrNoTrie
                (s\<lparr>so_trie := (case OpenStorageTrie db (so_addrHash s) 0 of Inr t \<Rightarrow> Some t | Inl _ \<Rightarrow> None)\<rparr>))
          in (so_trie s, s))"

lemma getTrie_frame [simp]:
  "so_address (snd (getTrie db s)) = so_address s" "so_addrHash (snd (getTrie db s)) = so_addrHash s"
  "so_data (snd (getTrie db s)) = so_data s" "so_code (snd (getTrie db s)) = so_code s"
  "originStorage (snd (getTrie db s)) = originStorage s" "dirtyStorage (snd (getTrie db s)) = dirtyStorage s"
  "fakeStorage (snd (getTrie db s)) = fakeStorage s" "dirtyCode (snd (getTrie db s)) = dirtyCode s"
  "suicided (snd (getTrie db s)) = suicided s" "deleted (snd (getTrie db s)) = deleted s"
  "so_trie (snd (getTrie db s)) = fst (getTrie db s)"
  by (simp_all add: getTrie_def Let_def split: option.split sum.split)

lemma fst_getTrie:
  "fst (getTrie db s) =
     (case so_trie s of
        Some t \<Rightarrow> Some t
      | None \<Rightarrow>
          (case OpenStorageTrie db (so_addrHash s) (acc_Root (so_data s)) of
             Inr t \<Rightarrow> Some t
           | Inl _ \<Rightarrow> (case OpenStorageTrie db (so_addrHash s) 0 of Inr t \<Rightarrow> Some t | Inl _ \<Rightarrow> None)))"
  by (simp add: getTrie_def Let_def split: option.split sum.split)

definition so_GetCommittedState :: "stateDatabase \<Rightarrow> hash \<Rightarrow> stateObject \<Rightarrow> (hash \<times> stateObject) option" where
  "so_GetCommittedState db key s =
     (case fakeStorage s of
        Some fake \<Rightarrow> Some (storage_get fake key, s)
      | None \<Rightarrow>
          (case map_of (originStorage s) key of
             Some value \<Rightarrow> Some (value, s)
           | None \<Rightarrow>
               (case getTrie db s of
                  (None, s) \<Rightarrow> None
                | (Some tr, s) \<Rightarrow>
                    let enc = TryGet (hash_Bytes key) tr;
                        (value, s) =
                          (if enc = [] then (0, s)
                           else case rlp_split enc of
                                  None \<Rightarrow> (0, so_setError ErrSplit s)
                                | Some (_, content, _) \<Rightarrow> (BytesToHash content, s))
                    in Some (value, s\<lparr>originStorage := AList.update key value (originStorage s)\<rparr>))))"

definition so_GetState :: "stateDatabase \<Rightarrow> hash \<Rightarrow> stateObject \<Rightarrow> (hash \<times> stateObject) option" where
  "so_GetState db key s =
     (case fakeStorage s of
        Some fake \<Rightarrow> Some (storage_get fake key, s)
      | None \<Rightarrow>
          (case map_of (dirtyStorage s) key of
             Some value \<Rightarrow> Some (value, s)
           | None \<Rightarrow> so_GetCommittedState db key s))"

definition so_setState :: "hash \<Rightarrow> hash \<Rightarrow> stateObject \<Rightarrow> stateObject" where
  "so_setState key value s = s\<lparr>dirtyStorage := AList.update key value (dirtyStorage s)\<rparr>"

definition so_SetStorage :: "Storage \<Rightarrow> stateObject \<Rightarrow> stateObject" where
  "so_SetStorage storage s =
     s\<lparr>fakeStorage := Some (foldl (\<lambda>f (k, v). AList.update k v f) (case fakeStorage s of None \<Rightarrow> [] | Some f \<Rightarrow> f) storage)\<rparr>"

text \<open>One round of the loop in \<open>updateTrie\<close>, on the original values and the trie.\<close>

definition updateSlot :: "hash \<times> hash \<Rightarrow> Storage \<times> trie \<Rightarrow> Storage \<times> trie" where
  "updateSlot kv st =
     (case (kv, st) of ((key, value), (origin, tr)) \<Rightarrow>
        if value = storage_get origin key then (origin, tr)
        else (AList.update key value origin,
          if value = 0 then TryDelete (hash_Bytes key) tr
          else TryUpdate (hash_Bytes key)
            (case EncodeToBytes bytes_item (dropWhile (\<lambda>b. b = 0) (hash_Bytes value)) of None \<Rightarrow> [] | Some v \<Rightarrow> v) tr))"

definition updateTrie :: "stateDatabase \<Rightarrow> stateObject \<Rightarrow> stateObject option" where
  "updateTrie db s =
     (case getTrie db s of
        (tr, s) \<Rightarrow>
          if dirtyStorage s = [] then Some s
          else do {
            tr \<leftarrow> tr;
            let (origin, tr) = fold updateSlot (dirtyStorage s) (originStorage s, tr);
            Some (s\<lparr>dirtyStorage := [], originStorage := origin, so_trie := Some tr\<rparr>) })"

definition updateRoot :: "stateDatabase \<Rightarrow> stateObject \<Rightarrow> stateObject option" where
  "updateRoot db s = do {
     s \<leftarrow> updateTrie db s;
     tr \<leftarrow> so_trie s;
     Some (s\<lparr>so_data := (so_data s)\<lparr>acc_Root := trie_Hash db tr\<rparr>\<rparr>) }"

definition so_Code :: "stateDatabase \<Rightarrow> stateObject \<Rightarrow> bytes option \<times> stateObject" where
  "so_Code db s =
     (case so_code s of
        Some c \<Rightarrow> (Some c, s)
      | None \<Rightarrow>
          if acc_CodeHash (so_data s) = emptyCodeHash db then (None, s)
          else (case ContractCode db (so_addrHash s) (BytesToHash (acc_CodeHash (so_data s))) of
                  Inr c \<Rightarrow> (Some c, s\<lparr>so_code := Some c\<rparr>)
                | Inl _ \<Rightarrow> (None, so_setError ErrNoCode s)))"

definition so_setCode :: "hash \<Rightarrow> bytes option \<Rightarrow> stateObject \<Rightarrow> stateObject" where
  "so_setCode codeHash code s =
     s\<lparr>so_code := code, so_data := (so_data s)\<lparr>acc_CodeHash := hash_Bytes codeHash\<rparr>, dirtyCode := True\<rparr>"

definition so_setBalance :: "int \<Rightarrow> stateObject \<Rightarrow> stateObject" where
  "so_setBalance amount s = s\<lparr>so_data := (so_data s)\<lparr>acc_Balance := amount\<rparr>\<rparr>"

definition so_setSmiloPay :: "int \<Rightarrow> stateObject \<Rightarrow> stateObject" where
  "so_setSmiloPay amount s = s\<lparr>so_data := (so_data s)\<lparr>acc_SmiloPay := amount\<rparr>\<rparr>"

definition setSmiloPayAndBlock :: "int \<Rightarrow> int \<Rightarrow> stateObject \<Rightarrow> stateObject" where
  "setSmiloPayAndBlock amount blockNumber s =
     s\<lparr>so_data := (so_data s)\<lparr>acc_SmiloPay := amount, acc_BlockNumber := blockNumber\<rparr>\<rparr>"

definition so_setNonce :: "uint64 \<Rightarrow> stateObject \<Rightarrow> stateObject" where
  "so_setNonce nonce s = s\<lparr>so_data := (so_data s)\<lparr>acc_Nonce := nonce\<rparr>\<rparr>"

definition markSuicided :: "stateObject \<Rightarrow> stateObject" where
  "markSuicided s = s\<lparr>suicided := True\<rparr>"

definition deepCopy :: "stateDatabase \<Rightarrow> stateObject \<Rightarrow> stateObject" where
  "deepCopy db s =
     (newObject db (so_address s) (Some (so_data s)))
       \<lparr>so_trie := so_trie s, so_code := so_code s, dirtyStorage := dirtyStorage s, originStorage := originStorage s,
        suicided := suicided s, dirtyCode := dirtyCode s, deleted := deleted s\<rparr>"

end
