(* ===== verification/State_DB.thy ===== *)
theory State_DB
  imports State_Object
begin

text \<open>
  The world state with its journal (\<open>core/state/statedb.go\<close>, \<open>core/state/journal.go\<close> and the journaled
  operations of \<open>core/state/state_object.go\<close>). Every change of an account is journaled with what is
  needed to undo it; \<open>RevertToSnapshot\<close> undoes the journal down to a snapshot, \<open>Finalise\<close> writes the
  changed accounts to the account trie and forgets the journal.

  The objects of the source are shared pointers that are only changed through the map of live
  objects, so an operation on an object is an operation on the entry of its address. The timing
  counters are left out.
\<close>

subsection \<open>State\<close>

record Log =
  log_Address :: address
  log_Topics :: "hash list"
  log_Data :: bytes
  log_BlockNumber :: uint64
  log_TxHash :: hash
  log_TxIndex :: uint64
  log_BlockHash :: hash
  log_Index :: uint64
  log_Removed :: bool

datatype journalEntry =
    createObjectChange address
  | resetObjectChange stateObject
  | suicideChange address bool int
  | balanceChange address int
  | smiloPayChange address int
  | blockChange address int int
  | nonceChange address uint64
  | storageChange address hash hash
  | codeChange address "bytes option" bytes
  | refundChange uint64
  | addLogChange hash
  | addPreimageChange hash
  | touchChange address

record journal =
  entries :: "journalEntry list"
  dirties :: "(address \<times> int) list"

record StateDB =
  sdb_db :: stateDatabase
  sdb_trie :: trie
  stateObjects :: "address \<Rightarrow> stateObject option"
  stateObjectsDirty :: "address list"
  refund :: uint64
  thash :: hash
  bhash :: hash
  txIndex :: int
  sdb_logs :: "hash \<Rightarrow> Log list option"
  logSize :: uint64
  preimages :: "hash \<Rightarrow> bytes option"
  sdb_journal :: journal
  validRevisions :: "(int \<times> nat) list"
  nextRevisionId :: int

definition newJournal :: journal where
  "newJournal = \<lparr>entries = [], dirties = []\<rparr>"

definition sdb_New :: "hash \<Rightarrow> stateDatabase \<Rightarrow> state_error + StateDB" where
  "sdb_New rt db =
     map_sum id (\<lambda>tr. \<lparr>sdb_db = db, sdb_trie = tr, stateObjects = Map.empty, stateObjectsDirty = [], refund = 0,
        thash = 0, bhash = 0, txIndex = 0, sdb_logs = Map.empty, logSize = 0, preimages = Map.empty,
        sdb_journal = newJournal, validRevisions = [], nextRevisionId = 0\<rparr>) (OpenTrie db rt)"


subsection \<open>The journal\<close>

fun dirtied :: "journalEntry \<Rightarrow> address option" where
  "dirtied (createObjectChange a) = Some a"
| "dirtied (resetObjectChange prev) = None"
| "dirtied (suicideChange a _ _) = Some a"
| "dirtied (balanceChange a _) = Some a"
| "dirtied (smiloPayChange a _) = Some a"
| "dirtied (blockChange a _ _) = Some a"
| "dirtied (nonceChange a _) = Some a"
| "dirtied (storageChange a _ _) = Some a"
| "dirtied (codeChange a _ _) = Some a"
| "dirtied (refundChange _) = None"
| "dirtied (addLogChange _) = None"
| "dirtied (addPreimageChange _) = None"
| "dirtied (touchChange a) = Some a"

definition count_of :: "address \<Rightarrow> (address \<times> int) list \<Rightarrow> int" where
  "count_of a ds = (case map_of ds a of None \<Rightarrow> 0 | Some n \<Rightarrow> n)"

definition j_dirty :: "address \<Rightarrow> journal \<Rightarrow> journal" where
  "j_dirty a j = j\<lparr>dirties := AList.update a (count_of a (dirties j) + 1) (dirties j)\<rparr>"

definition j_append :: "journalEntry \<Rightarrow> journal \<Rightarrow> journal" where
  "j_append e j =
     (let j = j\<lparr>entries := entries j @ [e]\<rparr>
      in case dirtied e of None \<Rightarrow> j | Some a \<Rightarrow> j_dirty a j)"

definition j_undirty :: "journalEntry \<Rightarrow> journal \<Rightarrow> journal" where
  "j_undirty e j =
     (case dirtied e of
        None \<Rightarrow> j
      | Some a \<Rightarrow>
          let n = count_of a (dirties j) - 1
          in j\<lparr>dirties := if n = 0 then AList.delete a (dirties j) else AList.update a n (dirties j)\<rparr>)"

definition append_change :: "journalEntry \<Rightarrow> StateDB \<Rightarrow> StateDB" where
  "append_change e s = s\<lparr>sdb_journal := j_append e (sdb_journal s)\<rparr>"


subsection \<open>Live objects\<close>

definition load_account :: "address \<Rightarrow> StateDB \<Rightarrow> stateObject option" where
  "load_account a s =
     (let enc = TryGet (be_fixed 20 (unat a)) (sdb_trie s)
      in if enc = [] then None
         else map_option (\<lambda>data. newObject (sdb_db s) a (Some data)) (DecodeBytes item_account enc))"

definition setStateObject :: "stateObject \<Rightarrow> StateDB \<Rightarrow> StateDB" where
  "setStateObject obj s = s\<lparr>stateObjects := (stateObjects s)(so_address obj \<mapsto> obj)\<rparr>"

definition getStateObject :: "address \<Rightarrow> StateDB \<Rightarrow> stateObject option \<times> StateDB" where
  "getStateObject a s =
     (case stateObjects s a of
        Some obj \<Rightarrow> (if deleted obj then None else Some obj, s)
      | None \<Rightarrow>
          (case load_account a s of None \<Rightarrow> (None, s) | Some obj \<Rightarrow> (Some obj, setStateObject obj s)))"

definition createObject :: "address \<Rightarrow> StateDB \<Rightarrow> stateObject option \<times> StateDB" where
  "createObject a s =
     (case getStateObject a s of
        (prev, s) \<Rightarrow>
          let newobj = so_setNonce 0 (newObject (sdb_db s) a None);
              s = append_change (case prev of None \<Rightarrow> createObjectChange a | Some prev \<Rightarrow> resetObjectChange prev) s
          in (prev, setStateObject newobj s))"

definition GetOrNewStateObject :: "address \<Rightarrow> StateDB \<Rightarrow> StateDB" where
  "GetOrNewStateObject a s =
     (case getStateObject a s of
        (Some obj, s) \<Rightarrow> if deleted obj then snd (createObject a s) else s
      | (None, s) \<Rightarrow> snd (createObject a s))"

text \<open>A change through the pointer to the live object at \<open>a\<close>; \<open>None\<close> is a nil pointer.\<close>

definition mod_object :: "address \<Rightarrow> (stateObject \<Rightarrow> stateObject) \<Rightarrow> StateDB \<Rightarrow> StateDB option" where
  "mod_object a f s = map_option (\<lambda>obj. s\<lparr>stateObjects := (stateObjects s)(a \<mapsto> f obj)\<rparr>) (stateObjects s a)"

text \<open>The same for the object \<open>getStateObject\<close> returns.\<close>

definition mod_found :: "address \<Rightarrow> (stateObject \<Rightarrow> stateObject) \<Rightarrow> StateDB \<Rightarrow> StateDB option" where
  "mod_found a f s =
     (case getStateObject a s of (None, s) \<Rightarrow> None | (Some obj, s) \<Rightarrow> mod_object a f s)"


subsection \<open>Undoing changes\<close>

fun entry_revert :: "journalEntry \<Rightarrow> StateDB \<Rightarrow> StateDB option" where
  "entry_revert (createObjectChange a) s =
     Some (s\<lparr>stateObjects := (stateObjects s)(a := None), stateObjectsDirty := removeAll a (stateObjectsDirty s)\<rparr>)"
| "entry_revert (resetObjectChange prev) s = Some (setStateObject prev s)"
| "entry_revert (suicideChange a prev prevbalance) s =
     (case getStateObject a s of
        (None, s) \<Rightarrow> Some s
      | (Some _, s) \<Rightarrow> mod_object a (\<lambda>obj. so_setBalance prevbalance (obj\<lparr>suicided := prev\<rparr>)) s)"
| "entry_revert (balanceChange a prev) s = mod_found a (so_setBalance prev) s"
| "entry_revert (smiloPayChange a prev) s = mod_found a (so_setSmiloPay prev) s"
| "entry_revert (blockChange a prevSmiloPay prevblock) s = mod_found a (setSmiloPayAndBlock prevSmiloPay prevblock) s"
| "entry_revert (nonceChange a prev) s = mod_found a (so_setNonce prev) s"
| "entry_revert (storageChange a key prevalue) s = mod_found a (so_setState key prevalue) s"
| "entry_revert (codeChange a prevcode prevhash) s = mod_found a (so_setCode (BytesToHash prevhash) prevcode) s"
| "entry_revert (refundChange prev) s = Some (s\<lparr>refund := prev\<rparr>)"
| "entry_revert (addLogChange txhash) s =
     (let logs = (case sdb_logs s txhash of None \<Rightarrow> [] | Some l \<Rightarrow> l)
      in if length logs = 1 then Some (s\<lparr>sdb_logs := (sdb_logs s)(txhash := None), logSize := logSize s - 1\<rparr>)
         else if logs = [] then None
         else Some (s\<lparr>sdb_logs := (sdb_logs s)(txhash \<mapsto> butlast logs), logSize := logSize s - 1\<rparr>))"
| "entry_revert (addPreimageChange h) s = Some (s\<lparr>preimages := (preimages s)(h := None)\<rparr>)"
| "entry_revert (touchChange a) s = Some s"

text \<open>The loop of \<open>journal.revert\<close>, over the entries to undo, the newest first.\<close>

fun revert_entries :: "journalEntry list \<Rightarrow> StateDB \<Rightarrow> StateDB option" where
  "revert_entries [] s = Some s"
| "revert_entries (e # es) s = do {
     s \<leftarrow> entry_revert e s;
     revert_entries es (s\<lparr>sdb_journal := j_undirty e (sdb_journal s)\<rparr>) }"

definition journal_revert :: "nat \<Rightarrow> StateDB \<Rightarrow> StateDB option" where
  "journal_revert snapshot s = do {
     s \<leftarrow> revert_entries (rev (drop snapshot (entries (sdb_journal s)))) s;
     Some (s\<lparr>sdb_journal := (sdb_journal s)\<lparr>entries := take snapshot (entries (sdb_journal s))\<rparr>\<rparr>) }"

definition sdb_Snapshot :: "StateDB \<Rightarrow> int \<times> StateDB" where
  "sdb_Snapshot s =
     (nextRevisionId s,
      s\<lparr>nextRevisionId := nextRevisionId s + 1,
        validRevisions := validRevisions s @ [(nextRevisionId s, length (entries (sdb_journal s)))]\<rparr>)"

text \<open>\<open>sort.Search\<close>: the binary search for the first index in \<open>[i, j)\<close> that satisfies \<open>f\<close>.\<close>

function sort_Search :: "(nat \<Rightarrow> bool) \<Rightarrow> nat \<Rightarrow> nat \<Rightarrow> nat" where
  "sort_Search f i j =
     (if i < j then let h = (i + j) div 2 in if \<not> f h then sort_Search f (h + 1) j else sort_Search f i h else i)"
  by pat_completeness auto
termination by (relation "measure (\<lambda>(f, i, j). j - i)") auto

declare sort_Search.simps [simp del]

definition RevertToSnapshot :: "int \<Rightarrow> StateDB \<Rightarrow> StateDB option" where
  "RevertToSnapshot revid s =
     (let revs = validRevisions s;
          idx = sort_Search (\<lambda>i. fst (revs ! i) \<ge> revid) 0 (length revs)
      in if idx = length revs \<or> fst (revs ! idx) \<noteq> revid then None
         else do {
           s \<leftarrow> journal_revert (snd (revs ! idx)) s;
           Some (s\<lparr>validRevisions := take idx revs\<rparr>) })"


subsection \<open>Journaled changes of one object\<close>

definition ripemd :: address where
  "ripemd = 3"

definition so_touch :: "address \<Rightarrow> StateDB \<Rightarrow> StateDB" where
  "so_touch a s =
     (let s = append_change (touchChange a) s
      in if a = ripemd then s\<lparr>sdb_journal := j_dirty a (sdb_journal s)\<rparr> else s)"

definition so_UpdateSmiloPay :: "address \<Rightarrow> int \<Rightarrow> StateDB \<Rightarrow> StateDB option" where
  "so_UpdateSmiloPay a blockNumber s = do {
     data \<leftarrow> map_option so_data (stateObjects s a);
     smiloPay \<leftarrow> CalculateSmiloPay (acc_BlockNumber data) blockNumber (acc_SmiloPay data) (acc_Balance data);
     mod_object a (setSmiloPayAndBlock smiloPay blockNumber)
       (append_change (blockChange a (acc_SmiloPay data) (acc_BlockNumber data)) s) }"

definition so_SetBalance :: "address \<Rightarrow> int \<Rightarrow> int \<Rightarrow> StateDB \<Rightarrow> StateDB option" where
  "so_SetBalance a amount blockNumber s = do {
     s \<leftarrow> so_UpdateSmiloPay a blockNumber s;
     data \<leftarrow> map_option so_data (stateObjects s a);
     mod_object a (so_setBalance amount) (append_change (balanceChange a (acc_Balance data)) s) }"

definition so_SetSmiloPay :: "address \<Rightarrow> int \<Rightarrow> StateDB \<Rightarrow> StateDB option" where
  "so_SetSmiloPay a amount s = do {
     data \<leftarrow> map_option so_data (stateObjects s a);
     mod_object a (so_setSmiloPay amount) (append_change (smiloPayChange a (acc_SmiloPay data)) s) }"

text \<open>A zero amount only touches an empty account.\<close>

definition touch_if_empty :: "address \<Rightarrow> StateDB \<Rightarrow> StateDB option" where
  "touch_if_empty a s = do {
     obj \<leftarrow> stateObjects s a;
     Some (if so_empty (sdb_db s) obj then so_touch a s else s) }"

definition so_AddBalance :: "address \<Rightarrow> int \<Rightarrow> int \<Rightarrow> StateDB \<Rightarrow> StateDB option" where
  "so_AddBalance a amount blockNumber s =
     (if amount = 0 then touch_if_empty a s
      else do {
        s \<leftarrow> so_UpdateSmiloPay a blockNumber s;
        data \<leftarrow> map_option so_data (stateObjects s a);
        so_SetBalance a (acc_Balance data + amount) blockNumber s })"

definition so_AddSmiloPay :: "address \<Rightarrow> int \<Rightarrow> StateDB \<Rightarrow> StateDB option" where
  "so_AddSmiloPay a amount s =
     (if amount = 0 then touch_if_empty a s
      else do {
        data \<leftarrow> map_option so_data (stateObjects s a);
        so_SetSmiloPay a (acc_SmiloPay data + amount) s })"

definition so_SubBalance :: "address \<Rightarrow> int \<Rightarrow> int \<Rightarrow> StateDB \<Rightarrow> StateDB option" where
  "so_SubBalance a amount blockNumber s =
     (if amount = 0 then Some s
      else do {
        data \<leftarrow> map_option so_data (stateObjects s a);
        so_SetBalance a (acc_Balance data - amount) blockNumber s })"

definition so_SubSmiloPay :: "address \<Rightarrow> int \<Rightarrow> int \<Rightarrow> StateDB \<Rightarrow> StateDB option" where
  "so_SubSmiloPay a amount blockNumber s =
     (if amount = 0 then Some s
      else do {
        s \<leftarrow> so_UpdateSmiloPay a blockNumber s;
        data \<leftarrow> map_option so_data (stateObjects s a);
        so_SetSmiloPay a (acc_SmiloPay data - amount) s })"

definition so_SetNonce :: "address \<Rightarrow> uint64 \<Rightarrow> StateDB \<Rightarrow> StateDB option" where
  "so_SetNonce a nonce s = do {
     data \<leftarrow> map_option so_data (stateObjects s a);
     mod_object a (so_setNonce nonce) (append_change (nonceChange a (acc_Nonce data)) s) }"

definition so_SetCode :: "address \<Rightarrow> hash \<Rightarrow> bytes option \<Rightarrow> StateDB \<Rightarrow> StateDB option" where
  "so_SetCode a codeHash code s = do {
     obj \<leftarrow> stateObjects s a;
     let (prevcode, obj) = so_Code (sdb_db s) obj;
     s \<leftarrow> mod_object a (\<lambda>_. obj) s;
     mod_object a (so_setCode codeHash code) (append_change (codeChange a prevcode (acc_CodeHash (so_data obj))) s) }"

definition so_SetState :: "address \<Rightarrow> hash \<Rightarrow> hash \<Rightarrow> StateDB \<Rightarrow> StateDB option" where
  "so_SetState a key value s = do {
     obj \<leftarrow> stateObjects s a;
     case fakeStorage obj of
       Some fake \<Rightarrow> mod_object a (\<lambda>obj. obj\<lparr>fakeStorage := Some (AList.update key value fake)\<rparr>) s
     | None \<Rightarrow> do {
         (prev, obj) \<leftarrow> so_GetState (sdb_db s) key obj;
         s \<leftarrow> mod_object a (\<lambda>_. obj) s;
         if prev = value then Some s
         else mod_object a (so_setState key value) (append_change (storageChange a key prev) s) } }"


subsection \<open>The operations of the state\<close>

definition AddBalance :: "address \<Rightarrow> int \<Rightarrow> int \<Rightarrow> StateDB \<Rightarrow> StateDB option" where
  "AddBalance a amount blockNumber s = so_AddBalance a amount blockNumber (GetOrNewStateObject a s)"

definition AddSmiloPay :: "address \<Rightarrow> int \<Rightarrow> StateDB \<Rightarrow> StateDB option" where
  "AddSmiloPay a amount s = so_AddSmiloPay a amount (GetOrNewStateObject a s)"

definition SubBalance :: "address \<Rightarrow> int \<Rightarrow> int \<Rightarrow> StateDB \<Rightarrow> StateDB option" where
  "SubBalance a amount blockNumber s = so_SubBalance a amount blockNumber (GetOrNewStateObject a s)"

definition SubSmiloPay :: "address \<Rightarrow> int \<Rightarrow> int \<Rightarrow> StateDB \<Rightarrow> StateDB option" where
  "SubSmiloPay a amount blockNumber s = so_SubSmiloPay a amount blockNumber (GetOrNewStateObject a s)"

definition SetBalance :: "address \<Rightarrow> int \<Rightarrow> int \<Rightarrow> StateDB \<Rightarrow> StateDB option" where
  "SetBalance a amount blockNumber s = so_SetBalance a amount blockNumber (GetOrNewStateObject a s)"

definition SetSmiloPay :: "address \<Rightarrow> int \<Rightarrow> StateDB \<Rightarrow> StateDB option" where
  "SetSmiloPay a amount s = so_SetSmiloPay a amount (GetOrNewStateObject a s)"

definition UpdateSmiloPay :: "address \<Rightarrow> int \<Rightarrow> StateDB \<Rightarrow> StateDB option" where
  "UpdateSmiloPay a blockNumber s = so_UpdateSmiloPay a blockNumber (GetOrNewStateObject a s)"

definition SetNonce :: "address \<Rightarrow> uint64 \<Rightarrow> StateDB \<Rightarrow> StateDB option" where
  "SetNonce a nonce s = so_SetNonce a nonce (GetOrNewStateObject a s)"

definition SetCode :: "address \<Rightarrow> bytes \<Rightarrow> StateDB \<Rightarrow> StateDB option" where
  "SetCode a code s = so_SetCode a (Keccak256Hash (sdb_db s) code) (Some code) (GetOrNewStateObject a s)"

definition SetState :: "address \<Rightarrow> hash \<Rightarrow> hash \<Rightarrow> StateDB \<Rightarrow> StateDB option" where
  "SetState a key value s = so_SetState a key value (GetOrNewStateObject a s)"

definition SetStorage :: "address \<Rightarrow> Storage \<Rightarrow> StateDB \<Rightarrow> StateDB option" where
  "SetStorage a storage s = mod_object a (so_SetStorage storage) (GetOrNewStateObject a s)"

definition Suicide :: "address \<Rightarrow> StateDB \<Rightarrow> (bool \<times> StateDB) option" where
  "Suicide a s =
     (case getStateObject a s of
        (None, s) \<Rightarrow> Some (False, s)
      | (Some obj, s) \<Rightarrow> do {
          s \<leftarrow> mod_object a (so_setBalance 0 \<circ> markSuicided)
                 (append_change (suicideChange a (suicided obj) (acc_Balance (so_data obj))) s);
          Some (True, s) })"

definition CreateAccount :: "address \<Rightarrow> StateDB \<Rightarrow> StateDB option" where
  "CreateAccount a s =
     (case createObject a s of
        (None, s) \<Rightarrow> Some s
      | (Some prev, s) \<Rightarrow> mod_object a (so_setBalance (acc_Balance (so_data prev))) s)"

definition AddLog :: "Log \<Rightarrow> StateDB \<Rightarrow> StateDB" where
  "AddLog l s =
     (let s = append_change (addLogChange (thash s)) s;
          l = l\<lparr>log_TxHash := thash s, log_BlockHash := bhash s, log_TxIndex := of_int (txIndex s), log_Index := logSize s\<rparr>
      in s\<lparr>sdb_logs := (sdb_logs s)(thash s \<mapsto> (case sdb_logs s (thash s) of None \<Rightarrow> [] | Some ls \<Rightarrow> ls) @ [l]),
           logSize := logSize s + 1\<rparr>)"

definition AddPreimage :: "hash \<Rightarrow> bytes \<Rightarrow> StateDB \<Rightarrow> StateDB" where
  "AddPreimage h preimage s =
     (if preimages s h = None
      then (append_change (addPreimageChange h) s)\<lparr>preimages := (preimages s)(h \<mapsto> preimage)\<rparr> else s)"

definition AddRefund :: "uint64 \<Rightarrow> StateDB \<Rightarrow> StateDB" where
  "AddRefund gas s = (append_change (refundChange (refund s)) s)\<lparr>refund := refund s + gas\<rparr>"

definition SubRefund :: "uint64 \<Rightarrow> StateDB \<Rightarrow> StateDB option" where
  "SubRefund gas s =
     (let s = append_change (refundChange (refund s)) s
      in if gas > refund s then None else Some (s\<lparr>refund := refund s - gas\<rparr>))"

definition sdb_Prepare :: "hash \<Rightarrow> hash \<Rightarrow> int \<Rightarrow> StateDB \<Rightarrow> StateDB" where
  "sdb_Prepare th bh ti s = s\<lparr>thash := th, bhash := bh, txIndex := ti\<rparr>"


subsection \<open>Reading the state\<close>

definition Exist :: "address \<Rightarrow> StateDB \<Rightarrow> bool \<times> StateDB" where
  "Exist a s = (case getStateObject a s of (obj, s) \<Rightarrow> (obj \<noteq> None, s))"

definition Empty :: "address \<Rightarrow> StateDB \<Rightarrow> bool \<times> StateDB" where
  "Empty a s =
     (case getStateObject a s of
        (None, s) \<Rightarrow> (True, s) | (Some obj, s) \<Rightarrow> (so_empty (sdb_db s) obj, s))"

definition GetBalance :: "address \<Rightarrow> StateDB \<Rightarrow> int \<times> StateDB" where
  "GetBalance a s =
     (case getStateObject a s of (None, s) \<Rightarrow> (0, s) | (Some obj, s) \<Rightarrow> (acc_Balance (so_data obj), s))"

definition GetSmiloPay :: "address \<Rightarrow> int \<Rightarrow> StateDB \<Rightarrow> (int \<times> StateDB) option" where
  "GetSmiloPay a blockNumber s =
     (case getStateObject a s of
        (None, s) \<Rightarrow> Some (0, s)
      | (Some obj, s) \<Rightarrow>
          map_option (\<lambda>r. (r, s)) (CalculateSmiloPay (acc_BlockNumber (so_data obj)) blockNumber
            (acc_SmiloPay (so_data obj)) (acc_Balance (so_data obj))))"

definition GetNonce :: "address \<Rightarrow> StateDB \<Rightarrow> uint64 \<times> StateDB" where
  "GetNonce a s =
     (case getStateObject a s of (None, s) \<Rightarrow> (0, s) | (Some obj, s) \<Rightarrow> (acc_Nonce (so_data obj), s))"

definition GetCode :: "address \<Rightarrow> StateDB \<Rightarrow> (bytes option \<times> StateDB) option" where
  "GetCode a s =
     (case getStateObject a s of
        (None, s) \<Rightarrow> Some (None, s)
      | (Some obj, s) \<Rightarrow>
          (case so_Code (sdb_db s) obj of (code, obj) \<Rightarrow> map_option (\<lambda>s. (code, s)) (mod_object a (\<lambda>_. obj) s)))"

definition GetCodeHash :: "address \<Rightarrow> StateDB \<Rightarrow> hash \<times> StateDB" where
  "GetCodeHash a s =
     (case getStateObject a s of
        (None, s) \<Rightarrow> (0, s) | (Some obj, s) \<Rightarrow> (BytesToHash (acc_CodeHash (so_data obj)), s))"

definition GetState :: "address \<Rightarrow> hash \<Rightarrow> StateDB \<Rightarrow> (hash \<times> StateDB) option" where
  "GetState a key s =
     (case getStateObject a s of
        (None, s) \<Rightarrow> Some (0, s)
      | (Some obj, s) \<Rightarrow> do {
          (v, obj) \<leftarrow> so_GetState (sdb_db s) key obj;
          s \<leftarrow> mod_object a (\<lambda>_. obj) s;
          Some (v, s) })"

definition GetCommittedState :: "address \<Rightarrow> hash \<Rightarrow> StateDB \<Rightarrow> (hash \<times> StateDB) option" where
  "GetCommittedState a key s =
     (case getStateObject a s of
        (None, s) \<Rightarrow> Some (0, s)
      | (Some obj, s) \<Rightarrow> do {
          (v, obj) \<leftarrow> so_GetCommittedState (sdb_db s) key obj;
          s \<leftarrow> mod_object a (\<lambda>_. obj) s;
          Some (v, s) })"

definition HasSuicided :: "address \<Rightarrow> StateDB \<Rightarrow> bool \<times> StateDB" where
  "HasSuicided a s =
     (case getStateObject a s of (None, s) \<Rightarrow> (False, s) | (Some obj, s) \<Rightarrow> (suicided obj, s))"

definition GetLogs :: "hash \<Rightarrow> StateDB \<Rightarrow> Log list" where
  "GetLogs h s = (case sdb_logs s h of None \<Rightarrow> [] | Some ls \<Rightarrow> ls)"


subsection \<open>Finalising and copying\<close>

definition clearJournalAndRefund :: "StateDB \<Rightarrow> StateDB" where
  "clearJournalAndRefund s = s\<lparr>sdb_journal := newJournal, validRevisions := [], refund := 0\<rparr>"

definition sdb_Reset :: "hash \<Rightarrow> StateDB \<Rightarrow> state_error + StateDB" where
  "sdb_Reset rt s =
     map_sum id (\<lambda>tr. clearJournalAndRefund (s\<lparr>sdb_trie := tr, stateObjects := Map.empty, stateObjectsDirty := [],
        thash := 0, bhash := 0, txIndex := 0, sdb_logs := Map.empty, logSize := 0, preimages := Map.empty\<rparr>))
       (OpenTrie (sdb_db s) rt)"

definition updateStateObject :: "stateObject \<Rightarrow> StateDB \<Rightarrow> StateDB option" where
  "updateStateObject obj s = do {
     data \<leftarrow> EncodeToBytes account_item (so_data obj);
     Some (s\<lparr>sdb_trie := TryUpdate (be_fixed 20 (unat (so_address obj))) data (sdb_trie s)\<rparr>) }"

definition deleteStateObject :: "stateObject \<Rightarrow> StateDB \<Rightarrow> StateDB" where
  "deleteStateObject obj s =
     (setStateObject (obj\<lparr>deleted := True\<rparr>) s)
       \<lparr>sdb_trie := TryDelete (be_fixed 20 (unat (so_address obj))) (sdb_trie s)\<rparr>"

definition finaliseObject :: "bool \<Rightarrow> address \<Rightarrow> StateDB \<Rightarrow> StateDB option" where
  "finaliseObject deleteEmptyObjects a s =
     (case stateObjects s a of
        None \<Rightarrow> Some s
      | Some obj \<Rightarrow> do {
          s \<leftarrow> (if suicided obj \<or> deleteEmptyObjects \<and> so_empty (sdb_db s) obj then Some (deleteStateObject obj s)
                else do {
                  obj \<leftarrow> updateRoot (sdb_db s) obj;
                  updateStateObject obj (setStateObject obj s) });
          Some (s\<lparr>stateObjectsDirty := List.insert a (stateObjectsDirty s)\<rparr>) })"

fun finaliseObjects :: "bool \<Rightarrow> address list \<Rightarrow> StateDB \<Rightarrow> StateDB option" where
  "finaliseObjects del [] s = Some s"
| "finaliseObjects del (a # as) s = do { s \<leftarrow> finaliseObject del a s; finaliseObjects del as s }"

definition Finalise :: "bool \<Rightarrow> StateDB \<Rightarrow> StateDB option" where
  "Finalise deleteEmptyObjects s = do {
     s \<leftarrow> finaliseObjects deleteEmptyObjects (map fst (dirties (sdb_journal s))) s;
     Some (clearJournalAndRefund s) }"

definition IntermediateRoot :: "bool \<Rightarrow> StateDB \<Rightarrow> (hash \<times> StateDB) option" where
  "IntermediateRoot deleteEmptyObjects s = do {
     s \<leftarrow> Finalise deleteEmptyObjects s;
     Some (trie_Hash (sdb_db s) (sdb_trie s), s) }"

text \<open>The two loops of \<open>Copy\<close> over the objects: the dirty ones of the journal, then the others.\<close>

definition copyDirty :: "StateDB \<Rightarrow> address \<Rightarrow> StateDB \<Rightarrow> StateDB" where
  "copyDirty self a state =
     (case stateObjects self a of
        None \<Rightarrow> state
      | Some obj \<Rightarrow> state\<lparr>stateObjects := (stateObjects state)(a \<mapsto> deepCopy (sdb_db self) obj),
                          stateObjectsDirty := List.insert a (stateObjectsDirty state)\<rparr>)"

fun copyRest :: "StateDB \<Rightarrow> address list \<Rightarrow> StateDB \<Rightarrow> StateDB option" where
  "copyRest self [] state = Some state"
| "copyRest self (a # as) state =
     (if stateObjects state a \<noteq> None then copyRest self as state
      else do {
        obj \<leftarrow> stateObjects self a;
        copyRest self as (state\<lparr>stateObjects := (stateObjects state)(a \<mapsto> deepCopy (sdb_db self) obj),
                                stateObjectsDirty := List.insert a (stateObjectsDirty state)\<rparr>) })"

definition sdb_Copy :: "StateDB \<Rightarrow> StateDB option" where
  "sdb_Copy self =
     copyRest self (stateObjectsDirty self)
       (fold (copyDirty self) (map fst (dirties (sdb_journal self)))
         \<lparr>sdb_db = sdb_db self, sdb_trie = sdb_trie self, stateObjects = Map.empty, stateObjectsDirty = [],
          refund = refund self, thash = 0, bhash = 0, txIndex = 0, sdb_logs = sdb_logs self, logSize = logSize self,
          preimages = preimages self, sdb_journal = newJournal, validRevisions = [], nextRevisionId = 0\<rparr>)"

end
