(* ===== verification/Engine_Ops.thy ===== *)
theory Engine_Ops
  imports Engine_Verify State_DB
begin

text \<open>
  The operations with which the engine makes a block and hands it on
  (\<open>consensus/sport/backend/backend_engine.go\<close>, \<open>backend_engine_sport.go\<close>, \<open>backend_impl.go\<close>,
  \<open>api.go\<close>, \<open>api_sport.go\<close>): preparing a header, rewards, sealing, committing, verifying a
  proposal, and the fullnodes of a block.

  A block is its header, transactions and uncles. The root hashes of transactions and receipts, the
  bloom filter of the receipts, signing and the random choice of a candidate are arguments.
\<close>

subsection \<open>Blocks\<close>

record 'tx block =
  blk_header :: header
  blk_transactions :: "'tx list"
  blk_uncles :: "header list"

definition NewBlock ::
    "crypto \<Rightarrow> ('tx list \<Rightarrow> hash) \<Rightarrow> ('r list \<Rightarrow> hash) \<Rightarrow> ('r list \<Rightarrow> 2048 word) \<Rightarrow>
     header \<Rightarrow> 'tx list \<Rightarrow> header list \<Rightarrow> 'r list \<Rightarrow> 'tx block" where
  "NewBlock cr txSha receiptSha CreateBloom header txs uncles receipts =
     (let h = CopyHeader header;
          h = h\<lparr>h_TxHash := txSha txs\<rparr>;
          h = (if receipts = [] then h\<lparr>h_ReceiptHash := txSha []\<rparr>
               else h\<lparr>h_ReceiptHash := receiptSha receipts, h_Bloom := CreateBloom receipts\<rparr>);
          h = h\<lparr>h_UncleHash := CalcUncleHash cr uncles\<rparr>
      in \<lparr>blk_header = h, blk_transactions = txs, blk_uncles = map CopyHeader uncles\<rparr>)"

definition WithSeal :: "header \<Rightarrow> 'tx block \<Rightarrow> 'tx block" where
  "WithSeal header b = b\<lparr>blk_header := header\<rparr>"

definition block_Header :: "'tx block \<Rightarrow> header" where
  "block_Header b = CopyHeader (blk_header b)"

definition block_Hash :: "crypto \<Rightarrow> 'tx block \<Rightarrow> hash" where
  "block_Hash cr b = header_Hash cr (blk_header b)"


subsection \<open>Preparing a header\<close>

text \<open>The candidates worth a vote. \<open>state\<close> is the result of \<open>sb.chain.State()\<close>, asked for once the core has started.\<close>

definition voteCandidates :: "error + StateDB \<Rightarrow> Snapshot \<Rightarrow> sportBackend \<Rightarrow> error + (address \<times> bool) list" where
  "voteCandidates state snap sb =
     (if sb_coreStarted sb then
        (case state of Inl err \<Rightarrow> Inl err
         | Inr statedb \<Rightarrow>
             Inr (filter (\<lambda>(address, authorize). checkVote address authorize snap
                    \<and> \<not> fst (GetBalance address statedb) < sint (MinFunds (sb_config sb))) (sb_candidates sb)))
      else Inr (filter (\<lambda>(address, authorize). checkVote address authorize snap) (sb_candidates sb)))"

definition castCandidate :: "(nat \<Rightarrow> nat) \<Rightarrow> (address \<times> bool) list \<Rightarrow> header \<Rightarrow> header" where
  "castCandidate Intn addresses header =
     (if addresses \<noteq> [] then
        (case addresses ! Intn (length addresses) of (address, authorize) \<Rightarrow>
           header\<lparr>h_Coinbase := address, h_Nonce := if authorize then nonceAuthVote else nonceDropVote\<rparr>)
      else header)"

definition prepareTime :: "engineEnv \<Rightarrow> uint64 \<Rightarrow> uint64 \<Rightarrow> uint64" where
  "prepareTime env parentTime period =
     (let t = parentTime + period in if sint t < now_Unix env then of_int (now_Unix env) else t)"

text \<open>What \<open>Prepare\<close> writes into the header once it has the snapshot of the parent.\<close>

definition fillHeader ::
    "engineEnv \<Rightarrow> error + StateDB \<Rightarrow> (nat \<Rightarrow> nat) \<Rightarrow> header \<Rightarrow> header \<Rightarrow> Snapshot \<Rightarrow> sportBackend \<Rightarrow> error + header" where
  "fillHeader env state Intn parent header snap sb =
     (case voteCandidates state snap sb of Inl err \<Rightarrow> Inl err
      | Inr addresses \<Rightarrow>
          let header = castCandidate Intn addresses header
          in case prepareExtra header (snap_fullnodes snap) of Inl err \<Rightarrow> Inl err
             | Inr extra \<Rightarrow>
                 Inr (header\<lparr>h_Extra := extra, h_Time := prepareTime env (h_Time parent) (BlockPeriod (sb_config sb))\<rparr>))"

definition Prepare ::
    "engineEnv \<Rightarrow> chainReader \<Rightarrow> error + StateDB \<Rightarrow> (nat \<Rightarrow> nat) \<Rightarrow> header \<Rightarrow> sportBackend \<Rightarrow> header run" where
  "Prepare env chain state Intn header sb =
     (let header = header\<lparr>h_Nonce := 0, h_MixDigest := SportDigest\<rparr>
      in case header_Uint64 header of None \<Rightarrow> None
         | Some number \<Rightarrow>
             (case GetHeader chain (h_ParentHash header) (number - 1) of
                None \<Rightarrow> Some (Inl ErrUnknownAncestor, sb)
              | Some parent \<Rightarrow>
                  let header = header\<lparr>h_Difficulty := Some defaultDifficulty\<rparr>
                  in andThen (snapshot env chain (number - 1) (h_ParentHash header) [] sb)
                       (\<lambda>snap sb. Some (fillHeader env state Intn parent header snap sb, sb))))"


subsection \<open>Rewards\<close>

text \<open>Amounts in gwei, as the table writes them, are turned into wei.\<close>

definition gwei :: "int \<Rightarrow> int" where
  "gwei n = n * 1000000000"

definition smiloTokenMetricsTable :: "(int \<times> int) list" where
  "smiloTokenMetricsTable =
     [(20000000, gwei 4000000000), (40000000, gwei 2000000000), (60000000, gwei 1750000000), (80000000, gwei 1500000000),
      (100000000, gwei 1250000000), (120000000, gwei 1000000000), (140000000, gwei 800000000), (160000000, gwei 600000000),
      (180000000, gwei 400000000), (200000000, gwei 200000000), (400000000, gwei 100000000), (800000000, gwei 50000000),
      (1600000000, gwei 25000000)]"

text \<open>The loop over the table, which Go may run through in any order.\<close>

fun maxReward :: "int \<Rightarrow> (int \<times> int) list \<Rightarrow> int \<Rightarrow> int" where
  "maxReward blockNum [] blockReward = blockReward"
| "maxReward blockNum ((maxBlockRange, reward) # table) blockReward =
     maxReward blockNum table (if blockNum < maxBlockRange \<and> reward > blockReward then reward else blockReward)"

definition getSmiloBlockReward :: "int \<Rightarrow> int" where
  "getSmiloBlockReward blockNum = maxReward blockNum smiloTokenMetricsTable 0"

lemma maxReward_Max: "maxReward n table r = Max (insert r (snd ` {p \<in> set table. n < fst p}))"
proof (induction table arbitrary: r)
  case (Cons p table)
  obtain m reward where p: "p = (m, reward)" by fastforce
  define S where "S = snd ` {p \<in> set table. n < fst p}"
  have fin: "finite S" by (simp add: S_def)
  have "{q \<in> set (p # table). n < fst q} = (if n < m then insert p {q \<in> set table. n < fst q} else {q \<in> set table. n < fst q})"
    by (auto simp: p)
  then have "insert r (snd ` {q \<in> set (p # table). n < fst q}) = (if n < m then insert r (insert reward S) else insert r S)"
    by (simp add: p S_def)
  moreover have "Max (insert r (insert reward S)) = Max (insert (max r reward) S)"
    using fin by (cases "S = {}") (simp_all add: max.assoc)
  moreover have "(if n < m \<and> reward > r then reward else r) = (if n < m then max r reward else r)" by (simp add: max_def)
  ultimately show ?case using Cons.IH by (simp add: p S_def)
qed simp

text \<open>The reward does not depend on the order in which the table is read, and never grows with the block number.\<close>

lemma maxReward_order: "set t = set u \<Longrightarrow> maxReward n t r = maxReward n u r"
  by (simp add: maxReward_Max)

lemma getSmiloBlockReward_antimono: "n \<le> m \<Longrightarrow> getSmiloBlockReward m \<le> getSmiloBlockReward n"
  unfolding getSmiloBlockReward_def maxReward_Max by (rule Max_mono) auto

definition fromHexChar :: "char \<Rightarrow> nat option" where
  "fromHexChar c =
     (let n = of_char c in
        if 48 \<le> n \<and> n \<le> 57 then Some (n - 48) else if 97 \<le> n \<and> n \<le> 102 then Some (n - 87)
        else if 65 \<le> n \<and> n \<le> 70 then Some (n - 55) else None)"

text \<open>The bytes before the first character that is not a hexadecimal digit; the error is dropped.\<close>

fun Hex2Bytes :: "string \<Rightarrow> bytes" where
  "Hex2Bytes (a # b # s) =
     (case (fromHexChar a, fromHexChar b) of (Some x, Some y) \<Rightarrow> of_nat (16 * x + y) # Hex2Bytes s | _ \<Rightarrow> [])"
| "Hex2Bytes _ = []"

definition FromHex :: "string \<Rightarrow> bytes" where
  "FromHex s =
     (let s = (if length s > 1 \<and> (take 2 s = ''0x'' \<or> take 2 s = ''0X'') then drop 2 s else s)
      in Hex2Bytes (if length s mod 2 = 1 then CHR ''0'' # s else s))"

definition HexToAddress :: "string \<Rightarrow> address" where
  "HexToAddress s = of_nat (be_val (FromHex s))"

definition AccumulateRewards :: "string \<Rightarrow> header \<Rightarrow> int \<Rightarrow> StateDB \<Rightarrow> StateDB option" where
  "AccumulateRewards communityAddress header number state =
     (let blockReward = getSmiloBlockReward number
      in if h_Coinbase header \<noteq> 0 then do {
           state \<leftarrow> (if communityAddress \<noteq> [] then
                       AddBalance (HexToAddress communityAddress) (blockReward div 4) number state
                     else Some state);
           AddBalance (h_Coinbase header) blockReward number state }
         else Some state)"

definition Finalize ::
    "engineEnv \<Rightarrow> ('tx list \<Rightarrow> hash) \<Rightarrow> ('r list \<Rightarrow> hash) \<Rightarrow> ('r list \<Rightarrow> 2048 word) \<Rightarrow> (int \<Rightarrow> bool) \<Rightarrow>
     sportBackend \<Rightarrow> header \<Rightarrow> StateDB \<Rightarrow> 'tx list \<Rightarrow> 'r list \<Rightarrow> ('tx block \<times> StateDB) option" where
  "Finalize env txSha receiptSha CreateBloom IsEIP158 sb header state txs receipts = do {
     number \<leftarrow> h_Number header;
     state \<leftarrow> (if number > 1 \<and> txs \<noteq> [] \<or> sint (of_int number :: uint64) < 40000000
               then AccumulateRewards (CommunityAddress (sb_config sb)) header number state else Some state);
     (root, state) \<leftarrow> IntermediateRoot (IsEIP158 number) state;
     header \<leftarrow> Some (header\<lparr>h_Root := root, h_UncleHash := nilUncleHash (e_crypto env)\<rparr>);
     Some (NewBlock (e_crypto env) txSha receiptSha CreateBloom header txs [] receipts, state) }"


subsection \<open>Sealing\<close>

text \<open>\<open>sign\<close> is \<open>crypto.Sign\<close> with the key of the node.\<close>

definition Sign :: "engineEnv \<Rightarrow> (bytes \<Rightarrow> error + bytes) \<Rightarrow> bytes \<Rightarrow> error + bytes" where
  "Sign env sign data = sign (Keccak256 (e_crypto env) data)"

definition updateBlock :: "engineEnv \<Rightarrow> (bytes \<Rightarrow> error + bytes) \<Rightarrow> header \<Rightarrow> 'tx block \<Rightarrow> error + 'tx block" where
  "updateBlock env sign parent b =
     (let header = block_Header b
      in case Sign env sign (hash_Bytes (sigHash (e_crypto env) header)) of Inl err \<Rightarrow> Inl err
         | Inr seal \<Rightarrow>
             (case writeSeal header seal of Inl err \<Rightarrow> Inl err | Inr header \<Rightarrow> Inr (WithSeal header b)))"

text \<open>
  \<open>Seal\<close> up to the request to the core, when it is not stopped while it waits for the time of the
  block; the block it returns is the proposal.
\<close>

definition sealProposal ::
    "engineEnv \<Rightarrow> chainReader \<Rightarrow> (bytes \<Rightarrow> error + bytes) \<Rightarrow> 'tx block \<Rightarrow> sportBackend \<Rightarrow> 'tx block run" where
  "sealProposal env chain sign b sb =
     (let header = block_Header b
      in case header_Uint64 header of None \<Rightarrow> None
         | Some number \<Rightarrow>
             andThen (snapshot env chain (number - 1) (h_ParentHash header) [] sb) (\<lambda>snap sb.
               Some (if GetByAddress (sb_address sb) (s_FullnodeSet snap) = None then (Inl errUnauthorized, sb)
                 else (case GetHeader chain (h_ParentHash header) (number - 1) of
                     None \<Rightarrow> (Inl ErrUnknownAncestor, sb)
                   | Some parent \<Rightarrow>
                       (case updateBlock env sign parent b of Inl err \<Rightarrow> (Inl err, sb)
                        | Inr b \<Rightarrow>
                            if blk_transactions b = [] \<and> the (h_Number (block_Header b)) \<ge> MinBlocksEmptyMining (sb_config sb)
                            then (Inl errWaitTransactions, sb)
                            else (Inr b, sb\<lparr>sb_proposedBlockHash := block_Hash (e_crypto env) b\<rparr>))))))"

text \<open>
  The wait for the committed block: blocks with another hash are skipped. \<open>Some None\<close> is waiting on;
  a nil block, which a closed channel gives, is dereferenced.
\<close>

fun sealResult :: "crypto \<Rightarrow> 'tx block \<Rightarrow> 'tx block option list \<Rightarrow> 'tx block option option" where
  "sealResult cr b [] = Some None"
| "sealResult cr b (None # results) = None"
| "sealResult cr b (Some result # results) =
     (if block_Hash cr b = block_Hash cr result then Some (Some result) else sealResult cr b results)"

text \<open>The proposed hash is cleared when \<open>Seal\<close> returns.\<close>

definition sealDone :: "sportBackend \<Rightarrow> sportBackend" where
  "sealDone sb = sb\<lparr>sb_proposedBlockHash := 0\<rparr>"


subsection \<open>The backend of the core\<close>

datatype 'tx handover = ToSealer "'tx block" | Enqueued "'tx block" | Unsent

definition Commit :: "engineEnv \<Rightarrow> bool \<Rightarrow> sportBackend \<Rightarrow> 'tx block \<Rightarrow> bytes list \<Rightarrow> error + 'tx handover" where
  "Commit env broadcaster sb proposal seals =
     (case writeCommittedSeals (block_Header proposal) seals of Inl err \<Rightarrow> Inl err
      | Inr h \<Rightarrow>
          let b = WithSeal h proposal
          in if sb_proposedBlockHash sb = block_Hash (e_crypto env) b then Inr (ToSealer b)
             else if broadcaster then Inr (Enqueued b) else Inr Unsent)"

definition HasBadBlockProposal :: "(hash \<Rightarrow> bool) option \<Rightarrow> hash \<Rightarrow> bool" where
  "HasBadBlockProposal hasBadBlock hash = (case hasBadBlock of None \<Rightarrow> False | Some f \<Rightarrow> f hash)"

text \<open>A duration is in nanoseconds; the difference of two times saturates at the 64-bit limits.\<close>

definition untilTime :: "engineEnv \<Rightarrow> uint64 \<Rightarrow> int" where
  "untilTime env t = max (- (2 ^ 63)) (min (2 ^ 63 - 1) (sint t * 1000000000 - e_nowNano env))"

definition Verify ::
    "engineEnv \<Rightarrow> chainReader \<Rightarrow> (hash \<Rightarrow> bool) option \<Rightarrow> ('tx list \<Rightarrow> hash) \<Rightarrow> 'tx block \<Rightarrow> sportBackend \<Rightarrow>
     ((int \<times> error option) \<times> sportBackend) option" where
  "Verify env chain hasBadBlock txSha b sb =
     (if HasBadBlockProposal hasBadBlock (block_Hash (e_crypto env) b) then Some ((0, Some ErrBlacklistedHash), sb)
      else if txSha (blk_transactions b) \<noteq> h_TxHash (block_Header b) then Some ((0, Some errMismatchTxhashes), sb)
      else if CalcUncleHash (e_crypto env) (blk_uncles b) \<noteq> nilUncleHash (e_crypto env)
      then Some ((0, Some errInvalidUncleHash), sb)
      else (case VerifyHeader env chain (block_Header b) False sb of None \<Rightarrow> None
        | Some (r, sb) \<Rightarrow>
            Some (case r of Inr _ \<Rightarrow> ((0, None), sb)
              | Inl err \<Rightarrow>
                  if err = errEmptyCommittedSeals then ((0, None), sb)
                  else if err = ErrFutureBlock then ((untilTime env (h_Time (block_Header b)), Some ErrFutureBlock), sb)
                  else ((0, Some err), sb))))"

definition VerifyUncles :: "'tx block \<Rightarrow> error option" where
  "VerifyUncles b = (if length (blk_uncles b) > 0 then Some errInvalidUncleHash else None)"

definition CheckSignature :: "engineEnv \<Rightarrow> bytes \<Rightarrow> address \<Rightarrow> bytes \<Rightarrow> error option" where
  "CheckSignature env data address sig =
     (case GetSignatureAddress (e_crypto env) data sig of Inl err \<Rightarrow> Some err
      | Inr signer \<Rightarrow> if signer \<noteq> address then Some errInvalidSignature else None)"

definition HasBlockProposal :: "chainReader \<Rightarrow> hash \<Rightarrow> int \<Rightarrow> bool" where
  "HasBlockProposal chain hash number \<longleftrightarrow> GetHeader chain hash (of_int \<bar>number\<bar>) \<noteq> None"

definition engine_GetSpeaker :: "engineEnv \<Rightarrow> chainReader \<Rightarrow> uint64 \<Rightarrow> address" where
  "engine_GetSpeaker env chain number =
     (case GetHeaderByNumber chain number of None \<Rightarrow> 0
      | Some h \<Rightarrow> (case Author env h of Inl _ \<Rightarrow> 0 | Inr a \<Rightarrow> a))"

definition getFullnodes :: "engineEnv \<Rightarrow> chainReader \<Rightarrow> uint64 \<Rightarrow> hash \<Rightarrow> sportBackend \<Rightarrow> (fullnodeSet \<times> sportBackend) option" where
  "getFullnodes env chain number hash sb =
     (case snapshot env chain number hash [] sb of None \<Rightarrow> None
      | Some (r, sb) \<Rightarrow>
          Some (case r of Inl _ \<Rightarrow> (NewFullnodeSet (e_crypto env) [] (SpeakerPolicy (sb_config sb)), sb)
                | Inr snap \<Rightarrow> (s_FullnodeSet snap, sb)))"

definition engine_Fullnodes :: "engineEnv \<Rightarrow> chainReader \<Rightarrow> 'tx block \<Rightarrow> sportBackend \<Rightarrow> (fullnodeSet \<times> sportBackend) option" where
  "engine_Fullnodes env chain proposal sb =
     (case header_Uint64 (blk_header proposal) of None \<Rightarrow> None
      | Some number \<Rightarrow> getFullnodes env chain number (block_Hash (e_crypto env) proposal) sb)"

definition ParentFullnodes :: "engineEnv \<Rightarrow> chainReader \<Rightarrow> 'tx block \<Rightarrow> sportBackend \<Rightarrow> (fullnodeSet \<times> sportBackend) option" where
  "ParentFullnodes env chain proposal sb =
     (case header_Uint64 (blk_header proposal) of None \<Rightarrow> None
      | Some number \<Rightarrow> getFullnodes env chain (number - 1) (h_ParentHash (blk_header proposal)) sb)"

definition LastBlockProposal :: "engineEnv \<Rightarrow> 'tx block \<Rightarrow> ('tx block option \<times> address) option" where
  "LastBlockProposal env currentBlock =
     (case h_Number (blk_header currentBlock) of None \<Rightarrow> None
      | Some number \<Rightarrow>
          Some (if number > 0 then
                  (case Author env (block_Header currentBlock) of Inl _ \<Rightarrow> (None, 0) | Inr a \<Rightarrow> (Some currentBlock, a))
                else (Some currentBlock, 0)))"

definition engine_Start :: "sportBackend \<Rightarrow> error option \<times> sportBackend" where
  "engine_Start sb =
     (if sb_coreStarted sb then (Some ErrStartedEngine, sb)
      else (None, sb\<lparr>sb_proposedBlockHash := 0, sb_coreStarted := True\<rparr>))"

definition engine_Stop :: "sportBackend \<Rightarrow> error option \<times> sportBackend" where
  "engine_Stop sb =
     (if \<not> sb_coreStarted sb then (Some ErrStoppedEngine, sb) else (None, sb\<lparr>sb_coreStarted := False\<rparr>))"


subsection \<open>The API\<close>

definition Propose :: "error + StateDB \<Rightarrow> address \<Rightarrow> bool \<Rightarrow> sportBackend \<Rightarrow> sportBackend" where
  "Propose state address auth sb =
     (let requireSmilos = sint (MinFunds (sb_config sb)) * 1000000000000000000
      in case state of Inl _ \<Rightarrow> sb
         | Inr statedb \<Rightarrow>
             if fst (GetBalance address statedb) < requireSmilos then sb
             else sb\<lparr>sb_candidates := AList.update address auth (sb_candidates sb)\<rparr>)"

definition Discard :: "address \<Rightarrow> sportBackend \<Rightarrow> sportBackend" where
  "Discard address sb = sb\<lparr>sb_candidates := AList.delete address (sb_candidates sb)\<rparr>"

definition api_snapshot :: "engineEnv \<Rightarrow> chainReader \<Rightarrow> header option \<Rightarrow> sportBackend \<Rightarrow> Snapshot run" where
  "api_snapshot env chain header sb =
     (case header of None \<Rightarrow> Some (Inl errUnknownBlock, sb)
      | Some header \<Rightarrow>
          (case header_Uint64 header of None \<Rightarrow> None
           | Some number \<Rightarrow> snapshot env chain number (header_Hash (e_crypto env) header) [] sb))"

text \<open>\<open>None\<close> is a nil block number; the latest block is the number \<open>-1\<close>.\<close>

definition GetSnapshot :: "engineEnv \<Rightarrow> chainReader \<Rightarrow> int option \<Rightarrow> sportBackend \<Rightarrow> Snapshot run" where
  "GetSnapshot env chain number sb =
     (if number = None \<or> number = Some (- 1) then api_snapshot env chain (CurrentHeader chain) sb
      else api_snapshot env chain (GetHeaderByNumber chain (of_int (the number))) sb)"

definition GetSnapshotAtHash :: "engineEnv \<Rightarrow> chainReader \<Rightarrow> hash \<Rightarrow> sportBackend \<Rightarrow> Snapshot run" where
  "GetSnapshotAtHash env chain hash sb = api_snapshot env chain (GetHeaderByHash chain hash) sb"

definition GetFullnodes :: "engineEnv \<Rightarrow> chainReader \<Rightarrow> int option \<Rightarrow> sportBackend \<Rightarrow> (address list) run" where
  "GetFullnodes env chain blockNum sb =
     (case blockNum of None \<Rightarrow> Some (Inl errUnknownBlock, sb)
      | Some n \<Rightarrow>
          andThen (api_snapshot env chain (GetHeaderByNumber chain (of_int n)) sb) (\<lambda>snap sb. Some (Inr (snap_fullnodes snap), sb)))"

definition GetFullnodesByHash :: "engineEnv \<Rightarrow> chainReader \<Rightarrow> hash \<Rightarrow> sportBackend \<Rightarrow> (address list) run" where
  "GetFullnodesByHash env chain hash sb =
     (if hash = 0 then Some (Inl errUnknownBlock, sb)
      else andThen (api_snapshot env chain (GetHeaderByHash chain hash) sb) (\<lambda>snap sb. Some (Inr (snap_fullnodes snap), sb)))"

end
