(* ===== verification/State_Journal.thy ===== *)
theory State_Journal
  imports State_DB
begin

text \<open>
  The journal of the world state is a faithful record: what the state shows of its accounts, its
  storage, logs, preimages and refund counter (\<open>view\<close>) is brought back by undoing the entries an
  operation appended. \<open>vrevert\<close> is the effect of undoing one entry on the view; \<open>journaled\<close> is the
  contract every operation of the state keeps, and \<open>RevertToSnapshot\<close> relies on nothing else.
\<close>

subsection \<open>What a state shows\<close>

record acct =
  v_data :: Account
  v_suicided :: bool
  v_state :: "hash \<Rightarrow> hash"
  v_committed :: "hash \<Rightarrow> hash"
  v_code :: "bytes option"

record world =
  w_acct :: "address \<Rightarrow> acct option"
  w_refund :: uint64
  w_logs :: "hash \<Rightarrow> Log list"
  w_logSize :: uint64
  w_preimages :: "hash \<Rightarrow> bytes option"

definition slot_value :: "bytes \<Rightarrow> hash" where
  "slot_value enc =
     (if enc = [] then 0 else case rlp_split enc of None \<Rightarrow> 0 | Some (_, content, _) \<Rightarrow> BytesToHash content)"

definition committed :: "stateDatabase \<Rightarrow> stateObject \<Rightarrow> hash \<Rightarrow> hash" where
  "committed db obj key =
     (case map_of (originStorage obj) key of
        Some v \<Rightarrow> v
      | None \<Rightarrow> (case fst (getTrie db obj) of None \<Rightarrow> 0 | Some tr \<Rightarrow> slot_value (TryGet (hash_Bytes key) tr)))"

definition code_at :: "stateDatabase \<Rightarrow> hash \<Rightarrow> bytes \<Rightarrow> bytes option \<Rightarrow> bytes option" where
  "code_at db ah ch code =
     (case code of
        Some c \<Rightarrow> Some c
      | None \<Rightarrow> if ch = emptyCodeHash db then None
                else case ContractCode db ah (BytesToHash ch) of Inr c \<Rightarrow> Some c | Inl _ \<Rightarrow> None)"

definition obj_view :: "stateDatabase \<Rightarrow> stateObject \<Rightarrow> acct" where
  "obj_view db obj =
     \<lparr>v_data = so_data obj, v_suicided = suicided obj,
      v_state = (\<lambda>k. case map_of (dirtyStorage obj) k of Some v \<Rightarrow> v | None \<Rightarrow> committed db obj k),
      v_committed = committed db obj,
      v_code = code_at db (so_addrHash obj) (acc_CodeHash (so_data obj)) (so_code obj)\<rparr>"

definition obj_at :: "StateDB \<Rightarrow> address \<Rightarrow> stateObject option" where
  "obj_at s a = fst (getStateObject a s)"

definition view_of :: "StateDB \<Rightarrow> world" where
  "view_of s =
     \<lparr>w_acct = (\<lambda>a. map_option (obj_view (sdb_db s)) (obj_at s a)), w_refund = refund s,
      w_logs = (\<lambda>h. GetLogs h s), w_logSize = logSize s, w_preimages = preimages s\<rparr>"

text \<open>Undoing an entry, on the view.\<close>

definition on_acct :: "address \<Rightarrow> (acct \<Rightarrow> acct) \<Rightarrow> world \<Rightarrow> world option" where
  "on_acct a f w = map_option (\<lambda>v. w\<lparr>w_acct := (w_acct w)(a \<mapsto> f v)\<rparr>) (w_acct w a)"

definition on_data :: "address \<Rightarrow> (Account \<Rightarrow> Account) \<Rightarrow> world \<Rightarrow> world option" where
  "on_data a f = on_acct a (\<lambda>v. v\<lparr>v_data := f (v_data v)\<rparr>)"

definition addrHash :: "stateDatabase \<Rightarrow> address \<Rightarrow> hash" where
  "addrHash db a = Keccak256Hash db (be_fixed 20 (unat a))"

fun vrevert :: "stateDatabase \<Rightarrow> journalEntry \<Rightarrow> world \<Rightarrow> world option" where
  "vrevert db (createObjectChange a) w = Some (w\<lparr>w_acct := (w_acct w)(a := None)\<rparr>)"
| "vrevert db (resetObjectChange prev) w = Some (w\<lparr>w_acct := (w_acct w)(so_address prev \<mapsto> obj_view db prev)\<rparr>)"
| "vrevert db (suicideChange a p b) w =
     Some (w\<lparr>w_acct := (w_acct w)(a := map_option (\<lambda>v. v\<lparr>v_suicided := p, v_data := (v_data v)\<lparr>acc_Balance := b\<rparr>\<rparr>) (w_acct w a))\<rparr>)"
| "vrevert db (balanceChange a b) w = on_data a (\<lambda>d. d\<lparr>acc_Balance := b\<rparr>) w"
| "vrevert db (smiloPayChange a p) w = on_data a (\<lambda>d. d\<lparr>acc_SmiloPay := p\<rparr>) w"
| "vrevert db (blockChange a p n) w = on_data a (\<lambda>d. d\<lparr>acc_SmiloPay := p, acc_BlockNumber := n\<rparr>) w"
| "vrevert db (nonceChange a n) w = on_data a (\<lambda>d. d\<lparr>acc_Nonce := n\<rparr>) w"
| "vrevert db (storageChange a k x) w = on_acct a (\<lambda>v. v\<lparr>v_state := (v_state v)(k := x)\<rparr>) w"
| "vrevert db (codeChange a c h) w =
     on_acct a (\<lambda>v. v\<lparr>v_data := (v_data v)\<lparr>acc_CodeHash := h\<rparr>, v_code := code_at db (addrHash db a) h c\<rparr>) w"
| "vrevert db (refundChange r) w = Some (w\<lparr>w_refund := r\<rparr>)"
| "vrevert db (addLogChange h) w =
     (if w_logs w h = [] then None
      else Some (w\<lparr>w_logs := (w_logs w)(h := butlast (w_logs w h)), w_logSize := w_logSize w - 1\<rparr>))"
| "vrevert db (addPreimageChange h) w = Some (w\<lparr>w_preimages := (w_preimages w)(h := None)\<rparr>)"
| "vrevert db (touchChange a) w = Some w"

fun vundo :: "stateDatabase \<Rightarrow> journalEntry list \<Rightarrow> world \<Rightarrow> world option" where
  "vundo db [] w = Some w"
| "vundo db (e # es) w = do { w \<leftarrow> vundo db es w; vrevert db e w }"

lemma vundo_append: "vundo db (es @ fs) w = do { w \<leftarrow> vundo db fs w; vundo db es w }"
  by (induction es) auto


subsection \<open>The invariant of the state\<close>

definition db_ok :: "stateDatabase \<Rightarrow> bool" where
  "db_ok db \<longleftrightarrow> (\<forall>h. \<exists>t. OpenStorageTrie db h 0 = Inr t) \<and> (\<forall>b. length (db_Keccak256 db b) = 32)"

definition obj_ok :: "stateDatabase \<Rightarrow> stateObject \<Rightarrow> bool" where
  "obj_ok db obj \<longleftrightarrow> fakeStorage obj = None \<and> length (acc_CodeHash (so_data obj)) = 32 \<and> so_addrHash obj = addrHash db (so_address obj)"

fun entry_ok :: "StateDB \<Rightarrow> journalEntry \<Rightarrow> bool" where
  "entry_ok s (createObjectChange a) \<longleftrightarrow> load_account a s = None"
| "entry_ok s (resetObjectChange prev) \<longleftrightarrow> obj_ok (sdb_db s) prev \<and> \<not> deleted prev"
| "entry_ok s (codeChange a c h) \<longleftrightarrow> length h = 32"
| "entry_ok s _ \<longleftrightarrow> True"

definition objects_ok :: "StateDB \<Rightarrow> bool" where
  "objects_ok s \<longleftrightarrow>
     db_ok (sdb_db s) \<and>
     (\<forall>a obj. stateObjects s a = Some obj \<longrightarrow>
        so_address obj = a \<and> obj_ok (sdb_db s) obj \<and> (deleted obj \<longrightarrow> load_account a s = None)) \<and>
     (\<forall>a obj. load_account a s = Some obj \<longrightarrow> obj_ok (sdb_db s) obj) \<and>
     (\<forall>e \<in> set (entries (sdb_journal s)). entry_ok s e)"

lemma getTrie_total:
  assumes "db_ok db"
  obtains t where "fst (getTrie db obj) = Some t"
proof -
  obtain t where "OpenStorageTrie db (so_addrHash obj) 0 = Inr t" using assms by (auto simp: db_ok_def)
  then have "fst (getTrie db obj) \<noteq> None" by (simp add: fst_getTrie split: option.split sum.split)
  then show thesis using that by blast
qed

text \<open>Two objects that differ only in what they cache show the same.\<close>

definition same_view :: "stateDatabase \<Rightarrow> stateObject \<Rightarrow> stateObject \<Rightarrow> bool" where
  "same_view db obj obj' \<longleftrightarrow>
     obj_view db obj' = obj_view db obj \<and> so_address obj' = so_address obj \<and> so_addrHash obj' = so_addrHash obj \<and>
     fakeStorage obj' = fakeStorage obj \<and> deleted obj' = deleted obj \<and> so_data obj' = so_data obj"

lemma committed_cong:
  assumes "originStorage obj' = originStorage obj" "fst (getTrie db obj') = fst (getTrie db obj)"
  shows "committed db obj' = committed db obj"
  by (simp add: committed_def fun_eq_iff assms cong: option.case_cong)

lemma getTrie_cong:
  assumes "so_trie obj' = so_trie obj" "so_addrHash obj' = so_addrHash obj" "acc_Root (so_data obj') = acc_Root (so_data obj)"
  shows "fst (getTrie db obj') = fst (getTrie db obj)"
  by (simp only: fst_getTrie assms)

lemma committed_cached: "map_of (originStorage obj) k = Some v \<Longrightarrow> committed db obj k = v"
  by (simp add: committed_def)

lemma committed_uncached:
  "map_of (originStorage obj) k = None \<Longrightarrow> fst (getTrie db obj) = Some tr \<Longrightarrow>
     committed db obj k = slot_value (TryGet (hash_Bytes k) tr)"
  by (simp add: committed_def)

lemma getTrie_same: "same_view db obj (snd (getTrie db obj))"
proof -
  have "fst (getTrie db (snd (getTrie db obj))) = fst (getTrie db obj)"
    by (simp add: fst_getTrie [of db "snd (getTrie db obj)"] split: option.split) (simp add: fst_getTrie split: option.splits sum.splits)
  then have "committed db (snd (getTrie db obj)) = committed db obj" by (intro committed_cong) simp_all
  then show ?thesis by (simp add: same_view_def obj_view_def cong: option.case_cong)
qed


lemma GetCommittedState_same:
  assumes "db_ok db" "fakeStorage obj = None"
  obtains obj' where "so_GetCommittedState db key obj = Some (committed db obj key, obj')" "same_view db obj obj'"
proof (cases "map_of (originStorage obj) key")
  case (Some v)
  then show thesis using that [of obj] assms(2) by (simp add: so_GetCommittedState_def committed_def same_view_def)
next
  case None
  obtain tr where t: "fst (getTrie db obj) = Some tr" using getTrie_total [OF assms(1)] .
  then obtain obj1 where g: "getTrie db obj = (Some tr, obj1)" by (metis prod.collapse)
  let ?enc = "TryGet (hash_Bytes key) tr"
  define obj2 where "obj2 = (if ?enc \<noteq> [] \<and> rlp_split ?enc = None then so_setError ErrSplit obj1 else obj1)"
  define obj3 where "obj3 = obj2\<lparr>originStorage := AList.update key (slot_value ?enc) (originStorage obj2)\<rparr>"
  have f [simp]: "so_address obj2 = so_address obj" "so_addrHash obj2 = so_addrHash obj" "fakeStorage obj2 = fakeStorage obj"
    "deleted obj2 = deleted obj" "so_data obj2 = so_data obj" "originStorage obj2 = originStorage obj"
    "dirtyStorage obj2 = dirtyStorage obj" "so_code obj2 = so_code obj" "suicided obj2 = suicided obj" "so_trie obj2 = Some tr"
    using getTrie_frame [of db obj] by (simp_all add: obj2_def g)
  have c: "committed db obj key = slot_value ?enc" using None t by (simp add: committed_def)
  have "so_GetCommittedState db key obj = Some (slot_value ?enc, obj3)"
    using assms(2) None g getTrie_frame(5) [of db obj]
    by (simp add: so_GetCommittedState_def obj3_def obj2_def slot_value_def Let_def split: option.split)
  moreover have "committed db obj3 k = committed db obj k" for k
  proof (cases "k = key")
    case True
    then show ?thesis by (simp add: c committed_cached obj3_def map_of_update)
  next
    case False
    have "fst (getTrie db obj3) = Some tr" by (simp add: obj3_def fst_getTrie)
    then show ?thesis
      using False t by (cases "map_of (originStorage obj) k") (simp_all add: committed_cached committed_uncached obj3_def map_of_update)
  qed
  then have "same_view db obj obj3"
    by (simp add: same_view_def obj_view_def fun_eq_iff cong: option.case_cong) (simp add: obj3_def)
  ultimately show thesis using that [of obj3] c by simp
qed

lemma GetState_same:
  assumes "db_ok db" "fakeStorage obj = None"
  obtains obj' where "so_GetState db key obj = Some (v_state (obj_view db obj) key, obj')" "same_view db obj obj'"
proof (cases "map_of (dirtyStorage obj) key")
  case (Some v)
  then show thesis using that [of obj] assms(2) by (simp add: so_GetState_def obj_view_def same_view_def)
next
  case None
  obtain obj' where "so_GetCommittedState db key obj = Some (committed db obj key, obj')" "same_view db obj obj'"
    using GetCommittedState_same [OF assms] .
  then show thesis using that [of obj'] None assms(2) by (simp add: so_GetState_def obj_view_def)
qed

lemma Code_same:
  obtains obj' where "so_Code db obj = (v_code (obj_view db obj), obj')" "same_view db obj obj'"
proof -
  have c: "committed db (obj\<lparr>so_code := x\<rparr>) = committed db obj" "committed db (so_setError e obj) = committed db obj" for x e
    by (intro committed_cong getTrie_cong; simp)+
  have "same_view db obj (snd (so_Code db obj))"
    by (auto simp: same_view_def obj_view_def code_at_def so_Code_def c split: option.splits sum.splits)
  moreover have "fst (so_Code db obj) = v_code (obj_view db obj)"
    by (auto simp: obj_view_def code_at_def so_Code_def split: option.splits sum.splits)
  ultimately show thesis using that by (metis prod.collapse)
qed


subsection \<open>Finding an object\<close>

lemma load_account_cong: "sdb_db s' = sdb_db s \<Longrightarrow> sdb_trie s' = sdb_trie s \<Longrightarrow> load_account a s' = load_account a s"
  unfolding load_account_def by (erule arg_cong2 [where f = "\<lambda>d t. let enc = TryGet (be_fixed 20 (unat a)) t
    in if enc = [] then None else map_option (\<lambda>data. newObject d a (Some data)) (DecodeBytes item_account enc)"])

lemma obj_at_live: "stateObjects s a = Some obj \<Longrightarrow> obj_at s a = (if deleted obj then None else Some obj)"
  by (simp add: obj_at_def getStateObject_def)

lemma obj_at_load: "stateObjects s a = None \<Longrightarrow> obj_at s a = load_account a s"
  by (simp add: obj_at_def getStateObject_def split: option.split)

lemma obj_at_cong:
  assumes "stateObjects s' a = stateObjects s a" "sdb_db s' = sdb_db s" "sdb_trie s' = sdb_trie s"
  shows "obj_at s' a = obj_at s a"
  using assms load_account_cong [of s' s a] by (cases "stateObjects s a") (simp_all add: obj_at_live obj_at_load)

lemma load_account_obj:
  "load_account a s = Some obj \<Longrightarrow> so_address obj = a \<and> so_addrHash obj = addrHash (sdb_db s) a \<and> \<not> deleted obj \<and>
     fakeStorage obj = None"
  by (auto simp: load_account_def Let_def newObject_def addrHash_def split: if_splits)

text \<open>What stays the same when only live objects, the journal and the plain counters change.\<close>

definition same_base :: "StateDB \<Rightarrow> StateDB \<Rightarrow> bool" where
  "same_base s s' \<longleftrightarrow>
     sdb_db s' = sdb_db s \<and> sdb_trie s' = sdb_trie s \<and>
     validRevisions s' = validRevisions s \<and> nextRevisionId s' = nextRevisionId s"

lemma same_base_refl [simp]: "same_base s s"
  by (simp add: same_base_def)

lemma same_base_trans: "same_base s t \<Longrightarrow> same_base t u \<Longrightarrow> same_base s u"
  by (simp add: same_base_def)

lemma entry_ok_cong: "sdb_db s' = sdb_db s \<Longrightarrow> sdb_trie s' = sdb_trie s \<Longrightarrow> entry_ok s' e = entry_ok s e"
  by (cases e) (simp_all add: load_account_cong [of s' s])

lemma objects_okD:
  assumes "objects_ok s"
  shows "db_ok (sdb_db s)"
    "stateObjects s a = Some obj \<Longrightarrow> so_address obj = a \<and> obj_ok (sdb_db s) obj \<and> (deleted obj \<longrightarrow> load_account a s = None)"
    "load_account a s = Some obj \<Longrightarrow> obj_ok (sdb_db s) obj"
    "e \<in> set (entries (sdb_journal s)) \<Longrightarrow> entry_ok s e"
  using assms by (auto simp: objects_ok_def)

lemma objects_okI:
  assumes "objects_ok s" "same_base s s'"
    and "\<And>e. e \<in> set (entries (sdb_journal s')) \<Longrightarrow> e \<in> set (entries (sdb_journal s)) \<or> entry_ok s e"
    and "\<And>a obj. stateObjects s' a = Some obj \<Longrightarrow> stateObjects s a = Some obj \<or>
           so_address obj = a \<and> obj_ok (sdb_db s) obj \<and> \<not> deleted obj"
  shows "objects_ok s'"
proof -
  have b: "sdb_db s' = sdb_db s" "sdb_trie s' = sdb_trie s" using assms(2) by (simp_all add: same_base_def)
  show ?thesis
    unfolding objects_ok_def b(1) entry_ok_cong [OF b] load_account_cong [OF b]
  proof (intro conjI allI impI ballI)
    fix a obj
    assume "stateObjects s' a = Some obj"
    from assms(4) [OF this] show "so_address obj = a" "obj_ok (sdb_db s) obj" "deleted obj \<Longrightarrow> load_account a s = None"
      using objects_okD(2) [OF assms(1)] by auto
  next
    fix e
    assume "e \<in> set (entries (sdb_journal s'))"
    from assms(3) [OF this] show "entry_ok s e" using objects_okD(4) [OF assms(1)] by auto
  qed (use objects_okD(1,3) [OF assms(1)] in auto)
qed

lemma view_of_upd:
  assumes "same_base s s'" "stateObjects s' = (stateObjects s)(a \<mapsto> obj)" "\<not> deleted obj"
    and "refund s' = refund s" "sdb_logs s' = sdb_logs s" "logSize s' = logSize s" "preimages s' = preimages s"
  shows "view_of s' = (view_of s)\<lparr>w_acct := (w_acct (view_of s))(a \<mapsto> obj_view (sdb_db s) obj)\<rparr>"
proof -
  have "obj_at s' b = (if b = a then Some obj else obj_at s b)" for b
    using assms(1-3) obj_at_cong [of s' b s] by (cases "b = a") (simp_all add: obj_at_live same_base_def)
  then show ?thesis using assms by (simp add: view_of_def GetLogs_def fun_eq_iff same_base_def)
qed

lemma view_of_cong:
  assumes "stateObjects s' = stateObjects s" "sdb_db s' = sdb_db s" "sdb_trie s' = sdb_trie s" "refund s' = refund s"
    "sdb_logs s' = sdb_logs s" "logSize s' = logSize s" "preimages s' = preimages s"
  shows "view_of s' = view_of s"
proof -
  have "obj_at s' b = obj_at s b" for b by (rule obj_at_cong) (simp_all add: assms)
  then show ?thesis by (simp add: view_of_def GetLogs_def assms)
qed

lemma view_of_journal [simp]:
  "view_of (s\<lparr>sdb_journal := j\<rparr>) = view_of s" "view_of (append_change e s) = view_of s"
  "view_of (s\<lparr>validRevisions := r\<rparr>) = view_of s" "view_of (s\<lparr>nextRevisionId := n\<rparr>) = view_of s"
  by (rule view_of_cong; simp add: append_change_def)+

lemma getStateObject_found:
  assumes "objects_ok s" "getStateObject a s = (r, s')"
  shows "objects_ok s'" "view_of s' = view_of s" "r = obj_at s a" "same_base s s'" "sdb_journal s' = sdb_journal s"
    "r = Some obj \<Longrightarrow> stateObjects s' a = Some obj \<and> \<not> deleted obj"
    "r = None \<Longrightarrow> s' = s \<and> load_account a s = None"
proof -
  consider (live) o1 where "stateObjects s a = Some o1" "s' = s" "r = (if deleted o1 then None else Some o1)"
    | (none) "stateObjects s a = None" "load_account a s = None" "s' = s" "r = None"
    | (load) o1 where "stateObjects s a = None" "load_account a s = Some o1" "s' = setStateObject o1 s" "r = Some o1"
    using assms(2) by (auto simp: getStateObject_def split: option.splits)
  then have "objects_ok s' \<and> view_of s' = view_of s \<and> r = obj_at s a \<and> same_base s s' \<and> sdb_journal s' = sdb_journal s \<and>
    (r = Some obj \<longrightarrow> stateObjects s' a = Some obj \<and> \<not> deleted obj) \<and> (r = None \<longrightarrow> s' = s \<and> load_account a s = None)"
  proof cases
    case live
    then show ?thesis using objects_okD(2) [OF assms(1) live(1)] assms(1) by (auto simp: obj_at_live)
  next
    case none
    then show ?thesis using assms(1) by (simp add: obj_at_load)
  next
    case load
    note l = load_account_obj [OF load(2)]
    have b: "same_base s s'" by (simp add: same_base_def load(3) setStateObject_def)
    have "objects_ok s'"
      by (rule objects_okI [OF assms(1) b])
        (use l objects_okD(3) [OF assms(1) load(2)] in \<open>auto simp: load(3) setStateObject_def split: if_splits\<close>)
    moreover have "view_of s' = view_of s"
      using l load(1,2) by (subst view_of_upd [OF b, of a o1]) (auto simp: load(3) setStateObject_def view_of_def obj_at_load fun_eq_iff)
    ultimately show ?thesis using load b l by (auto simp: obj_at_load setStateObject_def)
  qed
  then show "objects_ok s'" "view_of s' = view_of s" "r = obj_at s a" "same_base s s'" "sdb_journal s' = sdb_journal s"
    "r = Some obj \<Longrightarrow> stateObjects s' a = Some obj \<and> \<not> deleted obj" "r = None \<Longrightarrow> s' = s \<and> load_account a s = None"
    by blast+
qed


subsection \<open>The contract of the operations\<close>

definition journaled :: "StateDB \<Rightarrow> StateDB \<Rightarrow> bool" where
  "journaled s s' \<longleftrightarrow>
     objects_ok s' \<and> same_base s s' \<and>
     (\<exists>es. entries (sdb_journal s') = entries (sdb_journal s) @ es \<and> vundo (sdb_db s) es (view_of s') = Some (view_of s))"

lemma journaled_refl: "objects_ok s \<Longrightarrow> journaled s s"
  by (simp add: journaled_def exI [of _ "[]"])

lemma journaled_trans [trans]:
  assumes "journaled s t" "journaled t u"
  shows "journaled s u"
proof -
  obtain es fs where "entries (sdb_journal t) = entries (sdb_journal s) @ es" "vundo (sdb_db s) es (view_of t) = Some (view_of s)"
    "entries (sdb_journal u) = entries (sdb_journal t) @ fs" "vundo (sdb_db t) fs (view_of u) = Some (view_of t)"
    using assms by (auto simp: journaled_def)
  then have "entries (sdb_journal u) = entries (sdb_journal s) @ es @ fs \<and> vundo (sdb_db s) (es @ fs) (view_of u) = Some (view_of s)"
    using assms by (simp add: journaled_def same_base_def vundo_append)
  then show ?thesis using assms same_base_trans by (auto simp: journaled_def)
qed

lemma journaled_ok: "journaled s s' \<Longrightarrow> objects_ok s'"
  by (simp add: journaled_def)

lemma journaled_db: "journaled s s' \<Longrightarrow> sdb_db s' = sdb_db s"
  by (simp add: journaled_def same_base_def)

lemma entries_append [simp]: "entries (sdb_journal (append_change e s)) = entries (sdb_journal s) @ [e]"
  by (simp add: append_change_def j_append_def j_dirty_def Let_def split: option.split)

lemma append_change_frame [simp]:
  "sdb_db (append_change e s) = sdb_db s" "sdb_trie (append_change e s) = sdb_trie s" "stateObjects (append_change e s) = stateObjects s"
  "refund (append_change e s) = refund s" "sdb_logs (append_change e s) = sdb_logs s" "logSize (append_change e s) = logSize s"
  "preimages (append_change e s) = preimages s" "validRevisions (append_change e s) = validRevisions s"
  "nextRevisionId (append_change e s) = nextRevisionId s" "thash (append_change e s) = thash s" "bhash (append_change e s) = bhash s"
  "txIndex (append_change e s) = txIndex s"
  by (simp_all add: append_change_def)

text \<open>One entry, for a change that leaves the live objects alone.\<close>

lemma journaled_plain:
  assumes "objects_ok s" "same_base s s'" "stateObjects s' = stateObjects s" "entries (sdb_journal s') = entries (sdb_journal s) @ [e]"
    and "entry_ok s e" "vrevert (sdb_db s) e (view_of s') = Some (view_of s)"
  shows "journaled s s'"
  using assms objects_okI [OF assms(1,2)] by (auto simp: journaled_def intro!: exI [of _ "[e]"])

text \<open>One entry, for a change of the live object at one address.\<close>

lemma journaled_object:
  assumes "objects_ok s" "same_base s s'" "stateObjects s' = (stateObjects s)(a \<mapsto> obj)"
    and "refund s' = refund s" "sdb_logs s' = sdb_logs s" "logSize s' = logSize s" "preimages s' = preimages s"
    and "entries (sdb_journal s') = entries (sdb_journal s) @ es" "\<And>e. e \<in> set es \<Longrightarrow> entry_ok s e"
    and "so_address obj = a" "obj_ok (sdb_db s) obj" "\<not> deleted obj"
    and "vundo (sdb_db s) es ((view_of s)\<lparr>w_acct := (w_acct (view_of s))(a \<mapsto> obj_view (sdb_db s) obj)\<rparr>) = Some (view_of s)"
  shows "journaled s s'"
proof -
  have "objects_ok s'" by (rule objects_okI [OF assms(1,2)]) (use assms in \<open>auto split: if_splits\<close>)
  moreover have "view_of s' = (view_of s)\<lparr>w_acct := (w_acct (view_of s))(a \<mapsto> obj_view (sdb_db s) obj)\<rparr>"
    by (rule view_of_upd [OF assms(2,3,12,4-7)])
  ultimately show ?thesis using assms by (simp add: journaled_def)
qed

lemma w_acct_view: "w_acct (view_of s) a = map_option (obj_view (sdb_db s)) (obj_at s a)"
  by (simp add: view_of_def)

lemma w_acct_upd_same [simp]: "w\<lparr>w_acct := w_acct w\<rparr> = w"
  by simp

text \<open>A live object is replaced by one that shows the same: nothing to undo.\<close>

lemma journaled_cache:
  assumes "objects_ok s" "stateObjects s a = Some obj" "\<not> deleted obj" "same_view (sdb_db s) obj obj'"
  shows "journaled s (s\<lparr>stateObjects := (stateObjects s)(a \<mapsto> obj')\<rparr>)"
proof (rule journaled_object [where es = "[]" and a = a and obj = obj'])
  show "vundo (sdb_db s) [] ((view_of s)\<lparr>w_acct := (w_acct (view_of s))(a \<mapsto> obj_view (sdb_db s) obj')\<rparr>) = Some (view_of s)"
    using assms by (simp add: same_view_def w_acct_view obj_at_live fun_upd_idem)
qed (use assms objects_okD(2) [OF assms(1,2)] in \<open>auto simp: same_base_def same_view_def obj_ok_def\<close>)


subsection \<open>Changes of one object\<close>

definition live_at :: "StateDB \<Rightarrow> address \<Rightarrow> bool" where
  "live_at s a \<longleftrightarrow> objects_ok s \<and> (\<exists>obj. stateObjects s a = Some obj \<and> \<not> deleted obj)"

lemma journaled_change:
  assumes "objects_ok s" "stateObjects s a = Some obj" "\<not> deleted obj" "entry_ok s e"
    and "so_address (f obj) = a" "obj_ok (sdb_db s) (f obj)" "\<not> deleted (f obj)"
    and "\<And>w. w_acct w a = Some (obj_view (sdb_db s) (f obj)) \<Longrightarrow>
           vrevert (sdb_db s) e w = Some (w\<lparr>w_acct := (w_acct w)(a \<mapsto> obj_view (sdb_db s) obj)\<rparr>)"
    and "mod_object a f (append_change e s) = Some s'"
  shows "journaled s s' \<and> live_at s' a"
proof -
  have s': "s' = (append_change e s)\<lparr>stateObjects := (stateObjects s)(a \<mapsto> f obj)\<rparr>"
    using assms(2,9) by (simp add: mod_object_def)
  have "journaled s s'"
  proof (rule journaled_object [where es = "[e]" and a = a and obj = "f obj"])
    let ?w = "(view_of s)\<lparr>w_acct := (w_acct (view_of s))(a \<mapsto> obj_view (sdb_db s) (f obj))\<rparr>"
    have "vrevert (sdb_db s) e ?w = Some (?w\<lparr>w_acct := (w_acct ?w)(a \<mapsto> obj_view (sdb_db s) obj)\<rparr>)" by (rule assms(8)) simp
    also have "\<dots> = Some (view_of s)" using assms(2,3) by (simp add: w_acct_view obj_at_live fun_upd_idem)
    finally show "vundo (sdb_db s) [e] ?w = Some (view_of s)" by simp
  qed (use assms in \<open>simp_all add: s' same_base_def\<close>)
  then show ?thesis using assms(7) by (auto simp: s' live_at_def journaled_def)
qed

lemma obj_view_data:
  assumes "acc_Root d = acc_Root (so_data obj)" "acc_CodeHash d = acc_CodeHash (so_data obj)"
  shows "obj_view db (obj\<lparr>so_data := d\<rparr>) = (obj_view db obj)\<lparr>v_data := d\<rparr>"
proof -
  have "committed db (obj\<lparr>so_data := d\<rparr>) = committed db obj" by (intro committed_cong getTrie_cong) (simp_all add: assms)
  then show ?thesis by (simp add: obj_view_def assms(2) cong: option.case_cong)
qed

lemma vrevert_data:
  assumes "w_acct w a = Some ((obj_view db obj)\<lparr>v_data := d\<rparr>)" "f d = so_data obj"
  shows "on_data a f w = Some (w\<lparr>w_acct := (w_acct w)(a \<mapsto> obj_view db obj)\<rparr>)"
  using assms by (simp add: on_data_def on_acct_def obj_view_def)

lemmas object_setters = so_setBalance_def so_setSmiloPay_def setSmiloPayAndBlock_def so_setNonce_def

lemma live_at_obj:
  assumes "live_at s a" "stateObjects s a = Some obj"
  shows "objects_ok s" "\<not> deleted obj" "so_address obj = a" "obj_ok (sdb_db s) obj"
  using assms objects_okD(2) [of s a obj] by (auto simp: live_at_def)

lemma journaled_data:
  assumes "mod_object a f (append_change e s) = Some s'" "live_at s a" "stateObjects s a = Some obj" "entry_ok s e"
    and "f obj = obj\<lparr>so_data := d\<rparr>" "acc_Root d = acc_Root (so_data obj)" "acc_CodeHash d = acc_CodeHash (so_data obj)"
    and "\<And>w. vrevert (sdb_db s) e w = on_data a h w" "h d = so_data obj"
  shows "journaled s s' \<and> live_at s' a"
  by (rule journaled_change [OF _ assms(3) _ assms(4) _ _ _ _ assms(1)])
    (use live_at_obj [OF assms(2,3)] in \<open>simp_all add: assms(5-9) obj_ok_def obj_view_data vrevert_data\<close>)

lemma live_atE:
  assumes "live_at s a"
  obtains obj where "stateObjects s a = Some obj" "\<not> deleted obj"
  using assms by (auto simp: live_at_def)

lemma journaled_UpdateSmiloPay:
  assumes "live_at s a" "so_UpdateSmiloPay a bn s = Some s'"
  shows "journaled s s' \<and> live_at s' a"
proof -
  obtain obj where obj: "stateObjects s a = Some obj" using live_atE [OF assms(1)] .
  obtain p where "mod_object a (setSmiloPayAndBlock p bn)
      (append_change (blockChange a (acc_SmiloPay (so_data obj)) (acc_BlockNumber (so_data obj))) s) = Some s'"
    using assms(2) obj by (auto simp: so_UpdateSmiloPay_def bind_eq_Some_conv)
  then show ?thesis
    by (rule journaled_data [OF _ assms(1) obj, where d = "(so_data obj)\<lparr>acc_SmiloPay := p, acc_BlockNumber := bn\<rparr>"
          and h = "\<lambda>d. d\<lparr>acc_SmiloPay := acc_SmiloPay (so_data obj), acc_BlockNumber := acc_BlockNumber (so_data obj)\<rparr>"])
      (simp_all add: setSmiloPayAndBlock_def)
qed

lemma journaled_SetBalance:
  assumes "live_at s a" "so_SetBalance a n bn s = Some s'"
  shows "journaled s s' \<and> live_at s' a"
proof -
  obtain t obj where t: "so_UpdateSmiloPay a bn s = Some t" "stateObjects t a = Some obj"
    "mod_object a (so_setBalance n) (append_change (balanceChange a (acc_Balance (so_data obj))) t) = Some s'"
    using assms(2) by (auto simp: so_SetBalance_def bind_eq_Some_conv)
  note j = journaled_UpdateSmiloPay [OF assms(1) t(1)]
  have "journaled t s' \<and> live_at s' a"
    by (rule journaled_data [OF t(3) conjunct2 [OF j] t(2), where d = "(so_data obj)\<lparr>acc_Balance := n\<rparr>"
          and h = "\<lambda>d. d\<lparr>acc_Balance := acc_Balance (so_data obj)\<rparr>"]) (simp_all add: so_setBalance_def)
  then show ?thesis using j journaled_trans by blast
qed

lemma journaled_SetSmiloPay:
  assumes "live_at s a" "so_SetSmiloPay a n s = Some s'"
  shows "journaled s s' \<and> live_at s' a"
proof -
  obtain obj where obj: "stateObjects s a = Some obj" using live_atE [OF assms(1)] .
  then have "mod_object a (so_setSmiloPay n) (append_change (smiloPayChange a (acc_SmiloPay (so_data obj))) s) = Some s'"
    using assms(2) by (simp add: so_SetSmiloPay_def)
  then show ?thesis
    by (rule journaled_data [OF _ assms(1) obj, where d = "(so_data obj)\<lparr>acc_SmiloPay := n\<rparr>"
          and h = "\<lambda>d. d\<lparr>acc_SmiloPay := acc_SmiloPay (so_data obj)\<rparr>"]) (simp_all add: so_setSmiloPay_def)
qed

lemma journaled_SetNonce:
  assumes "live_at s a" "so_SetNonce a n s = Some s'"
  shows "journaled s s' \<and> live_at s' a"
proof -
  obtain obj where obj: "stateObjects s a = Some obj" using live_atE [OF assms(1)] .
  then have "mod_object a (so_setNonce n) (append_change (nonceChange a (acc_Nonce (so_data obj))) s) = Some s'"
    using assms(2) by (simp add: so_SetNonce_def)
  then show ?thesis
    by (rule journaled_data [OF _ assms(1) obj, where d = "(so_data obj)\<lparr>acc_Nonce := n\<rparr>"
          and h = "\<lambda>d. d\<lparr>acc_Nonce := acc_Nonce (so_data obj)\<rparr>"]) (simp_all add: so_setNonce_def)
qed

lemma journaled_touch:
  assumes "live_at s a" "touch_if_empty a s = Some s'"
  shows "journaled s s' \<and> live_at s' a"
proof -
  have "s' = s \<or> s' = so_touch a s" using assms(2) by (auto simp: touch_if_empty_def bind_eq_Some_conv)
  moreover have "journaled s (so_touch a s)"
    by (rule journaled_plain [where e = "touchChange a"])
      (use assms(1) in \<open>auto simp: live_at_def so_touch_def same_base_def j_dirty_def Let_def\<close>)
  moreover have "stateObjects (so_touch a s) = stateObjects s" by (simp add: so_touch_def Let_def)
  ultimately show ?thesis using assms(1) journaled_refl journaled_ok by (auto simp: live_at_def)
qed

text \<open>Two changes of one object in a row.\<close>

lemma journaled_seq:
  "journaled s t \<and> live_at t a \<Longrightarrow> (live_at t a \<Longrightarrow> journaled t u \<and> live_at u a) \<Longrightarrow> journaled s u \<and> live_at u a"
  using journaled_trans by blast

lemma live_refl: "live_at s a \<Longrightarrow> journaled s s \<and> live_at s a"
  by (simp add: live_at_def journaled_refl)

lemma journaled_AddBalance:
  assumes "live_at s a" "so_AddBalance a n bn s = Some s'"
  shows "journaled s s' \<and> live_at s' a"
proof (cases "n = 0")
  case False
  then obtain t m where "so_UpdateSmiloPay a bn s = Some t" "so_SetBalance a m bn t = Some s'"
    using assms(2) by (auto simp: so_AddBalance_def bind_eq_Some_conv)
  then show ?thesis using journaled_seq journaled_UpdateSmiloPay [OF assms(1)] journaled_SetBalance by blast
qed (use assms journaled_touch in \<open>simp add: so_AddBalance_def\<close>)

lemma journaled_AddSmiloPay:
  assumes "live_at s a" "so_AddSmiloPay a n s = Some s'"
  shows "journaled s s' \<and> live_at s' a"
proof (cases "n = 0")
  case False
  then obtain m where "so_SetSmiloPay a m s = Some s'"
    using assms(2) by (auto simp: so_AddSmiloPay_def bind_eq_Some_conv)
  then show ?thesis by (rule journaled_SetSmiloPay [OF assms(1)])
qed (use assms journaled_touch in \<open>simp add: so_AddSmiloPay_def\<close>)

lemma journaled_SubBalance:
  assumes "live_at s a" "so_SubBalance a n bn s = Some s'"
  shows "journaled s s' \<and> live_at s' a"
proof (cases "n = 0")
  case False
  then obtain m where "so_SetBalance a m bn s = Some s'"
    using assms(2) by (auto simp: so_SubBalance_def bind_eq_Some_conv)
  then show ?thesis by (rule journaled_SetBalance [OF assms(1)])
qed (use assms live_refl in \<open>simp add: so_SubBalance_def\<close>)

lemma journaled_SubSmiloPay:
  assumes "live_at s a" "so_SubSmiloPay a n bn s = Some s'"
  shows "journaled s s' \<and> live_at s' a"
proof (cases "n = 0")
  case False
  then obtain t m where "so_UpdateSmiloPay a bn s = Some t" "so_SetSmiloPay a m t = Some s'"
    using assms(2) by (auto simp: so_SubSmiloPay_def bind_eq_Some_conv)
  then show ?thesis using journaled_seq journaled_UpdateSmiloPay [OF assms(1)] journaled_SetSmiloPay by blast
qed (use assms live_refl in \<open>simp add: so_SubSmiloPay_def\<close>)


lemma code_at_idem [simp]: "code_at db ah ch (code_at db ah ch c) = code_at db ah ch c"
  by (simp add: code_at_def split: option.split sum.split)

lemma obj_view_setCode:
  "obj_view db (so_setCode h code obj) =
     (obj_view db obj)\<lparr>v_data := (so_data obj)\<lparr>acc_CodeHash := hash_Bytes h\<rparr>, v_code := code_at db (so_addrHash obj) (hash_Bytes h) code\<rparr>"
proof -
  have "committed db (so_setCode h code obj) = committed db obj"
    by (intro committed_cong getTrie_cong) (simp_all add: so_setCode_def)
  then show ?thesis by (simp add: obj_view_def so_setCode_def cong: option.case_cong)
qed

lemma v_data_obj_view [simp]: "v_data (obj_view db obj) = so_data obj"
  by (simp add: obj_view_def)

lemma v_code_again: "code_at db (so_addrHash obj) (acc_CodeHash (so_data obj)) (v_code (obj_view db obj)) = v_code (obj_view db obj)"
  by (simp add: obj_view_def)

lemma obj_view_idem [simp]: "(obj_view db obj)\<lparr>v_data := so_data obj\<rparr> = obj_view db obj"
  by (simp add: obj_view_def)

lemma obj_view_idem2: "(obj_view db obj)\<lparr>v_suicided := suicided obj, v_data := so_data obj\<rparr> = obj_view db obj"
  by (simp add: obj_view_def)

lemma journaled_SetCode:
  assumes "live_at s a" "so_SetCode a h code s = Some s'"
  shows "journaled s s' \<and> live_at s' a"
proof -
  obtain obj where obj: "stateObjects s a = Some obj" using live_atE [OF assms(1)] .
  note o1 = live_at_obj [OF assms(1) obj]
  obtain obj1 where c: "so_Code (sdb_db s) obj = (v_code (obj_view (sdb_db s) obj), obj1)" "same_view (sdb_db s) obj obj1"
    using Code_same .
  let ?s1 = "s\<lparr>stateObjects := (stateObjects s)(a \<mapsto> obj1)\<rparr>"
  let ?e = "codeChange a (v_code (obj_view (sdb_db s) obj)) (acc_CodeHash (so_data obj1))"
  have j1: "journaled s ?s1" by (rule journaled_cache [OF o1(1) obj o1(2) c(2)])
  have m: "mod_object a (so_setCode h code) (append_change ?e ?s1) = Some s'"
    using assms(2) obj c(1) by (simp add: so_SetCode_def mod_object_def)
  have "journaled ?s1 s' \<and> live_at s' a"
  proof (rule journaled_change [OF journaled_ok [OF j1] _ _ _ _ _ _ _ m])
    fix w :: world
    assume "w_acct w a = Some (obj_view (sdb_db ?s1) (so_setCode h code obj1))"
    then show "vrevert (sdb_db ?s1) ?e w = Some (w\<lparr>w_acct := (w_acct w)(a \<mapsto> obj_view (sdb_db ?s1) obj1)\<rparr>)"
      using c(2) o1(3,4) v_code_again [of "sdb_db s" obj]
      by (simp add: on_acct_def obj_view_setCode same_view_def obj_ok_def)
  qed (use c(2) o1 in \<open>simp_all add: same_view_def obj_ok_def so_setCode_def\<close>)
  then show ?thesis using j1 journaled_trans by blast
qed

lemma obj_view_setState:
  "obj_view db (so_setState k v obj) = (obj_view db obj)\<lparr>v_state := (v_state (obj_view db obj))(k := v)\<rparr>"
proof -
  have "committed db (so_setState k v obj) = committed db obj"
    by (intro committed_cong getTrie_cong) (simp_all add: so_setState_def)
  then show ?thesis by (simp add: obj_view_def so_setState_def map_of_update fun_eq_iff cong: option.case_cong)
qed

lemma journaled_SetState:
  assumes "live_at s a" "so_SetState a k v s = Some s'"
  shows "journaled s s' \<and> live_at s' a"
proof -
  obtain obj where obj: "stateObjects s a = Some obj" using live_atE [OF assms(1)] .
  note o1 = live_at_obj [OF assms(1) obj]
  obtain obj1 where c: "so_GetState (sdb_db s) k obj = Some (v_state (obj_view (sdb_db s) obj) k, obj1)" "same_view (sdb_db s) obj obj1"
    using GetState_same [OF objects_okD(1) [OF o1(1)]] o1(4) by (metis obj_ok_def)
  let ?s1 = "s\<lparr>stateObjects := (stateObjects s)(a \<mapsto> obj1)\<rparr>"
  let ?e = "storageChange a k (v_state (obj_view (sdb_db s) obj) k)"
  have j1: "journaled s ?s1" by (rule journaled_cache [OF o1(1) obj o1(2) c(2)])
  have l1: "live_at ?s1 a" using j1 c(2) o1(2) by (simp add: live_at_def journaled_def same_view_def)
  show ?thesis
  proof (cases "v_state (obj_view (sdb_db s) obj) k = v")
    case True
    then have "s' = ?s1" using assms(2) obj c(1) o1(4) by (simp add: so_SetState_def mod_object_def obj_ok_def)
    then show ?thesis using j1 l1 by simp
  next
    case False
    then have m: "mod_object a (so_setState k v) (append_change ?e ?s1) = Some s'"
      using assms(2) obj c(1) o1(4) by (simp add: so_SetState_def mod_object_def obj_ok_def)
    have "journaled ?s1 s' \<and> live_at s' a"
    proof (rule journaled_change [OF journaled_ok [OF j1] _ _ _ _ _ _ _ m])
      fix w :: world
      assume "w_acct w a = Some (obj_view (sdb_db ?s1) (so_setState k v obj1))"
      then show "vrevert (sdb_db ?s1) ?e w = Some (w\<lparr>w_acct := (w_acct w)(a \<mapsto> obj_view (sdb_db ?s1) obj1)\<rparr>)"
        using c(2) by (simp add: on_acct_def obj_view_setState same_view_def)
    qed (use c(2) o1 in \<open>simp_all add: same_view_def obj_ok_def so_setState_def\<close>)
    then show ?thesis using j1 journaled_trans by blast
  qed
qed


subsection \<open>Creating and removing objects\<close>

lemma newObject_frame [simp]:
  "so_address (newObject db a d) = a" "so_addrHash (newObject db a d) = addrHash db a" "\<not> deleted (newObject db a d)"
  "fakeStorage (newObject db a d) = None" "so_address (so_setNonce n obj) = so_address obj"
  "deleted (so_setNonce n obj) = deleted obj" "so_address (so_setBalance b obj) = so_address obj"
  "deleted (so_setBalance b obj) = deleted obj"
  by (simp_all add: newObject_def addrHash_def so_setNonce_def so_setBalance_def)

lemma obj_ok_fresh:
  assumes "db_ok db"
  shows "obj_ok db (newObject db a None)"
  using assms by (simp add: obj_ok_def db_ok_def) (simp add: newObject_def emptyCodeHash_def)

lemma obj_ok_set [simp]: "obj_ok db (so_setNonce n obj) = obj_ok db obj" "obj_ok db (so_setBalance b obj) = obj_ok db obj"
  by (simp_all add: obj_ok_def so_setNonce_def so_setBalance_def)

text \<open>
  A new object takes the place of whatever the address shows; \<open>f\<close> is what its creator still does to
  the new object.
\<close>

lemma journaled_new:
  assumes "objects_ok s" "createObject a s = (prev, t)" "f \<in> {id, so_setBalance b}"
  shows "journaled s (t\<lparr>stateObjects := (stateObjects t)(a \<mapsto> f (so_setNonce 0 (newObject (sdb_db s) a None)))\<rparr>)"
    "stateObjects t a = Some (so_setNonce 0 (newObject (sdb_db s) a None))" "prev = obj_at s a"
proof -
  obtain s1 where g: "getStateObject a s = (prev, s1)"
    using assms(2) by (cases "getStateObject a s") (simp add: createObject_def Let_def)
  note f1 = getStateObject_found [OF assms(1) g]
  let ?new = "so_setNonce 0 (newObject (sdb_db s) a None)"
  let ?e = "case prev of None \<Rightarrow> createObjectChange a | Some p \<Rightarrow> resetObjectChange p"
  have db: "sdb_db s1 = sdb_db s" using f1(4) by (simp add: same_base_def)
  have t: "t = setStateObject ?new (append_change ?e s1)"
    using assms(2) g by (simp add: createObject_def Let_def db)
  have ok: "obj_ok (sdb_db s) ?new" using obj_ok_fresh [OF objects_okD(1) [OF assms(1)]] by simp
  have p: "so_address p = a \<and> obj_ok (sdb_db s) p \<and> \<not> deleted p \<and> stateObjects s1 a = Some p" if "prev = Some p" for p
    using f1(1) f1(6) [OF that] objects_okD(2) [OF f1(1), of a p] by (simp add: db)
  have "journaled s1 (t\<lparr>stateObjects := (stateObjects t)(a \<mapsto> f ?new)\<rparr>)"
  proof (rule journaled_object [where es = "[?e]" and a = a and obj = "f ?new"])
    have at: "obj_at s1 a = prev"
    proof (cases prev)
      case None
      then show ?thesis using f1(3,7) by simp
    next
      case (Some q)
      then show ?thesis using p by (simp add: obj_at_live)
    qed
    show "vundo (sdb_db s1) [?e] ((view_of s1)\<lparr>w_acct := (w_acct (view_of s1))(a \<mapsto> obj_view (sdb_db s1) (f ?new))\<rparr>) = Some (view_of s1)"
      using p at by (cases prev) (simp_all add: w_acct_view fun_upd_idem)
    show "entry_ok s1 e" if "e \<in> set [?e]" for e using that p f1(7) by (cases prev) (simp_all add: db)
  qed (use f1(1) ok assms(3) in \<open>auto simp: t setStateObject_def same_base_def db\<close>)
  then show "journaled s (t\<lparr>stateObjects := (stateObjects t)(a \<mapsto> f ?new)\<rparr>)"
    using f1(1,2,4,5) by (simp add: journaled_def same_base_def)
  show "stateObjects t a = Some ?new" by (simp add: t setStateObject_def)
  show "prev = obj_at s a" by (rule f1(3))
qed


lemma journaled_createObject:
  assumes "objects_ok s" "createObject a s = (prev, t)"
  shows "journaled s t \<and> live_at t a"
proof -
  note n = journaled_new [OF assms, of id 0, simplified]
  have "t\<lparr>stateObjects := (stateObjects t)(a \<mapsto> so_setNonce 0 (newObject (sdb_db s) a None))\<rparr> = t"
    using n(2) by (simp add: fun_upd_idem)
  then have "journaled s t" using n(1) by simp
  then show ?thesis using n(2) by (simp add: live_at_def journaled_def)
qed

lemma journaled_GetOrNew:
  assumes "objects_ok s"
  shows "journaled s (GetOrNewStateObject a s) \<and> live_at (GetOrNewStateObject a s) a"
proof -
  obtain r s1 where g: "getStateObject a s = (r, s1)" by fastforce
  note f1 = getStateObject_found [OF assms g]
  have j: "journaled s s1" using f1(1,2,4,5) by (simp add: journaled_def exI [of _ "[]"])
  show ?thesis
  proof (cases r)
    case None
    then show ?thesis
      using journaled_createObject [OF f1(1), of a "fst (createObject a s1)" "snd (createObject a s1)"] j journaled_trans g
      by (auto simp: GetOrNewStateObject_def)
  next
    case (Some obj)
    then show ?thesis using f1(1) f1(6) [OF Some] j g by (simp add: GetOrNewStateObject_def live_at_def)
  qed
qed

lemma journaled_via_new:
  assumes "objects_ok s" "live_at (GetOrNewStateObject a s) a \<Longrightarrow> journaled (GetOrNewStateObject a s) s' \<and> live_at s' a"
  shows "journaled s s'"
  using journaled_GetOrNew [OF assms(1)] assms(2) journaled_trans by blast

lemma journaled_Suicide:
  assumes "objects_ok s" "Suicide a s = Some (r, s')"
  shows "journaled s s'"
proof -
  obtain q s1 where g: "getStateObject a s = (q, s1)" by fastforce
  note f1 = getStateObject_found [OF assms(1) g]
  have j: "journaled s s1" using f1(1,2,4,5) by (simp add: journaled_def exI [of _ "[]"])
  show ?thesis
  proof (cases q)
    case None
    then show ?thesis using assms(2) g j by (simp add: Suicide_def)
  next
    case (Some obj)
    note o1 = f1(6) [OF Some] objects_okD(2) [OF f1(1), of a obj]
    let ?e = "suicideChange a (suicided obj) (acc_Balance (so_data obj))" and ?f = "so_setBalance 0 \<circ> markSuicided"
    have v: "obj_view db (so_setBalance 0 (markSuicided obj)) = (obj_view db obj)\<lparr>v_data := (so_data obj)\<lparr>acc_Balance := 0\<rparr>, v_suicided := True\<rparr>" for db
    proof -
      have "committed db (so_setBalance 0 (markSuicided obj)) = committed db obj"
        by (intro committed_cong getTrie_cong) (simp_all add: so_setBalance_def markSuicided_def)
      then show ?thesis by (simp add: obj_view_def so_setBalance_def markSuicided_def cong: option.case_cong)
    qed
    have "mod_object a ?f (append_change ?e s1) = Some s'"
      using assms(2) g Some by (simp add: Suicide_def bind_eq_Some_conv)
    then have "journaled s1 s' \<and> live_at s' a"
    proof (rule journaled_change [OF f1(1) _ _ _ _ _ _ _, rotated -1])
      fix w :: world
      assume "w_acct w a = Some (obj_view (sdb_db s1) (?f obj))"
      then show "vrevert (sdb_db s1) ?e w = Some (w\<lparr>w_acct := (w_acct w)(a \<mapsto> obj_view (sdb_db s1) obj)\<rparr>)"
        by (simp add: v obj_view_idem2)
    qed (use o1 in \<open>auto simp: obj_ok_def so_setBalance_def markSuicided_def\<close>)
    then show ?thesis using j journaled_trans by blast
  qed
qed

lemma journaled_CreateAccount:
  assumes "objects_ok s" "CreateAccount a s = Some s'"
  shows "journaled s s'"
proof -
  obtain prev t where c: "createObject a s = (prev, t)" by fastforce
  show ?thesis
  proof (cases prev)
    case None
    then show ?thesis using assms(2) c journaled_createObject [OF assms(1) c] by (simp add: CreateAccount_def)
  next
    case (Some p)
    note n = journaled_new [OF assms(1) c, of "so_setBalance (acc_Balance (so_data p))" "acc_Balance (so_data p)"]
    have "s' = t\<lparr>stateObjects := (stateObjects t)(a \<mapsto> so_setBalance (acc_Balance (so_data p)) (so_setNonce 0 (newObject (sdb_db s) a None)))\<rparr>"
      using assms(2) c Some n(2) by (simp add: CreateAccount_def mod_object_def)
    then show ?thesis using n(1) by simp
  qed
qed

lemma view_of_plain:
  assumes "same_base s s'" "stateObjects s' = stateObjects s"
  shows "view_of s' = \<lparr>w_acct = w_acct (view_of s), w_refund = refund s', w_logs = (\<lambda>h. GetLogs h s'), w_logSize = logSize s',
           w_preimages = preimages s'\<rparr>"
proof -
  have "obj_at s' b = obj_at s b" for b by (rule obj_at_cong) (use assms in \<open>simp_all add: same_base_def\<close>)
  then show ?thesis using assms by (simp add: view_of_def same_base_def)
qed

lemma view_of_fields [simp]:
  "w_refund (view_of s) = refund s" "w_logs (view_of s) = (\<lambda>h. GetLogs h s)" "w_logSize (view_of s) = logSize s"
  "w_preimages (view_of s) = preimages s"
  by (simp_all add: view_of_def)

lemma world_eqI:
  "w_acct w = w_acct w' \<Longrightarrow> w_refund w = w_refund w' \<Longrightarrow> w_logs w = w_logs w' \<Longrightarrow> w_logSize w = w_logSize w' \<Longrightarrow>
     w_preimages w = w_preimages w' \<Longrightarrow> w = (w' :: world)"
  by simp

lemma journaled_AddLog:
  assumes "objects_ok s"
  shows "journaled s (AddLog l s)"
proof (rule journaled_plain [where e = "addLogChange (thash s)"])
  have "same_base s (AddLog l s)" "stateObjects (AddLog l s) = stateObjects s" by (simp_all add: AddLog_def same_base_def Let_def)
  note v = view_of_plain [OF this]
  show "vrevert (sdb_db s) (addLogChange (thash s)) (view_of (AddLog l s)) = Some (view_of s)"
    by (subst v) (auto simp: fun_eq_iff GetLogs_def AddLog_def Let_def split: option.split intro!: world_eqI)
qed (use assms in \<open>simp_all add: AddLog_def same_base_def Let_def\<close>)

lemma journaled_AddPreimage:
  assumes "objects_ok s"
  shows "journaled s (AddPreimage h p s)"
proof (cases "preimages s h")
  case None
  have b: "same_base s (AddPreimage h p s)" "stateObjects (AddPreimage h p s) = stateObjects s" by (simp_all add: AddPreimage_def same_base_def)
  show ?thesis
  proof (rule journaled_plain [where e = "addPreimageChange h"])
    show "vrevert (sdb_db s) (addPreimageChange h) (view_of (AddPreimage h p s)) = Some (view_of s)"
      using None by (subst view_of_plain [OF b]) (auto simp: GetLogs_def AddPreimage_def fun_upd_idem intro!: world_eqI)
  qed (use assms b None in \<open>simp_all add: AddPreimage_def\<close>)
qed (simp add: AddPreimage_def assms journaled_refl)

lemma journaled_refund:
  assumes "objects_ok s" "s' = (append_change (refundChange (refund s)) s)\<lparr>refund := g\<rparr>"
  shows "journaled s s'"
proof (rule journaled_plain [where e = "refundChange (refund s)"])
  have b: "same_base s s'" "stateObjects s' = stateObjects s" by (simp_all add: assms(2) same_base_def)
  show "vrevert (sdb_db s) (refundChange (refund s)) (view_of s') = Some (view_of s)"
    by (subst view_of_plain [OF b]) (auto simp: GetLogs_def assms(2) intro!: world_eqI)
qed (simp_all add: assms same_base_def)

lemma journaled_AddRefund: "objects_ok s \<Longrightarrow> journaled s (AddRefund g s)"
  by (rule journaled_refund) (simp_all add: AddRefund_def)

lemma journaled_SubRefund: "objects_ok s \<Longrightarrow> SubRefund g s = Some s' \<Longrightarrow> journaled s s'"
  by (rule journaled_refund [where g = "refund s - g"]) (auto simp: SubRefund_def Let_def split: if_splits)

end
