(* ===== verification/State_Revert.thy ===== *)
theory State_Revert
  imports State_Journal
begin

text \<open>
  \<open>RevertToSnapshot\<close> (\<open>core/state/statedb.go\<close>, \<open>core/state/journal.go\<close>): undoing the entries of the
  journal from the newest to the oldest follows \<open>vrevert\<close> on the view, the binary search finds the
  revision, and after any run of operations the state shows again what it showed at the snapshot.
\<close>

subsection \<open>Undoing the journal\<close>

text \<open>\<open>undone s s' w\<close>: the state \<open>s'\<close> shows \<open>w\<close> and differs from \<open>s\<close> in nothing that the journal relies on.\<close>

definition undone :: "StateDB \<Rightarrow> StateDB \<Rightarrow> world \<Rightarrow> bool" where
  "undone s s' w \<longleftrightarrow> view_of s' = w \<and> objects_ok s' \<and> same_base s s' \<and> sdb_journal s' = sdb_journal s"

lemma undone_plain:
  assumes "objects_ok s" "same_base s s'" "stateObjects s' = stateObjects s" "sdb_journal s' = sdb_journal s" "view_of s' = w"
  shows "undone s s' w"
  using assms objects_okI [OF assms(1,2)] by (simp add: undone_def)

lemma undone_object:
  assumes "objects_ok s" "same_base s s'" "sdb_journal s' = sdb_journal s" "stateObjects s' = (stateObjects s)(a \<mapsto> obj)"
    and "refund s' = refund s" "sdb_logs s' = sdb_logs s" "logSize s' = logSize s" "preimages s' = preimages s"
    and "so_address obj = a" "obj_ok (sdb_db s) obj" "\<not> deleted obj"
  shows "undone s s' ((view_of s)\<lparr>w_acct := (w_acct (view_of s))(a \<mapsto> obj_view (sdb_db s) obj)\<rparr>)"
proof -
  have "objects_ok s'" by (rule objects_okI [OF assms(1,2)]) (use assms in \<open>auto split: if_splits\<close>)
  then show ?thesis using assms view_of_upd [OF assms(2,4,11,5-8)] by (simp add: undone_def)
qed

lemma undone_mod:
  assumes "objects_ok s" "obj_at s a = Some obj" "getStateObject a s = (r, s1)"
    and "so_address (f obj) = so_address obj" "obj_ok (sdb_db s) obj \<Longrightarrow> obj_ok (sdb_db s) (f obj)" "deleted (f obj) = deleted obj"
  obtains s' where "mod_object a f s1 = Some s'"
    "undone s s' ((view_of s)\<lparr>w_acct := (w_acct (view_of s))(a \<mapsto> obj_view (sdb_db s) (f obj))\<rparr>)"
proof -
  note f1 = getStateObject_found [OF assms(1,3)]
  have r: "r = Some obj" using f1(3) assms(2) by simp
  have db: "sdb_db s1 = sdb_db s" using f1(4) by (simp add: same_base_def)
  let ?s' = "s1\<lparr>stateObjects := (stateObjects s1)(a \<mapsto> f obj)\<rparr>"
  have m: "mod_object a f s1 = Some ?s'" using f1(6) [OF r] by (simp add: mod_object_def)
  have "undone s1 ?s' ((view_of s1)\<lparr>w_acct := (w_acct (view_of s1))(a \<mapsto> obj_view (sdb_db s1) (f obj))\<rparr>)"
    by (rule undone_object) (use f1(1) f1(6) [OF r] objects_okD(2) [OF f1(1), of a obj] assms(4-6) db in \<open>auto simp: same_base_def\<close>)
  then show thesis using that [OF m] f1(2,4,5) db by (auto simp: undone_def same_base_def)
qed

lemma undone_found:
  assumes "objects_ok s" "on_acct a g (view_of s) = Some w"
    and "\<And>obj. so_address (f obj) = so_address obj" "\<And>obj. obj_ok (sdb_db s) obj \<Longrightarrow> obj_ok (sdb_db s) (f obj)"
    and "\<And>obj. deleted (f obj) = deleted obj"
    and "\<And>obj. obj_ok (sdb_db s) obj \<Longrightarrow> so_address obj = a \<Longrightarrow> obj_view (sdb_db s) (f obj) = g (obj_view (sdb_db s) obj)"
  obtains s' where "mod_found a f s = Some s'" "undone s s' w"
proof -
  obtain obj where obj: "obj_at s a = Some obj"
    and w: "w = (view_of s)\<lparr>w_acct := (w_acct (view_of s))(a \<mapsto> g (obj_view (sdb_db s) obj))\<rparr>"
    using assms(2) by (auto simp: on_acct_def w_acct_view)
  obtain r s1 where g: "getStateObject a s = (r, s1)" by fastforce
  note f1 = getStateObject_found [OF assms(1) g]
  have r: "r = Some obj" using f1(3) obj by simp
  have "obj_ok (sdb_db s) obj \<and> so_address obj = a"
    using f1(6) [OF r] objects_okD(2) [OF f1(1), of a obj] f1(4) by (simp add: same_base_def)
  moreover obtain s' where "mod_object a f s1 = Some s'"
    "undone s s' ((view_of s)\<lparr>w_acct := (w_acct (view_of s))(a \<mapsto> obj_view (sdb_db s) (f obj))\<rparr>)"
    by (rule undone_mod [OF assms(1) obj g, of f]) (use assms(3-5) in auto)
  ultimately show thesis using that [of s'] g r assms(6) [of obj] by (simp add: mod_found_def w)
qed

lemma obj_view_setters:
  "obj_view db (so_setBalance b obj) = (obj_view db obj)\<lparr>v_data := (so_data obj)\<lparr>acc_Balance := b\<rparr>\<rparr>"
  "obj_view db (so_setSmiloPay p obj) = (obj_view db obj)\<lparr>v_data := (so_data obj)\<lparr>acc_SmiloPay := p\<rparr>\<rparr>"
  "obj_view db (setSmiloPayAndBlock p n obj) = (obj_view db obj)\<lparr>v_data := (so_data obj)\<lparr>acc_SmiloPay := p, acc_BlockNumber := n\<rparr>\<rparr>"
  "obj_view db (so_setNonce k obj) = (obj_view db obj)\<lparr>v_data := (so_data obj)\<lparr>acc_Nonce := k\<rparr>\<rparr>"
  by (simp_all add: object_setters obj_view_data)

lemma undo_create:
  assumes "objects_ok s" "load_account a s = None"
  shows "undone s (s\<lparr>stateObjects := (stateObjects s)(a := None), stateObjectsDirty := removeAll a (stateObjectsDirty s)\<rparr>)
           ((view_of s)\<lparr>w_acct := (w_acct (view_of s))(a := None)\<rparr>)" (is "undone s ?s' _")
proof -
  have b: "same_base s ?s'" by (simp add: same_base_def)
  have "load_account a ?s' = None" using assms(2) load_account_cong [of ?s' s a] by simp
  then have "obj_at ?s' c = (if c = a then None else obj_at s c)" for c
    using obj_at_cong [of ?s' c s] by (cases "c = a") (simp_all add: obj_at_load)
  then have "view_of ?s' = (view_of s)\<lparr>w_acct := (w_acct (view_of s))(a := None)\<rparr>"
    by (simp add: view_of_def fun_eq_iff GetLogs_def)
  moreover have "objects_ok ?s'" by (rule objects_okI [OF assms(1) b]) (auto split: if_splits)
  ultimately show ?thesis using b by (simp add: undone_def)
qed

lemma undo_suicide:
  assumes "objects_ok s" "vrevert (sdb_db s) (suicideChange a p b) (view_of s) = Some w"
  obtains s' where "entry_revert (suicideChange a p b) s = Some s'" "undone s s' w"
proof -
  obtain r s1 where g: "getStateObject a s = (r, s1)" by fastforce
  note f1 = getStateObject_found [OF assms(1) g]
  show thesis
  proof (cases r)
    case None
    have "w = view_of s"
      using assms(2) f1(3) None by (auto simp: w_acct_view fun_upd_idem)
    then show thesis
      using that [of s] None g f1(7) assms(1) by (simp add: undone_def)
  next
    case (Some obj)
    let ?f = "\<lambda>obj. so_setBalance b (obj\<lparr>suicided := p\<rparr>)"
    have at: "obj_at s a = Some obj" using f1(3) Some by simp
    have v: "obj_view db (?f obj) = (obj_view db obj)\<lparr>v_suicided := p, v_data := (so_data obj)\<lparr>acc_Balance := b\<rparr>\<rparr>" for db
    proof -
      have "committed db (?f obj) = committed db obj" by (intro committed_cong getTrie_cong) (simp_all add: so_setBalance_def)
      then show ?thesis by (simp add: obj_view_def so_setBalance_def cong: option.case_cong)
    qed
    obtain s' where "mod_object a ?f s1 = Some s'"
      "undone s s' ((view_of s)\<lparr>w_acct := (w_acct (view_of s))(a \<mapsto> obj_view (sdb_db s) (?f obj))\<rparr>)"
      by (rule undone_mod [OF assms(1) at g, of ?f]) (simp_all add: obj_ok_def so_setBalance_def)
    then show thesis
      using that [of s'] assms(2) g Some at by (simp add: v w_acct_view)
  qed
qed

lemma undo_log:
  assumes "objects_ok s" "vrevert (sdb_db s) (addLogChange h) (view_of s) = Some w"
  obtains s' where "entry_revert (addLogChange h) s = Some s'" "undone s s' w"
proof -
  have n: "GetLogs h s \<noteq> []" using assms(2) by (auto split: if_splits)
  define s' where "s' = (if length (GetLogs h s) = 1 then s\<lparr>sdb_logs := (sdb_logs s)(h := None), logSize := logSize s - 1\<rparr>
    else s\<lparr>sdb_logs := (sdb_logs s)(h \<mapsto> butlast (GetLogs h s)), logSize := logSize s - 1\<rparr>)"
  have b: "same_base s s'" "stateObjects s' = stateObjects s" by (simp_all add: s'_def same_base_def)
  have logs: "GetLogs x s' = (if x = h then butlast (GetLogs h s) else GetLogs x s)" for x
  proof (cases "length (GetLogs h s) = 1")
    case True
    then obtain l where "GetLogs h s = [l]" by (auto simp: length_Suc_conv)
    then show ?thesis by (simp add: s'_def) (simp add: GetLogs_def)
  next
    case False
    then show ?thesis by (simp add: s'_def) (simp add: GetLogs_def)
  qed
  have "view_of s' = w"
    using assms(2) n
    by (subst view_of_plain [OF b], subst logs) (auto simp: s'_def fun_eq_iff intro!: world_eqI)
  then have "undone s s' w" by (intro undone_plain [OF assms(1) b]) (simp_all add: s'_def)
  moreover have "entry_revert (addLogChange h) s = Some s'"
    using n by (simp add: s'_def) (auto simp: GetLogs_def Let_def)
  ultimately show thesis using that by simp
qed

lemma entry_revert_undoes:
  assumes "objects_ok s" "entry_ok s e" "vrevert (sdb_db s) e (view_of s) = Some w"
  obtains s' where "entry_revert e s = Some s'" "undone s s' w"
proof (cases e)
  case (balanceChange a b)
  show thesis
    by (rule undone_found [OF assms(1), of a "\<lambda>v. v\<lparr>v_data := (v_data v)\<lparr>acc_Balance := b\<rparr>\<rparr>" w "so_setBalance b"])
      (use assms(3) balanceChange that in \<open>auto simp: on_data_def obj_ok_def object_setters obj_view_data\<close>)
next
  case (smiloPayChange a b)
  show thesis
    by (rule undone_found [OF assms(1), of a "\<lambda>v. v\<lparr>v_data := (v_data v)\<lparr>acc_SmiloPay := b\<rparr>\<rparr>" w "so_setSmiloPay b"])
      (use assms(3) smiloPayChange that in \<open>auto simp: on_data_def obj_ok_def object_setters obj_view_data\<close>)
next
  case (blockChange a p n)
  show thesis
    by (rule undone_found [OF assms(1), of a "\<lambda>v. v\<lparr>v_data := (v_data v)\<lparr>acc_SmiloPay := p, acc_BlockNumber := n\<rparr>\<rparr>" w
          "setSmiloPayAndBlock p n"])
      (use assms(3) blockChange that in \<open>auto simp: on_data_def obj_ok_def object_setters obj_view_data\<close>)
next
  case (nonceChange a b)
  show thesis
    by (rule undone_found [OF assms(1), of a "\<lambda>v. v\<lparr>v_data := (v_data v)\<lparr>acc_Nonce := b\<rparr>\<rparr>" w "so_setNonce b"])
      (use assms(3) nonceChange that in \<open>auto simp: on_data_def obj_ok_def object_setters obj_view_data\<close>)
next
  case (storageChange a k x)
  show thesis
    by (rule undone_found [OF assms(1), of a "\<lambda>v. v\<lparr>v_state := (v_state v)(k := x)\<rparr>" w "so_setState k x"])
      (use assms(3) storageChange that in \<open>auto simp: obj_view_setState\<close>, auto simp: obj_ok_def so_setState_def)
next
  case (codeChange a c h)
  show thesis
    by (rule undone_found [OF assms(1), of a
          "\<lambda>v. v\<lparr>v_data := (v_data v)\<lparr>acc_CodeHash := h\<rparr>, v_code := code_at (sdb_db s) (addrHash (sdb_db s) a) h c\<rparr>" w
          "so_setCode (BytesToHash h) c"])
      (use assms(2,3) codeChange that in \<open>auto simp: obj_view_setCode hash_Bytes_BytesToHash obj_ok_def\<close>, auto simp: so_setCode_def)
next
  case (createObjectChange a)
  then show thesis using that undo_create [OF assms(1), of a] assms(2,3) by simp
next
  case (resetObjectChange prev)
  have "undone s (setStateObject prev s)
      ((view_of s)\<lparr>w_acct := (w_acct (view_of s))(so_address prev \<mapsto> obj_view (sdb_db s) prev)\<rparr>)"
    by (rule undone_object) (use assms(1,2) resetObjectChange in \<open>auto simp: setStateObject_def same_base_def\<close>)
  then show thesis using that assms(3) resetObjectChange by simp
next
  case (suicideChange a p b)
  then show thesis using undo_suicide [OF assms(1)] assms(3) that by blast
next
  case (addLogChange h)
  then show thesis using undo_log [OF assms(1)] assms(3) that by blast
next
  case (refundChange r)
  have b: "same_base s (s\<lparr>refund := r\<rparr>)" "stateObjects (s\<lparr>refund := r\<rparr>) = stateObjects s" by (simp_all add: same_base_def)
  have "view_of (s\<lparr>refund := r\<rparr>) = w"
    using assms(3) refundChange by (subst view_of_plain [OF b]) (auto simp: GetLogs_def intro!: world_eqI)
  then show thesis using that [of "s\<lparr>refund := r\<rparr>"] refundChange undone_plain [OF assms(1) b] by simp
next
  case (addPreimageChange h)
  let ?s' = "s\<lparr>preimages := (preimages s)(h := None)\<rparr>"
  have b: "same_base s ?s'" "stateObjects ?s' = stateObjects s" by (simp_all add: same_base_def)
  have "view_of ?s' = w"
    using assms(3) addPreimageChange by (subst view_of_plain [OF b]) (auto simp: GetLogs_def intro!: world_eqI)
  then show thesis using that [of ?s'] addPreimageChange undone_plain [OF assms(1) b] by simp
next
  case (touchChange a)
  then show thesis using that [of s] assms(1,3) by (simp add: undone_def)
qed


lemma revert_entries_undoes:
  assumes "objects_ok s" "\<And>e. e \<in> set es \<Longrightarrow> entry_ok s e" "vundo (sdb_db s) es (view_of s) = Some w"
  obtains s' where "revert_entries (rev es) s = Some s'" "view_of s' = w" "objects_ok s'" "same_base s s'"
    "entries (sdb_journal s') = entries (sdb_journal s)"
  using assms
proof (induction es arbitrary: s thesis rule: rev_induct)
  case Nil
  then show ?case by simp
next
  case (snoc e es)
  obtain w1 where w1: "vrevert (sdb_db s) e (view_of s) = Some w1" "vundo (sdb_db s) es w1 = Some w"
    using snoc.prems(4) by (auto simp: vundo_append bind_eq_Some_conv)
  obtain s1 where s1: "entry_revert e s = Some s1" "undone s s1 w1"
    using entry_revert_undoes [OF snoc.prems(2) _ w1(1)] snoc.prems(3) by auto
  let ?t = "s1\<lparr>sdb_journal := j_undirty e (sdb_journal s1)\<rparr>"
  have b: "same_base s ?t" "same_base s1 ?t" "sdb_db ?t = sdb_db s" "sdb_trie ?t = sdb_trie s" using s1(2) by (simp_all add: undone_def same_base_def)
  have en: "entries (sdb_journal ?t) = entries (sdb_journal s)"
    using s1(2) by (simp add: undone_def j_undirty_def Let_def split: option.split)
  have ok: "objects_ok ?t" by (rule objects_okI [OF _ b(2)]) (use s1(2) en in \<open>auto simp: undone_def\<close>)
  show ?case
  proof (rule snoc.IH [OF _ ok])
    show "entry_ok ?t x" if "x \<in> set es" for x using that snoc.prems(3) entry_ok_cong [OF b(3,4)] by simp
    show "vundo (sdb_db ?t) es (view_of ?t) = Some w" using w1(2) s1(2) b by (simp add: undone_def)
    fix s' assume "revert_entries (rev es) ?t = Some s'" "view_of s' = w" "objects_ok s'" "same_base ?t s'"
      "entries (sdb_journal s') = entries (sdb_journal ?t)"
    then show thesis using snoc.prems(1) [of s'] s1(1) en same_base_trans [OF b(1)] by simp
  qed
qed

lemma journal_revert_undoes:
  assumes "objects_ok s" "vundo (sdb_db s) (drop n (entries (sdb_journal s))) (view_of s) = Some w"
  obtains s' where "journal_revert n s = Some s'" "view_of s' = w" "objects_ok s'" "same_base s s'"
    "entries (sdb_journal s') = take n (entries (sdb_journal s))"
proof -
  let ?es = "drop n (entries (sdb_journal s))"
  obtain t where t: "revert_entries (rev ?es) s = Some t" "view_of t = w" "objects_ok t" "same_base s t"
    "entries (sdb_journal t) = entries (sdb_journal s)"
    using revert_entries_undoes [OF assms(1) _ assms(2)] objects_okD(4) [OF assms(1)] in_set_dropD by metis
  let ?t = "t\<lparr>sdb_journal := (sdb_journal t)\<lparr>entries := take n (entries (sdb_journal t))\<rparr>\<rparr>"
  have b: "same_base t ?t" by (simp add: same_base_def)
  have "objects_ok ?t" by (rule objects_okI [OF t(3) b]) (auto dest: in_set_takeD)
  then show thesis using that [of ?t] t same_base_trans [OF t(4) b] by (simp add: journal_revert_def)
qed


subsection \<open>Snapshots\<close>

lemma objects_ok_cong:
  assumes "sdb_db s' = sdb_db s" "sdb_trie s' = sdb_trie s" "stateObjects s' = stateObjects s"
    "entries (sdb_journal s') = entries (sdb_journal s)"
  shows "objects_ok s' = objects_ok s"
  unfolding objects_ok_def entry_ok_cong [OF assms(1,2)] load_account_cong [OF assms(1,2)] assms ..

text \<open>The valid revisions are in the order in which they were taken.\<close>

definition revisions_ok :: "StateDB \<Rightarrow> bool" where
  "revisions_ok s \<longleftrightarrow>
     sorted_wrt (<) (map fst (validRevisions s)) \<and> sorted (map snd (validRevisions s)) \<and>
     (\<forall>(i, n) \<in> set (validRevisions s). i < nextRevisionId s \<and> n \<le> length (entries (sdb_journal s)))"

definition state_ok :: "StateDB \<Rightarrow> bool" where
  "state_ok s \<longleftrightarrow> objects_ok s \<and> revisions_ok s"

lemma sort_Search_least:
  assumes "\<And>k. k < i \<Longrightarrow> \<not> f k" "\<And>k. j \<le> k \<Longrightarrow> k < n \<Longrightarrow> f k" "i \<le> j" "j \<le> n" "\<And>k l. k \<le> l \<Longrightarrow> l < n \<Longrightarrow> f k \<Longrightarrow> f l"
  shows "sort_Search f i j \<le> n \<and> (\<forall>k < sort_Search f i j. \<not> f k) \<and> (\<forall>k. sort_Search f i j \<le> k \<longrightarrow> k < n \<longrightarrow> f k)"
  using assms
proof (induction f i j rule: sort_Search.induct)
  case (1 f i j)
  show ?case
  proof (cases "i < j")
    case False
    then have "sort_Search f i j = i" by (subst sort_Search.simps) simp
    then show ?thesis using "1.prems"(1-4) False by simp
  next
    case True
    let ?h = "(i + j) div 2"
    have h: "i \<le> ?h" "?h < j" using True by auto
    show ?thesis
    proof (cases "f ?h")
      case fh: True
      have eq: "sort_Search f i j = sort_Search f i ?h" using True fh by (subst sort_Search.simps) (simp add: Let_def)
      show ?thesis unfolding eq
      proof (rule "1.IH"(2) [OF True refl])
        show "f k" if "?h \<le> k" "k < n" for k by (rule "1.prems"(5) [OF that fh])
      qed (use fh h "1.prems"(1,4) in \<open>simp_all\<close>, rule "1.prems"(5))
    next
      case fh: False
      have eq: "sort_Search f i j = sort_Search f (?h + 1) j" using True fh by (subst sort_Search.simps) (simp add: Let_def)
      show ?thesis unfolding eq
      proof (rule "1.IH"(1) [OF True refl fh])
        show "\<not> f k" if "k < ?h + 1" for k using "1.prems"(5) [of k ?h] that fh h "1.prems"(4) by linarith
      qed (use h "1.prems"(2,4) in \<open>simp_all\<close>, rule "1.prems"(5))
    qed
  qed
qed


lemma sort_Search_bound: "i \<le> j \<Longrightarrow> sort_Search f i j \<le> j"
proof (induction f i j rule: sort_Search.induct)
  case (1 f i j)
  show ?case
  proof (cases "i < j")
    case True
    then show ?thesis
      using "1.IH"(1) [OF True refl] "1.IH"(2) [OF True refl] by (subst sort_Search.simps) (fastforce simp: Let_def)
  qed (use "1.prems" in \<open>subst sort_Search.simps, simp\<close>)
qed

lemma find_revision:
  assumes "revisions_ok s" "k < length (validRevisions s)" "validRevisions s ! k = (i, n)"
  shows "sort_Search (\<lambda>j. fst (validRevisions s ! j) \<ge> i) 0 (length (validRevisions s)) = k"
proof -
  define f where "f = (\<lambda>j. fst (validRevisions s ! j) \<ge> i)"
  define m where "m = length (validRevisions s)"
  have st: "sorted_wrt (<) (map fst (validRevisions s))" using assms(1) by (simp add: revisions_ok_def)
  have less: "fst (validRevisions s ! a) < fst (validRevisions s ! b)" if "a < b" "b < m" for a b
    using sorted_wrt_nth_less [OF st that(1)] that by (simp add: m_def)
  have mono: "f b" if "a \<le> b" "b < m" "f a" for a b
    using less [of a b] that by (cases "a = b") (simp_all add: f_def)
  have l: "sort_Search f 0 m \<le> m \<and> (\<forall>j < sort_Search f 0 m. \<not> f j) \<and> (\<forall>j. sort_Search f 0 m \<le> j \<longrightarrow> j < m \<longrightarrow> f j)"
    using mono by (intro sort_Search_least) simp_all
  have k: "f k" "k < m" "\<And>j. j < k \<Longrightarrow> \<not> f j" using assms(2,3) less by (fastforce simp: f_def m_def)+
  have "\<not> k < sort_Search f 0 m" using l k(1) by blast
  moreover have "\<not> sort_Search f 0 m < k" using l k(2,3) by (meson less_trans order_refl)
  ultimately show ?thesis by (simp add: f_def m_def)
qed

lemma RevertToSnapshot_undoes:
  assumes "state_ok s" "k < length (validRevisions s)" "validRevisions s ! k = (i, n)"
    and "vundo (sdb_db s) (drop n (entries (sdb_journal s))) (view_of s) = Some w"
  obtains s' where "RevertToSnapshot i s = Some s'" "view_of s' = w" "state_ok s'" "sdb_db s' = sdb_db s"
    "validRevisions s' = take k (validRevisions s)" "entries (sdb_journal s') = take n (entries (sdb_journal s))"
proof -
  have ok: "objects_ok s" "revisions_ok s" using assms(1) by (simp_all add: state_ok_def)
  obtain t where t: "journal_revert n s = Some t" "view_of t = w" "objects_ok t" "same_base s t"
    "entries (sdb_journal t) = take n (entries (sdb_journal s))"
    using journal_revert_undoes [OF ok(1) assms(4)] .
  let ?t = "t\<lparr>validRevisions := take k (validRevisions s)\<rparr>"
  have "RevertToSnapshot i s = Some ?t"
    using find_revision [OF ok(2) assms(2,3)] assms(2,3) t(1) by (simp add: RevertToSnapshot_def Let_def)
  moreover have "objects_ok ?t"
    using t(3) objects_ok_cong [of ?t t] by simp
  moreover have "revisions_ok ?t"
  proof -
    have srt: "sorted (map snd (validRevisions s))" using ok(2) by (simp add: revisions_ok_def)
    have "m \<le> n" if "(j, m) \<in> set (take k (validRevisions s))" for j m
    proof -
      obtain x where "x < k" "validRevisions s ! x = (j, m)" using \<open>(j, m) \<in> _\<close> assms(2) by (auto simp: in_set_conv_nth)
      then show ?thesis using sorted_nth_mono [OF srt, of x k] assms(2,3) by simp
    qed
    then show ?thesis
      using ok(2) t(4,5) unfolding revisions_ok_def
      by (auto simp: same_base_def sorted_wrt_take simp flip: take_map dest: in_set_takeD)
  qed
  ultimately show thesis using that [of ?t] t by (simp add: state_ok_def same_base_def)
qed

text \<open>What is kept about a snapshot while the state goes on.\<close>

definition tracked :: "int \<Rightarrow> world \<Rightarrow> (int \<times> nat) list \<Rightarrow> journalEntry list \<Rightarrow> StateDB \<Rightarrow> bool" where
  "tracked i w rs es s \<longleftrightarrow>
     state_ok s \<and>
     (\<exists>rs' fs. validRevisions s = rs @ (i, length es) # rs' \<and> entries (sdb_journal s) = es @ fs \<and>
        vundo (sdb_db s) fs (view_of s) = Some w)"

lemma state_ok_journaled: "state_ok s \<Longrightarrow> journaled s s' \<Longrightarrow> state_ok s'"
  by (auto simp: state_ok_def journaled_def revisions_ok_def same_base_def case_prod_beta intro: order_trans)

lemma tracked_journaled:
  assumes "tracked i w rs es s" "journaled s s'"
  shows "tracked i w rs es s'"
proof -
  obtain rs' fs gs where "validRevisions s = rs @ (i, length es) # rs'" "entries (sdb_journal s) = es @ fs"
    "vundo (sdb_db s) fs (view_of s) = Some w" "entries (sdb_journal s') = entries (sdb_journal s) @ gs"
    "vundo (sdb_db s) gs (view_of s') = Some (view_of s)"
    using assms by (auto simp: tracked_def journaled_def)
  moreover have "same_base s s'" using assms(2) by (simp add: journaled_def)
  ultimately show ?thesis
    using state_ok_journaled [OF _ assms(2)] assms(1)
    by (auto simp: tracked_def same_base_def vundo_append intro!: exI [of _ "fs @ gs"])
qed


lemma Snapshot_ok:
  assumes "state_ok s" "sdb_Snapshot s = (i, s')"
  shows "state_ok s'" "view_of s' = view_of s" "validRevisions s' = validRevisions s @ [(i, length (entries (sdb_journal s)))]"
    "sdb_journal s' = sdb_journal s" "sdb_db s' = sdb_db s"
proof -
  have s': "s' = s\<lparr>nextRevisionId := i + 1, validRevisions := validRevisions s @ [(i, length (entries (sdb_journal s)))]\<rparr>"
    "i = nextRevisionId s" using assms(2) by (auto simp: sdb_Snapshot_def)
  have "objects_ok s'" using assms(1) objects_ok_cong [of s' s] by (simp add: s' state_ok_def)
  moreover have "revisions_ok s'"
    using assms(1) by (auto simp: s' state_ok_def revisions_ok_def sorted_wrt_append sorted_append)
  ultimately show "state_ok s'" by (simp add: state_ok_def)
qed (use assms(2) in \<open>auto simp: sdb_Snapshot_def\<close>)

lemma tracked_Snapshot:
  assumes "tracked i w rs es s" "sdb_Snapshot s = (j, s')"
  shows "tracked i w rs es s'"
  using assms(1) Snapshot_ok [OF _ assms(2)] by (auto simp: tracked_def)

lemma tracked_new:
  assumes "state_ok s" "sdb_Snapshot s = (i, s')"
  shows "tracked i (view_of s) (validRevisions s) (entries (sdb_journal s)) s'"
  using Snapshot_ok [OF assms] by (simp add: tracked_def)

text \<open>Going back to the tracked snapshot, and to a later one.\<close>

lemma tracked_back:
  assumes "tracked i w rs es s"
  obtains s' where "RevertToSnapshot i s = Some s'" "view_of s' = w" "state_ok s'" "validRevisions s' = rs"
    "entries (sdb_journal s') = es"
proof -
  obtain rs' fs where t: "validRevisions s = rs @ (i, length es) # rs'" "entries (sdb_journal s) = es @ fs"
    "vundo (sdb_db s) fs (view_of s) = Some w" "state_ok s"
    using assms by (auto simp: tracked_def)
  show thesis
    by (rule RevertToSnapshot_undoes [OF t(4), of "length rs" i "length es" w]) (use t that in \<open>simp_all\<close>)
qed

lemma tracked_later:
  assumes "tracked i w rs es s" "i < j" "RevertToSnapshot j s = Some s'"
  shows "tracked i w rs es s'"
proof -
  obtain rs' fs where t: "validRevisions s = rs @ (i, length es) # rs'" "entries (sdb_journal s) = es @ fs"
    "vundo (sdb_db s) fs (view_of s) = Some w" and ok: "state_ok s"
    using assms(1) by (auto simp: tracked_def)
  define k where "k = sort_Search (\<lambda>x. fst (validRevisions s ! x) \<ge> j) 0 (length (validRevisions s))"
  have k: "k \<noteq> length (validRevisions s)" "fst (validRevisions s ! k) = j"
    using assms(3) by (auto simp: RevertToSnapshot_def Let_def k_def split: if_splits)
  obtain n where n: "validRevisions s ! k = (j, n)" using k(2) by (metis prod.collapse)
  have srt: "sorted_wrt (<) (map fst (validRevisions s))" "sorted (map snd (validRevisions s))"
    using ok by (simp_all add: state_ok_def revisions_ok_def)
  have kl: "k < length (validRevisions s)" using k(1) sort_Search_bound [of 0] by (simp add: k_def le_neq_implies_less)
  have rsk: "length rs < k"
  proof (rule ccontr)
    assume "\<not> length rs < k"
    then have "fst (validRevisions s ! k) \<le> fst (validRevisions s ! length rs)"
      using sorted_wrt_nth_less [OF srt(1), of k "length rs"] t(1) kl
      by (cases "k = length rs") (simp_all add: nth_append)
    then show False using k(2) t(1) assms(2) by simp
  qed
  have "snd (validRevisions s ! length rs) \<le> snd (validRevisions s ! k)"
    using sorted_nth_mono [OF srt(2), of "length rs" k] rsk kl by simp
  then have "length es \<le> n" using n t(1) by simp
  then have d: "drop n (entries (sdb_journal s)) = drop (n - length es) fs" "take n (entries (sdb_journal s)) = es @ take (n - length es) fs"
    using t(2) by simp_all
  obtain w2 where w2: "vundo (sdb_db s) (drop (n - length es) fs) (view_of s) = Some w2"
    "vundo (sdb_db s) (take (n - length es) fs) w2 = Some w"
    using t(3) vundo_append [of "sdb_db s" "take (n - length es) fs" "drop (n - length es) fs"] by (auto simp: bind_eq_Some_conv)
  obtain s2 where s2: "RevertToSnapshot j s = Some s2" "view_of s2 = w2" "state_ok s2" "sdb_db s2 = sdb_db s"
    "validRevisions s2 = take k (validRevisions s)" "entries (sdb_journal s2) = take n (entries (sdb_journal s))"
    using RevertToSnapshot_undoes [OF ok kl n, of w2] w2(1) d(1) by auto
  obtain q where "k - length rs = Suc q" using rsk by (metis Suc_diff_Suc)
  then show ?thesis using s2 assms(3) t(1) d(2) w2(2) by (simp add: tracked_def)
qed



subsection \<open>Runs of operations\<close>

inductive state_op :: "StateDB \<Rightarrow> StateDB \<Rightarrow> bool" where
  "AddBalance a n b s = Some s' \<Longrightarrow> state_op s s'"
| "SubBalance a n b s = Some s' \<Longrightarrow> state_op s s'"
| "SetBalance a n b s = Some s' \<Longrightarrow> state_op s s'"
| "AddSmiloPay a n s = Some s' \<Longrightarrow> state_op s s'"
| "SubSmiloPay a n b s = Some s' \<Longrightarrow> state_op s s'"
| "SetSmiloPay a n s = Some s' \<Longrightarrow> state_op s s'"
| "UpdateSmiloPay a b s = Some s' \<Longrightarrow> state_op s s'"
| "SetNonce a k s = Some s' \<Longrightarrow> state_op s s'"
| "SetCode a c s = Some s' \<Longrightarrow> state_op s s'"
| "SetState a x v s = Some s' \<Longrightarrow> state_op s s'"
| "Suicide a s = Some (r, s') \<Longrightarrow> state_op s s'"
| "CreateAccount a s = Some s' \<Longrightarrow> state_op s s'"
| "AddLog l s = s' \<Longrightarrow> state_op s s'"
| "AddPreimage h c s = s' \<Longrightarrow> state_op s s'"
| "AddRefund g s = s' \<Longrightarrow> state_op s s'"
| "SubRefund g s = Some s' \<Longrightarrow> state_op s s'"
| "getStateObject a s = (obj, s') \<Longrightarrow> state_op s s'"
| "GetCode a s = Some (c', s') \<Longrightarrow> state_op s s'"
| "GetState a x s = Some (v, s') \<Longrightarrow> state_op s s'"
| "GetCommittedState a x s = Some (v, s') \<Longrightarrow> state_op s s'"

text \<open>A run after the snapshot \<open>i\<close>: operations, further snapshots, and reverts to later snapshots.\<close>

inductive runs :: "int \<Rightarrow> StateDB \<Rightarrow> StateDB \<Rightarrow> bool" where
  start: "runs i s s"
| op: "runs i s t \<Longrightarrow> state_op t u \<Longrightarrow> runs i s u"
| snapshot: "runs i s t \<Longrightarrow> sdb_Snapshot t = (j, u) \<Longrightarrow> runs i s u"
| revert: "runs i s t \<Longrightarrow> i < j \<Longrightarrow> RevertToSnapshot j t = Some u \<Longrightarrow> runs i s u"

lemma journaled_found:
  assumes "objects_ok s" "getStateObject a s = (r, s')"
  shows "journaled s s'"
  using getStateObject_found [OF assms] by (simp add: journaled_def exI [of _ "[]"])

text \<open>A read that stores a cache in the object it found.\<close>

lemma journaled_read:
  assumes "objects_ok s" "getStateObject a s = (Some obj, s1)" "same_view (sdb_db s1) obj obj'"
    and "mod_object a (\<lambda>_. obj') s1 = Some s'"
  shows "journaled s s'"
proof -
  note f1 = getStateObject_found [OF assms(1,2)]
  have l: "stateObjects s1 a = Some obj" "\<not> deleted obj" using f1(6) [OF refl] by auto
  have "s' = s1\<lparr>stateObjects := (stateObjects s1)(a \<mapsto> obj')\<rparr>" using assms(4) l(1) by (simp add: mod_object_def)
  then have "journaled s1 s'" using journaled_cache [OF f1(1) l assms(3)] by simp
  then show ?thesis using journaled_found [OF assms(1,2)] journaled_trans by blast
qed

lemma journaled_GetCode:
  assumes "objects_ok s" "GetCode a s = Some (c, s')"
  shows "journaled s s'"
proof -
  obtain r s1 where g: "getStateObject a s = (r, s1)" by fastforce
  show ?thesis
  proof (cases r)
    case None
    then show ?thesis using assms(2) g journaled_found [OF assms(1) g] by (simp add: GetCode_def)
  next
    case (Some obj)
    obtain obj' where c: "so_Code (sdb_db s1) obj = (v_code (obj_view (sdb_db s1) obj), obj')" "same_view (sdb_db s1) obj obj'"
      using Code_same .
    then have "mod_object a (\<lambda>_. obj') s1 = Some s'" using assms(2) g Some by (auto simp: GetCode_def)
    then show ?thesis using journaled_read [OF assms(1) _ c(2)] g Some by simp
  qed
qed

lemma found_ok:
  assumes "objects_ok s" "getStateObject a s = (Some obj, s1)"
  shows "db_ok (sdb_db s1)" "fakeStorage obj = None"
  using getStateObject_found(1,6) [OF assms] objects_okD(1,2) by (auto simp: obj_ok_def)

lemma journaled_GetState:
  assumes "objects_ok s" "GetState a k s = Some (v, s')"
  shows "journaled s s'"
proof -
  obtain r s1 where g: "getStateObject a s = (r, s1)" by fastforce
  show ?thesis
  proof (cases r)
    case None
    then show ?thesis using assms(2) g journaled_found [OF assms(1) g] by (simp add: GetState_def)
  next
    case (Some obj)
    obtain obj' where c: "so_GetState (sdb_db s1) k obj = Some (v_state (obj_view (sdb_db s1) obj) k, obj')" "same_view (sdb_db s1) obj obj'"
      using GetState_same found_ok [OF assms(1)] g Some by blast
    then have "mod_object a (\<lambda>_. obj') s1 = Some s'" using assms(2) g Some by (auto simp: GetState_def bind_eq_Some_conv)
    then show ?thesis using journaled_read [OF assms(1) _ c(2)] g Some by simp
  qed
qed

lemma journaled_GetCommittedState:
  assumes "objects_ok s" "GetCommittedState a k s = Some (v, s')"
  shows "journaled s s'"
proof -
  obtain r s1 where g: "getStateObject a s = (r, s1)" by fastforce
  show ?thesis
  proof (cases r)
    case None
    then show ?thesis using assms(2) g journaled_found [OF assms(1) g] by (simp add: GetCommittedState_def)
  next
    case (Some obj)
    obtain obj' where c: "so_GetCommittedState (sdb_db s1) k obj = Some (committed (sdb_db s1) obj k, obj')" "same_view (sdb_db s1) obj obj'"
      using GetCommittedState_same found_ok [OF assms(1)] g Some by blast
    then have "mod_object a (\<lambda>_. obj') s1 = Some s'" using assms(2) g Some by (auto simp: GetCommittedState_def bind_eq_Some_conv)
    then show ?thesis using journaled_read [OF assms(1) _ c(2)] g Some by simp
  qed
qed

lemma journaled_by_new:
  assumes "objects_ok s" "f (GetOrNewStateObject a s) = Some s'"
    and "\<And>t. live_at t a \<Longrightarrow> f t = Some s' \<Longrightarrow> journaled t s' \<and> live_at s' a"
  shows "journaled s s'"
  using journaled_via_new [OF assms(1)] assms(2,3) by blast

lemma journaled_setters:
  assumes "objects_ok s"
  shows "AddBalance a n b s = Some s' \<Longrightarrow> journaled s s'"
    "SubBalance a n b s = Some s' \<Longrightarrow> journaled s s'"
    "SetBalance a n b s = Some s' \<Longrightarrow> journaled s s'"
    "AddSmiloPay a n s = Some s' \<Longrightarrow> journaled s s'"
    "SubSmiloPay a n b s = Some s' \<Longrightarrow> journaled s s'"
    "SetSmiloPay a n s = Some s' \<Longrightarrow> journaled s s'"
    "UpdateSmiloPay a b s = Some s' \<Longrightarrow> journaled s s'"
    "SetNonce a k s = Some s' \<Longrightarrow> journaled s s'"
    "SetState a x v s = Some s' \<Longrightarrow> journaled s s'"
    "SetCode a c s = Some s' \<Longrightarrow> journaled s s'"
  apply -
  subgoal by (simp only: AddBalance_def; erule journaled_by_new [OF assms, of "so_AddBalance a n b" a]; erule (1) journaled_AddBalance)
  subgoal by (simp only: SubBalance_def; erule journaled_by_new [OF assms, of "so_SubBalance a n b" a]; erule (1) journaled_SubBalance)
  subgoal by (simp only: SetBalance_def; erule journaled_by_new [OF assms, of "so_SetBalance a n b" a]; erule (1) journaled_SetBalance)
  subgoal by (simp only: AddSmiloPay_def; erule journaled_by_new [OF assms, of "so_AddSmiloPay a n" a]; erule (1) journaled_AddSmiloPay)
  subgoal by (simp only: SubSmiloPay_def; erule journaled_by_new [OF assms, of "so_SubSmiloPay a n b" a]; erule (1) journaled_SubSmiloPay)
  subgoal by (simp only: SetSmiloPay_def; erule journaled_by_new [OF assms, of "so_SetSmiloPay a n" a]; erule (1) journaled_SetSmiloPay)
  subgoal by (simp only: UpdateSmiloPay_def; erule journaled_by_new [OF assms, of "so_UpdateSmiloPay a b" a]; erule (1) journaled_UpdateSmiloPay)
  subgoal by (simp only: SetNonce_def; erule journaled_by_new [OF assms, of "so_SetNonce a k" a]; erule (1) journaled_SetNonce)
  subgoal by (simp only: SetState_def; erule journaled_by_new [OF assms, of "so_SetState a x v" a]; erule (1) journaled_SetState)
  subgoal by (simp only: SetCode_def; erule journaled_by_new [OF assms, of "so_SetCode a (Keccak256Hash (sdb_db s) c) (Some c)" a]; erule (1) journaled_SetCode)
  done

lemmas journaled_ops = journaled_setters journaled_Suicide journaled_CreateAccount journaled_AddLog journaled_AddPreimage
  journaled_AddRefund journaled_SubRefund journaled_found journaled_GetCode journaled_GetState journaled_GetCommittedState

lemma state_op_journaled: "state_op s s' \<Longrightarrow> objects_ok s \<Longrightarrow> journaled s s'"
  by (erule state_op.cases) (auto dest: journaled_ops)

lemma runs_tracked: "runs i s t \<Longrightarrow> tracked i w rs es s \<Longrightarrow> tracked i w rs es t"
proof (induction rule: runs.induct)
  case (op i s t u)
  then have t: "tracked i w rs es t" by simp
  then have "objects_ok t" by (simp add: tracked_def state_ok_def)
  then show ?case using tracked_journaled [OF t] state_op_journaled [OF op.hyps(2)] by simp
next
  case (snapshot i s t j u)
  then show ?case using tracked_Snapshot [of i w rs es t j u] by simp
next
  case (revert i s t j u)
  then show ?case using tracked_later [of i w rs es t j u] by simp
qed

text \<open>
  C31. After a snapshot and any run of state operations, further snapshots and reverts to later
  snapshots, RevertToSnapshot succeeds and the state shows again what it showed at the snapshot:
  every account with its nonce, balance, SmiloPay, code and storage, the logs, the preimages and the
  refund counter.
\<close>
theorem revert_restores_state:
  assumes "state_ok s" "sdb_Snapshot s = (i, s1)" "runs i s1 s2"
  shows "\<exists>s3. RevertToSnapshot i s2 = Some s3 \<and> view_of s3 = view_of s \<and> state_ok s3 \<and>
           validRevisions s3 = validRevisions s \<and> entries (sdb_journal s3) = entries (sdb_journal s)"
  using tracked_back [OF runs_tracked [OF assms(3) tracked_new [OF assms(1,2)]]] by metis


lemma state_ok_New:
  assumes "db_ok db" "sdb_New rt db = Inr s" "\<And>a obj. load_account a s = Some obj \<Longrightarrow> length (acc_CodeHash (so_data obj)) = 32"
  shows "state_ok s"
proof -
  obtain tr where s: "s = \<lparr>sdb_db = db, sdb_trie = tr, stateObjects = Map.empty, stateObjectsDirty = [], refund = 0,
        thash = 0, bhash = 0, txIndex = 0, sdb_logs = Map.empty, logSize = 0, preimages = Map.empty,
        sdb_journal = newJournal, validRevisions = [], nextRevisionId = 0\<rparr>"
    using assms(2) by (cases "OpenTrie db rt") (auto simp: sdb_New_def)
  have "obj_ok db obj" if "load_account a s = Some obj" for a obj
    using assms(3) [OF that] load_account_obj [OF that] by (simp add: obj_ok_def s)
  then show ?thesis using assms(1) by (simp add: state_ok_def objects_ok_def revisions_ok_def s newJournal_def)
qed

text \<open>A database without any account, for the examples.\<close>

definition demo_db :: stateDatabase where
  "demo_db = \<lparr>OpenTrie = (\<lambda>_. Inr Map.empty), OpenStorageTrie = (\<lambda>_ _. Inr Map.empty), ContractCode = (\<lambda>_ _. Inl ErrNoCode),
     trie_Hash = (\<lambda>_. 0), db_Keccak256 = (\<lambda>_. replicate 32 0)\<rparr>"

definition demo_state :: StateDB where
  "demo_state = \<lparr>sdb_db = demo_db, sdb_trie = Map.empty, stateObjects = Map.empty, stateObjectsDirty = [], refund = 0,
     thash = 0, bhash = 0, txIndex = 0, sdb_logs = Map.empty, logSize = 0, preimages = Map.empty,
     sdb_journal = newJournal, validRevisions = [], nextRevisionId = 0\<rparr>"

lemma demo_db_ok: "db_ok demo_db"
  by (simp add: db_ok_def demo_db_def)

lemma demo_state_ok: "state_ok demo_state"
proof (rule state_ok_New [OF demo_db_ok, of 0])
  show "sdb_New 0 demo_db = Inr demo_state" by (simp add: sdb_New_def demo_db_def demo_state_def)
qed (simp add: load_account_def demo_state_def TryGet_def Let_def)

theorem revert_restores_state_witness:
  "\<exists>s2 s3. SetNonce 7 1 (snd (sdb_Snapshot demo_state)) = Some s2 \<and> obj_at s2 7 \<noteq> None \<and>
     RevertToSnapshot 0 s2 = Some s3 \<and> view_of s3 = view_of demo_state"
proof -
  have "\<exists>s2. SetNonce 7 1 (snd (sdb_Snapshot demo_state)) = Some s2 \<and> obj_at s2 7 \<noteq> None"
    by (simp add: SetNonce_def so_SetNonce_def GetOrNewStateObject_def createObject_def getStateObject_def load_account_def
        sdb_Snapshot_def demo_state_def setStateObject_def mod_object_def TryGet_def Let_def obj_at_def so_setNonce_def)
  then obtain s2 where s2: "SetNonce 7 1 (snd (sdb_Snapshot demo_state)) = Some s2" "obj_at s2 7 \<noteq> None" by blast
  moreover have "sdb_Snapshot demo_state = (0, snd (sdb_Snapshot demo_state))" by (simp add: sdb_Snapshot_def demo_state_def)
  ultimately show ?thesis
    using revert_restores_state [OF demo_state_ok, of 0 "snd (sdb_Snapshot demo_state)" s2] runs.op [OF runs.start] state_op.intros(8) by metis
qed

end
