(* ===== verification/Engine_Accept.thy ===== *)
theory Engine_Accept
  imports Engine_Ops State_Revert
begin

text \<open>
  A block that one node prepares, finalizes, seals and commits passes the checks of every other node
  that knows its parent and the snapshot of the parent.
\<close>

subsection \<open>The header on its way\<close>

lemma castCandidate_fields [simp]:
  "h_Number (castCandidate Intn as h) = h_Number h" "h_ParentHash (castCandidate Intn as h) = h_ParentHash h"
  "h_MixDigest (castCandidate Intn as h) = h_MixDigest h" "h_Difficulty (castCandidate Intn as h) = h_Difficulty h"
  by (auto simp: castCandidate_def split: prod.split)

lemma castCandidate_Nonce: "h_Nonce h = 0 \<Longrightarrow> h_Nonce (castCandidate Intn as h) \<in> {0, nonceAuthVote}"
  by (auto simp: castCandidate_def nonceDropVote_def split: prod.split)

lemma Prepare_cases:
  assumes "Prepare env chain state Intn header sb = Some (Inr h, sb')"
  obtains n parent snap where "header_Uint64 header = Some n" "GetHeader chain (h_ParentHash header) (n - 1) = Some parent"
    "snapshot env chain (n - 1) (h_ParentHash header) [] sb = Some (Inr snap, sb')"
    "h_Number h = h_Number header" "h_ParentHash h = h_ParentHash header" "h_MixDigest h = SportDigest"
    "h_Difficulty h = Some defaultDifficulty" "h_Nonce h \<in> {0, nonceAuthVote}"
    "ExtractSportExtra h = Inr \<lparr>Fullnodes = snap_fullnodes snap, Seal = [], CommittedSeals = []\<rparr>"
    "h_Time h = prepareTime env (h_Time parent) (BlockPeriod (sb_config sb'))"
proof -
  define h0 where "h0 = header\<lparr>h_Nonce := 0, h_MixDigest := SportDigest, h_Difficulty := Some defaultDifficulty\<rparr>"
  have f: "header_Uint64 (header\<lparr>h_Nonce := 0, h_MixDigest := SportDigest\<rparr>) = header_Uint64 header"
    by (simp add: header_Uint64_def)
  obtain n parent where n: "header_Uint64 header = Some n" "GetHeader chain (h_ParentHash header) (n - 1) = Some parent"
    using assms by (auto simp: Prepare_def Let_def f split: option.splits)
  then obtain snap where s: "snapshot env chain (n - 1) (h_ParentHash header) [] sb = Some (Inr snap, sb')"
    and fill: "fillHeader env state Intn parent h0 snap sb' = Inr h"
    using assms by (auto simp: Prepare_def Let_def f h0_def andThen_Inr)
  obtain as where as: "voteCandidates state snap sb' = Inr as" using fill by (auto simp: fillHeader_def split: sum.splits)
  obtain extra where x: "prepareExtra (castCandidate Intn as h0) (snap_fullnodes snap) = Inr extra"
    using fill as by (auto simp: fillHeader_def Let_def split: sum.splits)
  then have h: "h = (castCandidate Intn as h0)\<lparr>h_Extra := extra, h_Time := prepareTime env (h_Time parent) (BlockPeriod (sb_config sb'))\<rparr>"
    using fill as by (simp add: fillHeader_def Let_def)
  have "ExtractSportExtra h = ExtractSportExtra ((castCandidate Intn as h0)\<lparr>h_Extra := extra\<rparr>)"
    by (simp add: h ExtractSportExtra_def)
  with prepareExtra_Extract [OF x] have e: "ExtractSportExtra h = Inr \<lparr>Fullnodes = snap_fullnodes snap, Seal = [], CommittedSeals = []\<rparr>"
    by simp
  have "h_Nonce h \<in> {0, nonceAuthVote}" using castCandidate_Nonce [of h0 Intn as] by (simp add: h h0_def)
  then show ?thesis by (intro that [OF n s _ _ _ _ _ e]) (simp_all add: h h0_def)
qed

lemma CopyHeader_same: "h_Number h \<noteq> None \<Longrightarrow> h_Difficulty h \<noteq> None \<Longrightarrow> CopyHeader h = h"
  by (auto simp: CopyHeader_def)

lemma CopyHeader_iff: "CopyHeader h = h \<longleftrightarrow> h_Number h \<noteq> None \<and> h_Difficulty h \<noteq> None"
proof
  assume "CopyHeader h = h"
  then have "h_Number (CopyHeader h) = h_Number h" "h_Difficulty (CopyHeader h) = h_Difficulty h" by simp_all
  then show "h_Number h \<noteq> None \<and> h_Difficulty h \<noteq> None"
    by (cases "h_Number h"; cases "h_Difficulty h") (auto simp: CopyHeader_def)
qed (simp add: CopyHeader_same)

lemma Finalize_block:
  assumes "Finalize env txSha receiptSha CreateBloom IsEIP158 sb h state txs receipts = Some (b, state')"
    and "h_Difficulty h \<noteq> None"
  shows "same_duties h (blk_header b)" "h_UncleHash (blk_header b) = nilUncleHash (e_crypto env)"
    "h_TxHash (blk_header b) = txSha txs" "blk_transactions b = txs" "blk_uncles b = []" "h_Extra (blk_header b) = h_Extra h"
proof -
  obtain n where n: "h_Number h = Some n" using assms(1) by (auto simp: Finalize_def bind_eq_Some_conv)
  then obtain root where b: "b = NewBlock (e_crypto env) txSha receiptSha CreateBloom
      (h\<lparr>h_Root := root, h_UncleHash := nilUncleHash (e_crypto env)\<rparr>) txs [] receipts"
    using assms(1) by (auto simp: Finalize_def bind_eq_Some_conv)
  have c: "CopyHeader (h\<lparr>h_Root := root, h_UncleHash := nilUncleHash (e_crypto env)\<rparr>) =
      h\<lparr>h_Root := root, h_UncleHash := nilUncleHash (e_crypto env)\<rparr>"
    using n assms(2) by (intro CopyHeader_same) auto
  show "same_duties h (blk_header b)" "h_UncleHash (blk_header b) = nilUncleHash (e_crypto env)"
    "h_TxHash (blk_header b) = txSha txs" "blk_transactions b = txs" "blk_uncles b = []" "h_Extra (blk_header b) = h_Extra h"
    by (auto simp: b NewBlock_def c Let_def same_duties_def) (simp_all add: nilUncleHash_def)
qed

lemma sealProposal_cases:
  assumes "sealProposal env chain sign b sb = Some (Inr b1, sb1)" "CopyHeader (blk_header b) = blk_header b"
  obtains seal h1 where "sign (Keccak256 (e_crypto env) (hash_Bytes (sigHash (e_crypto env) (blk_header b)))) = Inr seal"
    "writeSeal (blk_header b) seal = Inr h1" "b1 = WithSeal h1 b" "sb_proposedBlockHash sb1 = block_Hash (e_crypto env) b1"
  using assms
  by (auto simp: sealProposal_def block_Header_def updateBlock_def Sign_def Let_def andThen_Inr split: option.splits if_splits sum.splits)

lemma writeSeal_frame:
  assumes "writeSeal h seal = Inr h'"
  shows "same_duties h h'" "h_UncleHash h' = h_UncleHash h" "h_TxHash h' = h_TxHash h"
    "\<exists>x. ExtractSportExtra h = Inr x \<and> ExtractSportExtra h' = Inr (x\<lparr>Seal := seal\<rparr>)"
proof -
  obtain x payload where x: "ExtractSportExtra h = Inr x" "h' = set_extra h payload"
    "EncodeToBytes sportExtra_item (x\<lparr>Seal := seal\<rparr>) = Some payload"
    using assms by (rule writeSeal_cases)
  show "same_duties h h'" "h_UncleHash h' = h_UncleHash h" "h_TxHash h' = h_TxHash h" by (simp_all add: x(2)) (simp_all add: set_extra_def)
  show "\<exists>x. ExtractSportExtra h = Inr x \<and> ExtractSportExtra h' = Inr (x\<lparr>Seal := seal\<rparr>)"
    using Extract_set_extra [OF Extract_length [OF x(1)] x(3)] x(1,2) by simp
qed


lemma sint_nonneg_uint: "0 \<le> sint (w :: uint64) \<Longrightarrow> uint w = sint w"
  using sint_lt [of w] unfolding uint_sint by (simp add: take_bit_int_eq_self)

lemma prepareTime_bound:
  assumes "0 \<le> sint (t + p)" "0 \<le> now_Unix env" "now_Unix env < 2 ^ 63"
  shows "t + p \<le> prepareTime env t p"
proof (cases "sint (t + p) < now_Unix env")
  case True
  have "uint (t + p) = sint (t + p)" using assms(1) by (rule sint_nonneg_uint)
  moreover have "uint (of_int (now_Unix env) :: uint64) = now_Unix env" using assms(2,3) by (simp add: uint_word_of_int_eq take_bit_int_eq_self)
  ultimately show ?thesis using True by (simp add: prepareTime_def Let_def word_le_def)
qed (simp add: prepareTime_def Let_def)


subsection \<open>From preparation to acceptance\<close>

lemma proposal_facts:
  assumes prep: "Prepare env chain state Intn header sb = Some (Inr h, sb1)"
    and fin: "Finalize env txSha receiptSha CreateBloom IsEIP158 sb1 h statedb txs receipts = Some (b, statedb')"
    and seal: "sealProposal env chain sign b sb1 = Some (Inr b1, sb2)"
    and par: "parent_of (e_crypto env) chain header parent" "0 \<le> sint (h_Time parent + BlockPeriod (sb_config sb1))"
    and now: "0 \<le> now_Unix env" "now_Unix env < 2 ^ 63"
    and signs: "\<And>d sig. sign (Keccak256 (e_crypto env) d) = Inr sig \<Longrightarrow> GetSignatureAddress (e_crypto env) d sig = Inr a"
    and env': "e_crypto env' = e_crypto env" "e_recentAddresses env' (block_Hash (e_crypto env) b1) = None"
    and time: "sint (h_Time h) \<le> now_Unix env'"
  shows "same_duties h (blk_header b1)" "parent_of (e_crypto env) chain h parent"
    and "h_Time parent + BlockPeriod (sb_config sb1) \<le> h_Time h"
    and "checkStandalone env' (blk_header b1) = None" "ecrecover (e_crypto env) (e_recentAddresses env') (blk_header b1) = Inr a"
    and "CopyHeader (blk_header b1) = blk_header b1" "h_MixDigest (blk_header b1) = SportDigest"
    and "blk_transactions b1 = txs" "blk_uncles b1 = []" "h_TxHash (blk_header b1) = txSha txs"
    and "\<exists>x. ExtractSportExtra (blk_header b1) = Inr x \<and> CommittedSeals x = []"
    and "sb_proposedBlockHash sb2 = block_Hash (e_crypto env) b1"
proof -
  obtain n snap where p: "header_Uint64 header = Some n" "GetHeader chain (h_ParentHash header) (n - 1) = Some parent"
    "h_Number h = h_Number header" "h_ParentHash h = h_ParentHash header" "h_MixDigest h = SportDigest"
    "h_Difficulty h = Some defaultDifficulty" "h_Nonce h \<in> {0, nonceAuthVote}"
    "ExtractSportExtra h = Inr \<lparr>Fullnodes = snap_fullnodes snap, Seal = [], CommittedSeals = []\<rparr>"
    "h_Time h = prepareTime env (h_Time parent) (BlockPeriod (sb_config sb1))"
    using prep par(1) by (elim Prepare_cases) (auto simp: parent_of_def)
  note f = Finalize_block [OF fin]
  have d: "h_Difficulty h \<noteq> None" using p(6) by simp
  obtain num where num: "h_Number h = Some num" using p(1,3) by (auto simp: header_Uint64_def)
  note fb = f [OF d]
  have copy: "CopyHeader g = g" if "same_duties h g" for g
    using that num p(6) by (intro CopyHeader_same) (auto simp: same_duties_def)
  obtain sl h1 where s: "sign (Keccak256 (e_crypto env) (hash_Bytes (sigHash (e_crypto env) (blk_header b)))) = Inr sl"
    "writeSeal (blk_header b) sl = Inr h1" "b1 = WithSeal h1 b" "sb_proposedBlockHash sb2 = block_Hash (e_crypto env) b1"
    using seal copy [OF fb(1)] by (rule sealProposal_cases)
  have h1: "blk_header b1 = h1" "blk_transactions b1 = txs" "blk_uncles b1 = []" by (simp_all add: s(3) WithSeal_def fb(4,5))
  note w = writeSeal_frame [OF s(2)]
  show same: "same_duties h (blk_header b1)" using fb(1) w(1) by (simp add: h1 same_duties_trans)
  show "parent_of (e_crypto env) chain h parent" using par(1) p(3,4) by (simp add: parent_of_def header_Uint64_def)
  show "h_Time parent + BlockPeriod (sb_config sb1) \<le> h_Time h" using prepareTime_bound [OF par(2) now] p(9) by simp
  have "ExtractSportExtra (blk_header b) = ExtractSportExtra h" using fb(6) by (simp add: ExtractSportExtra_def)
  with w(4) p(8) have e: "ExtractSportExtra h1 = Inr \<lparr>Fullnodes = snap_fullnodes snap, Seal = sl, CommittedSeals = []\<rparr>" by auto
  then show "\<exists>x. ExtractSportExtra (blk_header b1) = Inr x \<and> CommittedSeals x = []" by (simp add: h1)
  show "checkStandalone env' (blk_header b1) = None"
    using same num p(5-7) time e w(2) fb(2) by (auto simp: checkStandalone_def same_duties_def h1 env'(1))
  have "e_recentAddresses env' (header_Hash (e_crypto env) h1) = None" using env'(2) by (simp add: block_Hash_def h1)
  from writeSeal_recovers [where recent = "e_recentAddresses env'" and cr = "e_crypto env", OF s(2) this signs [OF s(1)]]
  show "ecrecover (e_crypto env) (e_recentAddresses env') (blk_header b1) = Inr a" by (simp add: h1)
  show "CopyHeader (blk_header b1) = blk_header b1" by (rule copy [OF same])
  show "h_MixDigest (blk_header b1) = SportDigest" using same p(5) by (simp add: same_duties_def)
  show "h_TxHash (blk_header b1) = txSha txs" using w(3) fb(3) by (simp add: h1)
  show "blk_transactions b1 = txs" "blk_uncles b1 = []" by (simp_all add: h1)
  show "sb_proposedBlockHash sb2 = block_Hash (e_crypto env) b1" by (rule s(4))
qed

text \<open>
  C35. A block that a fullnode makes with Prepare, Finalize, Seal and, once a quorum of seals has
  been collected, Commit is accepted by every node that has the parent and its snapshot and whose
  clock has reached the time of the block: the proposal passes Verify, and the committed block goes
  back to the sealer with the hash of the proposal and passes VerifyHeader.
\<close>
theorem sealed_block_accepted:
  assumes "Prepare env chain state Intn header sb = Some (Inr h, sb1)"
    and "Finalize env txSha receiptSha CreateBloom IsEIP158 sb1 h statedb txs receipts = Some (b, statedb')"
    and "sealProposal env chain sign b sb1 = Some (Inr b1, sb2)"
    and "Commit env broadcaster sb2 b1 seals = Inr out"
    and "parent_of (e_crypto env) chain header parent" "0 \<le> sint (h_Time parent + BlockPeriod (sb_config sb1))"
    and "0 \<le> now_Unix env" "now_Unix env < 2 ^ 63"
    and "\<And>d sig. sign (Keccak256 (e_crypto env) d) = Inr sig \<Longrightarrow> GetSignatureAddress (e_crypto env) d sig = Inr a"
    and "e_crypto env' = e_crypto env" "e_recentAddresses env' (block_Hash (e_crypto env) b1) = None"
    and "BlockPeriod (sb_config sb') = BlockPeriod (sb_config sb1)"
    and "ready_for env' sb' h s" "a \<in> set (fullnodes (s_FullnodeSet s))"
    and "quorum_seals (e_crypto env) (s_FullnodeSet s) (block_Hash (e_crypto env) b1) seals"
    and "\<not> HasBadBlockProposal bad (block_Hash (e_crypto env) b1)"
  shows "(\<exists>sb''. Verify env' chain bad txSha b1 sb' = Some ((0, None), sb'')) \<and>
    (\<exists>b2 sb''. out = ToSealer b2 \<and> block_Hash (e_crypto env) b2 = block_Hash (e_crypto env) b1 \<and>
       VerifyHeader env' chain (block_Header b2) True sb' = Some (Inr (), sb''))"
proof -
  have time: "sint (h_Time h) \<le> now_Unix env'" using assms(13) by (simp add: ready_for_def)
  note q = proposal_facts [OF assms(1-3,5-11) time]
  note cr = assms(10)
  let ?h1 = "blk_header b1"
  obtain x where x: "ExtractSportExtra ?h1 = Inr x" "CommittedSeals x = []" using q(11) by blast
  have par: "parent_of (e_crypto env') chain ?h1 parent" using parent_of_same [OF q(1,2)] by (simp add: cr)
  have t: "h_Time parent + BlockPeriod (sb_config sb') \<le> h_Time ?h1" using q(1,3) assms(12) by (simp add: same_duties_def)
  have ready: "ready_for env' sb' ?h1 s" using assms(13) q(1) by (simp add: ready_for_def same_duties_def)
  have rec: "ecrecover (e_crypto env') (e_recentAddresses env') ?h1 = Inr a" using q(5) by (simp add: cr)
  have "\<exists>sb''. verifyHeader env' chain ?h1 [] sb' = Some (Inl errEmptyCommittedSeals, sb'')"
    by (rule unsealed_header_verifies [OF par t ready rec assms(14) q(4) x])
  then have "\<exists>sb''. Verify env' chain bad txSha b1 sb' = Some ((0, None), sb'')"
    using assms(16) q(8-10) by (auto simp: Verify_def VerifyHeader_def block_Header_def q(6) cr nilUncleHash_def)
  moreover obtain h2 where h2: "writeCommittedSeals ?h1 seals = Inr h2"
    using assms(4) by (auto simp: Commit_def block_Header_def q(6) split: sum.splits)
  moreover have hash: "header_Hash (e_crypto env) h2 = block_Hash (e_crypto env) b1"
    using writeCommittedSeals_hash [OF h2 q(7)] by (simp add: block_Hash_def)
  moreover have "out = ToSealer (WithSeal h2 b1)"
    using assms(4) h2 q(12) hash by (simp add: Commit_def block_Header_def q(6) Let_def WithSeal_def block_Hash_def)
  moreover have "\<exists>sb''. verifyHeader env' chain h2 [] sb' = Some (Inr (), sb'')"
    using committed_header_verifies [OF par t ready rec assms(14) q(4) h2] assms(15) by (simp add: block_Hash_def cr)
  moreover have "CopyHeader h2 = h2"
    using q(6) writeCommittedSeals_frame(1) [OF h2] by (simp add: CopyHeader_iff same_duties_def)
  ultimately show ?thesis by (auto simp: VerifyHeader_def block_Header_def WithSeal_def block_Hash_def)
qed

text \<open>The block a lone fullnode makes on the genesis block.\<close>

lemma demo_prepare:
  "\<exists>h. Prepare demo_env demo_chain (Inr demo_state) (\<lambda>n. 0) demo_child demo_cached = Some (Inr h, recents_Add demo_env demo_first demo_cached) \<and>
     h_Time h = 100 \<and> h_Coinbase h = 0"
proof -
  let ?h = "demo_child\<lparr>h_Nonce := 0, h_MixDigest := SportDigest, h_Difficulty := Some defaultDifficulty\<rparr>"
  have "EncodeToBytes sportExtra_item \<lparr>Fullnodes = [5], Seal = [], CommittedSeals = []\<rparr> \<noteq> None" by code_simp
  then obtain extra where e: "prepareExtra ?h (snap_fullnodes demo_first) = Inr extra"
    by (auto simp: prepareExtra_def Let_def snap_fullnodes_def demo_first_fullnodes exchange_sort_sort)
  have c: "sb_recents demo_cached (header_Hash demo_crypto demo_genesis) = Some demo_first" "sb_coreStarted (recents_Add demo_env demo_first demo_cached) = False"
    "sb_candidates (recents_Add demo_env demo_first demo_cached) = []" "sb_config (recents_Add demo_env demo_first demo_cached) = DefaultConfig"
    by (simp_all add: demo_cached_def demo_sport_def recents_Add_def)
  have t: "prepareTime demo_env (h_Time demo_genesis) (BlockPeriod DefaultConfig) = 100"
    by (simp add: prepareTime_def demo_genesis_def demo_header_def DefaultConfig_def)
  have p: "header_Uint64 demo_child = Some 1" "h_ParentHash demo_child = header_Hash demo_crypto demo_genesis"
    "GetHeader demo_chain (header_Hash demo_crypto demo_genesis) 0 = Some demo_genesis"
    by (simp_all add: demo_child_def header_Uint64_def demo_chain_def)
  have "header_Uint64 (demo_child\<lparr>h_Nonce := 0, h_MixDigest := SportDigest\<rparr>) = Some 1" using p(1) by (simp add: header_Uint64_def)
  then show ?thesis
    using e p(2,3) by (simp add: Prepare_def snapshot_cached [OF c(1)] fillHeader_def voteCandidates_def castCandidate_def c t Let_def) (simp add: demo_child_def)
qed

lemma demo_signature: "GetSignatureAddress demo_crypto d sig = Inr 5"
  by (simp add: GetSignatureAddress_def demo_crypto_def)

lemma demo_sealed:
  assumes "ExtractSportExtra h = Inr x" "Fullnodes x = [5]" "CommittedSeals x = []"
  shows "\<exists>h'. writeSeal h (replicate 65 7) = Inr h' \<and>
    ExtractSportExtra h' = Inr \<lparr>Fullnodes = [5], Seal = replicate 65 7, CommittedSeals = []\<rparr>"
proof -
  have x: "x\<lparr>Seal := replicate 65 7\<rparr> = \<lparr>Fullnodes = [5], Seal = replicate 65 7, CommittedSeals = []\<rparr>" using assms(2,3) by simp
  have "EncodeToBytes sportExtra_item \<lparr>Fullnodes = [5], Seal = replicate 65 7, CommittedSeals = []\<rparr> \<noteq> None" by code_simp
  then obtain h' where h': "writeSeal h (replicate 65 7) = Inr h'" using assms(1) x by (auto simp: writeSeal_def SportExtraSeal_def)
  from writeSeal_frame(4) [OF h'] h' assms(1) x show ?thesis by auto
qed

lemma demo_commit_seals:
  assumes "ExtractSportExtra h = Inr \<lparr>Fullnodes = [5], Seal = replicate 65 7, CommittedSeals = []\<rparr>"
  shows "\<exists>h'. writeCommittedSeals h [replicate 65 7] = Inr h'"
proof -
  have "EncodeToBytes sportExtra_item \<lparr>Fullnodes = [5], Seal = replicate 65 7, CommittedSeals = [replicate 65 7]\<rparr> \<noteq> None" by code_simp
  then show ?thesis using assms by (auto simp: writeCommittedSeals_def SportExtraSeal_def)
qed

lemma demo_finalize:
  assumes "h_Number h = Some 1" "h_Coinbase h = 0"
  shows "\<exists>b statedb'. Finalize demo_env (\<lambda>_ :: nat list. 0) (\<lambda>_ :: nat list. 0) (\<lambda>_. 0) (\<lambda>_. True) sb h demo_state [] [] = Some (b, statedb')"
  using assms by (simp add: Finalize_def AccumulateRewards_def IntermediateRoot_def Finalise_def demo_state_def newJournal_def)

lemma demo_sealProposal:
  assumes "h_Number (blk_header b) = Some 1" "CopyHeader (blk_header b) = blk_header b" "h_ParentHash (blk_header b) = header_Hash demo_crypto demo_genesis"
    and "writeSeal (blk_header b) (replicate 65 7) = Inr h1" "blk_transactions b = []" "CopyHeader h1 = h1" "h_Number h1 = Some 1"
    and "sb_recents sb (header_Hash demo_crypto demo_genesis) = Some demo_first" "sb_address sb = 5" "sb_config sb = DefaultConfig"
  shows "\<exists>sb2. sealProposal demo_env demo_chain (\<lambda>_. Inr (replicate 65 7)) b sb = Some (Inr (WithSeal h1 b), sb2)"
proof -
  have "header_Uint64 (blk_header b) = Some 1" "GetHeader demo_chain (header_Hash demo_crypto demo_genesis) 0 = Some demo_genesis"
    using assms(1) by (simp_all add: header_Uint64_def demo_chain_def)
  moreover have "GetByAddress 5 (s_FullnodeSet demo_first) \<noteq> None" by (simp add: demo_first_fullnodes del: not_None_eq)
  moreover have "sb_address (recents_Add demo_env demo_first sb) = 5" "sb_config (recents_Add demo_env demo_first sb) = DefaultConfig"
    using assms(9,10) by (simp_all add: recents_Add_def)
  ultimately show ?thesis using assms
    by (auto simp: sealProposal_def block_Header_def snapshot_cached updateBlock_def Sign_def Let_def WithSeal_def DefaultConfig_def)
qed

theorem sealed_block_accepted_witness:
  "\<exists>h sb1 b (b1 :: nat block) sb2 b2 sb''.
     Prepare demo_env demo_chain (Inr demo_state) (\<lambda>n. 0) demo_child demo_cached = Some (Inr h, sb1) \<and>
     sealProposal demo_env demo_chain (\<lambda>_. Inr (replicate 65 7)) b sb1 = Some (Inr b1, sb2) \<and>
     Commit demo_env True sb2 b1 [replicate 65 7] = Inr (ToSealer b2) \<and>
     VerifyHeader demo_env demo_chain (block_Header b2) True demo_cached = Some (Inr (), sb'')"
proof -
  let ?sb = "recents_Add demo_env demo_first demo_cached"
  obtain h where h: "Prepare demo_env demo_chain (Inr demo_state) (\<lambda>n. 0) demo_child demo_cached = Some (Inr h, ?sb)" "h_Time h = 100" "h_Coinbase h = 0"
    using demo_prepare by blast
  have c: "sb_recents demo_cached (header_Hash demo_crypto demo_genesis) = Some demo_first" "sb_config ?sb = DefaultConfig" "sb_address ?sb = 5"
    "sb_recents ?sb (header_Hash demo_crypto demo_genesis) = Some demo_first" "sb_config demo_cached = DefaultConfig"
    by (simp_all add: demo_cached_def demo_sport_def recents_Add_def demo_first_fullnodes)
  have p: "h_ParentHash demo_child = header_Hash demo_crypto demo_genesis" "header_Uint64 demo_child = Some 1" "h_Number demo_child = Some 1"
    by (simp_all add: demo_child_def header_Uint64_def)
  obtain x where hf: "h_Number h = Some 1" "h_ParentHash h = header_Hash demo_crypto demo_genesis" "h_Difficulty h = Some defaultDifficulty"
    "ExtractSportExtra h = Inr x" "Fullnodes x = [5]" "CommittedSeals x = []"
    using h(1) p by (elim Prepare_cases) (auto simp: snapshot_cached [OF c(1)] snap_fullnodes_def demo_first_fullnodes exchange_sort_sort)
  obtain b :: "nat block" and st where fin: "Finalize demo_env (\<lambda>_. 0) (\<lambda>_ :: nat list. 0) (\<lambda>_. 0) (\<lambda>_. True) ?sb h demo_state [] [] = Some (b, st)"
    using demo_finalize [OF hf(1) h(3)] by blast
  note f = Finalize_block [OF fin] and d = hf(3)
  have fb: "same_duties h (blk_header b)" "blk_transactions b = []" "ExtractSportExtra (blk_header b) = Inr x"
    using f hf(4) Extract_cong [of "blk_header b" h] by (simp_all add: d)
  obtain h1 where h1: "writeSeal (blk_header b) (replicate 65 7) = Inr h1"
    "ExtractSportExtra h1 = Inr \<lparr>Fullnodes = [5], Seal = replicate 65 7, CommittedSeals = []\<rparr>"
    using demo_sealed [OF fb(3) hf(5,6)] by blast
  have duties: "h_Number (blk_header b) = Some 1" "h_Number h1 = Some 1" "h_ParentHash (blk_header b) = header_Hash demo_crypto demo_genesis"
    "CopyHeader (blk_header b) = blk_header b" "CopyHeader h1 = h1"
    using fb(1) writeSeal_frame(1) [OF h1(1)] hf by (simp_all add: same_duties_def CopyHeader_iff)
  obtain sb2 where s: "sealProposal demo_env demo_chain (\<lambda>_. Inr (replicate 65 7)) b ?sb = Some (Inr (WithSeal h1 b), sb2)"
    using demo_sealProposal [OF duties(1,4,3) h1(1) fb(2) duties(5,2) c(4,3,2)] by blast
  obtain h2 where "writeCommittedSeals h1 [replicate 65 7] = Inr h2" using demo_commit_seals [OF h1(2)] by blast
  then have "\<exists>out. Commit demo_env True sb2 (WithSeal h1 b) [replicate 65 7] = Inr out"
    using duties(5) by (simp add: Commit_def block_Header_def WithSeal_def Let_def)
  then obtain out where com: "Commit demo_env True sb2 (WithSeal h1 b) [replicate 65 7] = Inr out" ..
  have time: "0 \<le> sint (h_Time demo_genesis + BlockPeriod (sb_config ?sb))"
    by (simp add: c(2)) (simp add: demo_genesis_def demo_header_def DefaultConfig_def)
  have "(\<exists>sb''. Verify demo_env demo_chain None (\<lambda>_. 0) (WithSeal h1 b) demo_cached = Some ((0, None), sb'')) \<and>
    (\<exists>b2 sb''. out = ToSealer b2 \<and> block_Hash (e_crypto demo_env) b2 = block_Hash (e_crypto demo_env) (WithSeal h1 b) \<and>
       VerifyHeader demo_env demo_chain (block_Header b2) True demo_cached = Some (Inr (), sb''))"
    by (rule sealed_block_accepted [where s = demo_first and a = 5, OF h(1) fin s com _ time])
      (simp_all add: hf(2) h(2) c(2,5) demo_child_parent demo_quorum demo_ready demo_first_fullnodes HasBadBlockProposal_def demo_signature)
  with h(1) s com show ?thesis by blast
qed

end
