(* ===== verification/Gossip.thy ===== *)
theory Gossip
  imports Engine
begin

text \<open>
  How consensus messages travel between the nodes (\<open>consensus/sport/backend/backend_impl.go\<close>,
  \<open>backend_handler_sport.go\<close>): a node remembers which messages it knows and which it believes a peer
  to know. The two memories are ARC caches: what is left of one after an addition is an argument.
\<close>

subsection \<open>State\<close>

record arc =
  arc_known :: "hash set \<Rightarrow> hash set"
  arc_peers :: "(address \<Rightarrow> hash set option) \<Rightarrow> address \<Rightarrow> hash set option"
  arc_messages :: "hash set \<Rightarrow> hash set"

record gossip =
  knownMessages :: "hash set"
  recentMessages :: "address \<Rightarrow> hash set option"

definition smilobftMsg :: nat where
  "smilobftMsg = 0x11"

definition NewBlockMsg :: nat where
  "NewBlockMsg = 0x07"

definition RLPHash :: "crypto \<Rightarrow> bytes \<Rightarrow> hash" where
  "RLPHash cr payload = rlpHash cr bytes_item payload"

definition markKnown :: "arc \<Rightarrow> hash \<Rightarrow> gossip \<Rightarrow> gossip" where
  "markKnown ev hash g = g\<lparr>knownMessages := arc_known ev (insert hash (knownMessages g))\<rparr>"


subsection \<open>Sending\<close>

text \<open>One round of the loop over the peers: the peer is skipped when it had the message.\<close>

definition gossipTo :: "arc \<Rightarrow> hash \<Rightarrow> address \<Rightarrow> address list \<times> gossip \<Rightarrow> address list \<times> gossip" where
  "gossipTo ev hash addr st =
     (case st of (sent, g) \<Rightarrow>
        let m = (case recentMessages g addr of Some m \<Rightarrow> m | None \<Rightarrow> {})
        in if hash \<in> m then (sent, g)
           else (sent @ [addr], g\<lparr>recentMessages := arc_peers ev ((recentMessages g)(addr \<mapsto> arc_messages ev (insert hash m)))\<rparr>))"

text \<open>\<open>FindPeers\<close> gives the connected peers among the targets; the result lists the peers that are sent the payload.\<close>

definition Gossip ::
    "crypto \<Rightarrow> arc \<Rightarrow> (address list \<Rightarrow> address list) option \<Rightarrow> address \<Rightarrow> fullnodeSet \<Rightarrow> bytes \<Rightarrow> gossip \<Rightarrow> address list \<times> gossip" where
  "Gossip cr ev FindPeers self fs payload g =
     (let hash = RLPHash cr payload;
          g = markKnown ev hash g;
          targets = filter (\<lambda>a. a \<noteq> self) (fullnodes fs)
      in case FindPeers of None \<Rightarrow> ([], g)
         | Some peers \<Rightarrow> if targets = [] then ([], g) else fold (gossipTo ev hash) (peers targets) ([], g))"

text \<open>\<open>Broadcast\<close> also posts the message to the node itself.\<close>

definition Broadcast ::
    "crypto \<Rightarrow> arc \<Rightarrow> (address list \<Rightarrow> address list) option \<Rightarrow> address \<Rightarrow> fullnodeSet \<Rightarrow> bytes \<Rightarrow> gossip \<Rightarrow>
     (address list \<times> bytes) \<times> gossip" where
  "Broadcast cr ev FindPeers self fs payload g =
     (case Gossip cr ev FindPeers self fs payload g of (sent, g) \<Rightarrow> ((sent, payload), g))"


subsection \<open>Receiving\<close>

definition markPeer :: "arc \<Rightarrow> address \<Rightarrow> hash \<Rightarrow> gossip \<Rightarrow> gossip" where
  "markPeer ev addr hash g =
     (case recentMessages g addr of
        Some m \<Rightarrow> g\<lparr>recentMessages := (recentMessages g)(addr \<mapsto> arc_messages ev (insert hash m))\<rparr>
      | None \<Rightarrow>
          let r = arc_peers ev ((recentMessages g)(addr \<mapsto> {}))
          in g\<lparr>recentMessages := (case r addr of None \<Rightarrow> r | Some m \<Rightarrow> r(addr \<mapsto> arc_messages ev (insert hash m)))\<rparr>)"

text \<open>
  \<open>HandleMsg\<close> for the consensus message code: \<open>data\<close> is the decoded payload, the result whether the
  message is done with, the error, and the payload posted to the core.
\<close>

definition handleConsensusMsg ::
    "crypto \<Rightarrow> arc \<Rightarrow> bool \<Rightarrow> address \<Rightarrow> bytes option \<Rightarrow> gossip \<Rightarrow> (bool \<times> error option \<times> bytes option) \<times> gossip" where
  "handleConsensusMsg cr ev coreStarted addr data g =
     (if \<not> coreStarted then ((True, Some ErrStoppedEngine, None), g)
      else case data of None \<Rightarrow> ((True, Some errDecodeFailed, None), g)
        | Some data \<Rightarrow>
            let hash = RLPHash cr data;
                g = markPeer ev addr hash g
            in if hash \<in> knownMessages g then ((True, None, None), g)
               else ((True, None, Some data), markKnown ev hash g))"

text \<open>
  The branch for an announced block: \<open>block\<close> is the hash and whether the block is a Sport block, when
  it decodes. The speaker swallows its own proposal.
\<close>

definition handleNewBlockMsg :: "bool \<Rightarrow> (hash \<Rightarrow> bool) \<Rightarrow> (bool \<times> hash) option \<Rightarrow> bool" where
  "handleNewBlockMsg isSpeaker IsCurrentBlockProposal block =
     (isSpeaker \<and> (case block of None \<Rightarrow> False | Some (sport, hash) \<Rightarrow> sport \<and> IsCurrentBlockProposal hash))"


subsection \<open>No message twice\<close>

definition believes :: "gossip \<Rightarrow> address \<Rightarrow> hash \<Rightarrow> bool" where
  "believes g a h \<longleftrightarrow> (\<exists>m. recentMessages g a = Some m \<and> h \<in> m)"

lemma gossipTo_sent: "fst (gossipTo ev h a (sent, g)) = (if believes g a h then sent else sent @ [a])"
  by (auto simp: gossipTo_def believes_def Let_def split: option.split)

lemma gossip_fold_distinct:
  assumes "distinct (sent @ peers)"
  shows "distinct (fst (fold (gossipTo ev h) peers (sent, g))) \<and> set (fst (fold (gossipTo ev h) peers (sent, g))) \<subseteq> set (sent @ peers)"
  using assms
proof (induction peers arbitrary: sent g)
  case (Cons a peers)
  obtain sent1 g1 where s: "gossipTo ev h a (sent, g) = (sent1, g1)" by fastforce
  then have "sent1 = sent \<or> sent1 = sent @ [a]" using gossipTo_sent [of ev h a sent g] by (auto split: if_splits)
  then show ?case using Cons.IH [of sent1 g1] Cons.prems s by auto
qed simp

text \<open>One call of \<open>Gossip\<close> sends to each peer at most once, never to the node itself, and only to fullnodes.\<close>

lemma Gossip_targets:
  assumes "\<And>as. distinct as \<Longrightarrow> distinct (peersOf as) \<and> set (peersOf as) \<subseteq> set as" "wf_set cr fs"
  shows "distinct (fst (Gossip cr ev (Some peersOf) self fs payload g)) \<and>
    set (fst (Gossip cr ev (Some peersOf) self fs payload g)) \<subseteq> set (fullnodes fs) - {self}"
proof -
  let ?t = "filter (\<lambda>a. a \<noteq> self) (fullnodes fs)"
  have t: "distinct (peersOf ?t)" "set (peersOf ?t) \<subseteq> set ?t" using assms(1) [of ?t] assms(2) by (auto simp: wf_set_def)
  show ?thesis
    using gossip_fold_distinct [of "[]" "peersOf ?t" ev "RLPHash cr payload" "markKnown ev (RLPHash cr payload) g"] t
    by (auto simp: Gossip_def Let_def)
qed

text \<open>A message that has been posted is not posted again while the cache keeps it.\<close>

lemma handleConsensusMsg_once:
  assumes "handleConsensusMsg cr ev started a (Some data) g = ((ok, None, Some data'), g')"
  shows "data' = data \<and> (RLPHash cr data \<in> knownMessages g' \<longrightarrow>
    (\<exists>g''. handleConsensusMsg cr ev started b (Some data) g' = ((True, None, None), g'')))"
proof -
  have mp: "knownMessages (markPeer ev b' h g1) = knownMessages g1" for b' h g1
    by (auto simp: markPeer_def Let_def split: option.split)
  show ?thesis using assms by (auto simp: handleConsensusMsg_def Let_def mp split: if_splits)
qed

end
