(* ===== verification/State_Final.thy ===== *)
theory State_Final
  imports State_Revert
begin

text \<open>
  The end of a transaction (\<open>Finalise\<close> of \<open>core/state/statedb.go\<close>, \<open>updateTrie\<close> of
  \<open>core/state/state_object.go\<close>): what the state shows of an account is what its tries hold afterwards.
\<close>

subsection \<open>Storage slots in a trie\<close>

lemma be_val_dropWhile: "be_val (dropWhile (\<lambda>b. b = 0) bs) = be_val bs"
proof -
  have z: "be_val (0 # bs) = be_val bs" for bs by (simp add: be_val_def)
  show ?thesis by (induction bs) (simp_all add: z)
qed

lemma slot_roundtrip:
  assumes "v \<noteq> 0"
  shows "\<exists>enc. EncodeToBytes bytes_item (dropWhile (\<lambda>b. b = 0) (hash_Bytes v)) = Some enc \<and> enc \<noteq> [] \<and> slot_value enc = v"
proof -
  let ?b = "dropWhile (\<lambda>b. b = 0) (hash_Bytes v)"
  have len: "length ?b \<le> 32" using length_dropWhile_le [of _ "hash_Bytes v"] by simp
  have e: "EncodeToBytes bytes_item ?b = Some (rlp_string ?b)"
    using len by (simp add: EncodeToBytes_def bytes_item_def slice_len_ok_def Let_def rlp_string_def rlp_head_def)
  obtain k where "rlp_split (rlp_string ?b @ []) = Some (k, ?b, [])" using rlp_split_string [of ?b "[]"] len by auto
  moreover have "rlp_string ?b \<noteq> []" using rlp_encode_nonempty [of "Str ?b"] by simp
  ultimately have "rlp_string ?b \<noteq> []" "slot_value (rlp_string ?b) = BytesToHash ?b" by (simp_all add: slot_value_def)
  then show ?thesis using e be_val_dropWhile [of "hash_Bytes v"] by (simp add: BytesToHash_def)
qed


definition trie_slot :: "trie \<Rightarrow> hash \<Rightarrow> hash" where
  "trie_slot tr k = slot_value (TryGet (hash_Bytes k) tr)"

text \<open>The cache of original values agrees with the trie.\<close>

definition origin_ok :: "Storage \<Rightarrow> trie \<Rightarrow> bool" where
  "origin_ok origin tr \<longleftrightarrow> (\<forall>k v. map_of origin k = Some v \<longrightarrow> trie_slot tr k = v)"

lemma updateSlot_spec:
  assumes "origin_ok origin tr" "map_of origin k \<noteq> None" "updateSlot (k, v) (origin, tr) = (origin', tr')"
  shows "origin_ok origin' tr'" "trie_slot tr' = (trie_slot tr)(k := v)" "dom (map_of origin) \<subseteq> dom (map_of origin')"
proof -
  obtain u where u: "map_of origin k = Some u" using assms(2) by auto
  have "origin_ok origin' tr' \<and> trie_slot tr' = (trie_slot tr)(k := v) \<and> dom (map_of origin) \<subseteq> dom (map_of origin')"
  proof (cases "v = u")
    case True
    then have "origin' = origin" "tr' = tr" using u assms(3) by (simp_all add: updateSlot_def storage_get_def)
    then show ?thesis using assms(1) u True by (simp add: origin_ok_def fun_upd_idem)
  next
    case False
    then have o': "origin' = AList.update k v origin" and t': "tr' = (if v = 0 then TryDelete (hash_Bytes k) tr
        else TryUpdate (hash_Bytes k) (case EncodeToBytes bytes_item (dropWhile (\<lambda>b. b = 0) (hash_Bytes v)) of None \<Rightarrow> [] | Some v \<Rightarrow> v) tr)"
      using u assms(3) by (auto simp: updateSlot_def storage_get_def)
    have "trie_slot tr' y = (if y = k then v else trie_slot tr y)" for y
    proof (cases "v = 0")
      case True
      then show ?thesis by (simp add: t' trie_slot_def) (simp add: slot_value_def)
    next
      case False
      then show ?thesis using slot_roundtrip [OF False] by (auto simp: t' trie_slot_def)
    qed
    then show ?thesis using assms(1) by (auto simp: o' origin_ok_def map_of_update fun_eq_iff)
  qed
  then show "origin_ok origin' tr'" "trie_slot tr' = (trie_slot tr)(k := v)" "dom (map_of origin) \<subseteq> dom (map_of origin')"
    by blast+
qed

lemma fold_updateSlot:
  assumes "origin_ok origin tr" "distinct (map fst kvs)" "fst ` set kvs \<subseteq> dom (map_of origin)"
    and "fold updateSlot kvs (origin, tr) = (origin', tr')"
  shows "origin_ok origin' tr' \<and> trie_slot tr' k = (case map_of kvs k of Some v \<Rightarrow> v | None \<Rightarrow> trie_slot tr k)"
  using assms
proof (induction kvs arbitrary: origin tr)
  case Nil
  then show ?case by simp
next
  case (Cons kv kvs)
  obtain k' v where kv: "kv = (k', v)" by fastforce
  obtain o1 t1 where u1: "updateSlot (k', v) (origin, tr) = (o1, t1)" by fastforce
  have "map_of origin k' \<noteq> None" using Cons.prems(3) kv by auto
  note u = updateSlot_spec [OF Cons.prems(1) this u1]
  have "origin_ok origin' tr' \<and> trie_slot tr' k = (case map_of kvs k of Some v \<Rightarrow> v | None \<Rightarrow> trie_slot t1 k)"
  proof (rule Cons.IH [OF u(1)])
    show "fst ` set kvs \<subseteq> dom (map_of o1)" by (rule subset_trans [OF _ u(3)]) (use Cons.prems(3) in simp)
  qed (use Cons.prems(2,4) kv u1 in auto)
  moreover have "map_of kvs k' = None" using Cons.prems(2) kv by (simp add: map_of_eq_None_iff)
  ultimately show ?case using u(2) kv by (auto split: option.split)
qed


definition storage_ok :: "stateDatabase \<Rightarrow> stateObject \<Rightarrow> bool" where
  "storage_ok db obj \<longleftrightarrow>
     distinct (map fst (dirtyStorage obj)) \<and> fst ` set (dirtyStorage obj) \<subseteq> dom (map_of (originStorage obj)) \<and>
     (\<forall>tr. fst (getTrie db obj) = Some tr \<longrightarrow> origin_ok (originStorage obj) tr)"

lemma committed_slot:
  assumes "storage_ok db obj" "fst (getTrie db obj) = Some tr"
  shows "committed db obj k = trie_slot tr k"
  using assms by (auto simp: storage_ok_def origin_ok_def committed_def trie_slot_def split: option.split)

text \<open>After \<open>updateRoot\<close> the storage trie holds every slot as the object showed it, and the object still shows it.\<close>

lemma updateRoot_spec:
  assumes "db_ok db" "storage_ok db obj"
  obtains obj' tr where "updateRoot db obj = Some obj'" "so_trie obj' = Some tr"
    "so_data obj' = (so_data obj)\<lparr>acc_Root := trie_Hash db tr\<rparr>" "so_address obj' = so_address obj" "deleted obj' = deleted obj"
    "\<And>k. trie_slot tr k = v_state (obj_view db obj) k" "v_state (obj_view db obj') = v_state (obj_view db obj)"
    "v_committed (obj_view db obj') = v_state (obj_view db obj)" "storage_ok db obj'"
proof -
  obtain tr0 where t0: "fst (getTrie db obj) = Some tr0" using getTrie_total [OF assms(1)] .
  let ?o1 = "snd (getTrie db obj)"
  obtain origin tr where f: "fold updateSlot (dirtyStorage obj) (originStorage obj, tr0) = (origin, tr)" by fastforce
  have u: "origin_ok origin tr" "\<And>k. trie_slot tr k = (case map_of (dirtyStorage obj) k of Some v \<Rightarrow> v | None \<Rightarrow> trie_slot tr0 k)"
    using fold_updateSlot [OF _ _ _ f] assms(2) t0 by (auto simp: storage_ok_def)
  have slots: "trie_slot tr k = v_state (obj_view db obj) k" for k
    by (simp add: u(2) obj_view_def committed_slot [OF assms(2) t0] split: option.split)
  define obj' where "obj' = ?o1\<lparr>dirtyStorage := [], originStorage := origin, so_trie := Some tr,
    so_data := (so_data obj)\<lparr>acc_Root := trie_Hash db tr\<rparr>\<rparr>"
  have "updateTrie db obj = Some (?o1\<lparr>dirtyStorage := [], originStorage := origin, so_trie := Some tr\<rparr>)"
  proof (cases "dirtyStorage obj = []")
    case True
    then have "origin = originStorage ?o1" "dirtyStorage ?o1 = []" "so_trie ?o1 = Some tr" using f t0 by simp_all
    then have "?o1\<lparr>dirtyStorage := [], originStorage := origin, so_trie := Some tr\<rparr> = ?o1" by simp
    then show ?thesis using True by (simp add: updateTrie_def case_prod_beta)
  next
    case False
    then show ?thesis using f t0 by (simp add: updateTrie_def case_prod_beta)
  qed
  then have r: "updateRoot db obj = Some obj'" by (simp add: updateRoot_def obj'_def)
  have t: "fst (getTrie db obj') = Some tr" by (simp add: fst_getTrie obj'_def)
  have ok: "storage_ok db obj'" using u(1) t by (simp add: storage_ok_def) (simp add: obj'_def)
  have c: "committed db obj' = v_state (obj_view db obj)" using committed_slot [OF ok t] slots by (simp add: fun_eq_iff)
  have d: "dirtyStorage obj' = []" by (simp add: obj'_def)
  have "v_state (obj_view db obj') = committed db obj'" "v_committed (obj_view db obj') = committed db obj'"
    by (simp_all add: obj_view_def [of db obj'] d)
  then show thesis
    by (intro that [OF r, of tr]) (simp_all only: c ok slots, simp_all add: obj'_def)
qed



subsection \<open>Accounts in the account trie\<close>

interpretation account_codec: item_codec account_item item_account
proof
  fix x i
  assume "account_item x = Some i"
  then show "item_account i = Some x"
    by (auto simp: account_item_def item_account_def uint64_codec.of_to bigInt_codec.of_to hash_codec.of_to bytes_codec.of_to
        bind_eq_Some_conv)
next
  fix i x
  assume "item_account i = Some x"
  then show "account_item x = Some i"
    by (auto simp: account_item_def item_account_def uint64_codec.to_of bigInt_codec.to_of hash_codec.to_of bytes_codec.to_of
        bind_eq_Some_conv split: rlp.splits list.splits)
qed

lemma addr_key_inject: "be_fixed 20 (unat a) = be_fixed 20 (unat b) \<longleftrightarrow> a = (b :: address)"
proof
  assume "be_fixed 20 (unat a) = be_fixed 20 (unat b)"
  moreover have "unat c < 256 ^ 20" for c :: address using unsigned_less [where 'a = nat and w = c] by simp
  ultimately have "unat a = unat b" by (metis be_val_be_fixed)
  then show "a = b" by (rule unsigned_word_eqI)
qed simp

lemma EncodeToBytes_nonempty: "EncodeToBytes f x = Some b \<Longrightarrow> b \<noteq> []"
  by (auto simp: EncodeToBytes_def Let_def split: option.splits if_splits)

text \<open>\<open>s'\<close> holds what the object \<open>obj\<close> of the address \<open>a\<close> showed before it was finalised.\<close>

definition settled :: "bool \<Rightarrow> stateObject \<Rightarrow> address \<Rightarrow> StateDB \<Rightarrow> bool" where
  "settled del obj a s' \<longleftrightarrow>
     (if suicided obj \<or> del \<and> so_empty (sdb_db s') obj then obj_at s' a = None \<and> load_account a s' = None
      else \<exists>obj' tr. obj_at s' a = Some obj' \<and> so_trie obj' = Some tr \<and>
             so_data obj' = (so_data obj)\<lparr>acc_Root := trie_Hash (sdb_db s') tr\<rparr> \<and>
             (\<forall>k. trie_slot tr k = v_state (obj_view (sdb_db s') obj) k) \<and>
             v_state (obj_view (sdb_db s') obj') = v_state (obj_view (sdb_db s') obj) \<and>
             load_account a s' = Some (newObject (sdb_db s') a (Some (so_data obj'))))"

text \<open>What another address sees of a step of the loop.\<close>

definition elsewhere :: "address \<Rightarrow> StateDB \<Rightarrow> StateDB \<Rightarrow> bool" where
  "elsewhere b s s' \<longleftrightarrow>
     sdb_db s' = sdb_db s \<and> stateObjects s' b = stateObjects s b \<and>
     TryGet (be_fixed 20 (unat b)) (sdb_trie s') = TryGet (be_fixed 20 (unat b)) (sdb_trie s)"

lemma elsewhere_load: "elsewhere b s s' \<Longrightarrow> load_account b s' = load_account b s"
  unfolding elsewhere_def load_account_def
  by (elim conjE, erule arg_cong2 [where f = "\<lambda>d enc. let enc = enc in if enc = [] then None
    else map_option (\<lambda>data. newObject d b (Some data)) (DecodeBytes item_account enc)"])

lemma elsewhere_obj: "elsewhere b s s' \<Longrightarrow> obj_at s' b = obj_at s b"
  using elsewhere_load [of b s s'] by (cases "stateObjects s b") (auto simp: elsewhere_def obj_at_live obj_at_load)

lemma elsewhere_settled: "elsewhere b s s' \<Longrightarrow> settled del obj b s \<Longrightarrow> settled del obj b s'"
  unfolding settled_def by (simp only: elsewhere_load [of b s s'] elsewhere_obj [of b s s'] elsewhere_def [THEN iffD1, THEN conjunct1])

lemma elsewhere_trans: "elsewhere b s t \<Longrightarrow> elsewhere b t u \<Longrightarrow> elsewhere b s u"
  by (simp add: elsewhere_def)

lemma deleteStateObject_settles:
  assumes "so_address obj = a" "suicided obj \<or> del \<and> so_empty (sdb_db s) obj"
  shows "settled del obj a (deleteStateObject obj s) \<and> (\<forall>b. b \<noteq> a \<longrightarrow> elsewhere b s (deleteStateObject obj s))"
proof -
  have "load_account a (deleteStateObject obj s) = None"
    using assms(1) by (simp add: load_account_def deleteStateObject_def)
  moreover have "obj_at (deleteStateObject obj s) a = None"
    using assms(1) by (simp add: obj_at_live deleteStateObject_def setStateObject_def)
  moreover have "sdb_db (deleteStateObject obj s) = sdb_db s" by (simp add: deleteStateObject_def setStateObject_def)
  ultimately show ?thesis
    using assms by (auto simp: settled_def elsewhere_def) (auto simp: deleteStateObject_def setStateObject_def addr_key_inject)
qed

lemma updateStateObject_settles:
  assumes "db_ok (sdb_db s)" "storage_ok (sdb_db s) obj" "so_address obj = a" "\<not> deleted obj"
    and "\<not> (suicided obj \<or> del \<and> so_empty (sdb_db s) obj)"
    and "updateRoot (sdb_db s) obj = Some obj'" "updateStateObject obj' (setStateObject obj' s) = Some s'"
  shows "settled del obj a s' \<and> (\<forall>b. b \<noteq> a \<longrightarrow> elsewhere b s s')"
proof -
  obtain obj1 tr where "updateRoot (sdb_db s) obj = Some obj1" and u: "so_trie obj1 = Some tr"
    "so_data obj1 = (so_data obj)\<lparr>acc_Root := trie_Hash (sdb_db s) tr\<rparr>" "so_address obj1 = so_address obj" "deleted obj1 = deleted obj"
    "\<And>k. trie_slot tr k = v_state (obj_view (sdb_db s) obj) k" "v_state (obj_view (sdb_db s) obj1) = v_state (obj_view (sdb_db s) obj)"
    using updateRoot_spec [OF assms(1,2)] by metis
  then have "obj1 = obj'" using assms(6) by simp
  obtain enc where enc: "EncodeToBytes account_item (so_data obj') = Some enc"
    and s': "s' = (setStateObject obj' s)\<lparr>sdb_trie := TryUpdate (be_fixed 20 (unat a)) enc (sdb_trie s)\<rparr>"
    using assms(3,7) u(3) \<open>obj1 = obj'\<close> by (auto simp: updateStateObject_def bind_eq_Some_conv setStateObject_def)
  have db: "sdb_db s' = sdb_db s" by (simp add: s' setStateObject_def)
  have dec: "DecodeBytes item_account enc = Some (so_data obj')"
    using account_codec.bytes.dec_enc [OF enc] .
  have "load_account a s' = Some (newObject (sdb_db s) a (Some (so_data obj')))"
    using dec EncodeToBytes_nonempty [OF enc] by (simp add: load_account_def s' setStateObject_def)
  moreover have "obj_at s' a = Some obj'"
    using u(3,4) assms(3,4) \<open>obj1 = obj'\<close> by (simp add: obj_at_live s' setStateObject_def)
  ultimately have "settled del obj a s'"
    using assms(5) u \<open>obj1 = obj'\<close> by (simp add: settled_def db)
  moreover have "elsewhere b s s'" if "b \<noteq> a" for b
    using that u(3) assms(3) \<open>obj1 = obj'\<close> by (simp add: elsewhere_def s' setStateObject_def addr_key_inject)
  ultimately show ?thesis by blast
qed

text \<open>The objects that the loop of \<open>Finalise\<close> meets.\<close>

definition final_ok :: "stateDatabase \<Rightarrow> address \<Rightarrow> stateObject \<Rightarrow> bool" where
  "final_ok db a obj \<longleftrightarrow> so_address obj = a \<and> \<not> deleted obj \<and> storage_ok db obj"

lemma settled_dirty: "settled del obj a s \<Longrightarrow> settled del obj a (s\<lparr>stateObjectsDirty := ds\<rparr>)"
  by (rule elsewhere_settled [of a s]) (simp_all add: elsewhere_def)

lemma finaliseObject_settles:
  assumes "db_ok (sdb_db s)" "stateObjects s a = Some obj" "final_ok (sdb_db s) a obj" "finaliseObject del a s = Some s'"
  shows "settled del obj a s' \<and> (\<forall>b. b \<noteq> a \<longrightarrow> elsewhere b s s')"
proof (cases "suicided obj \<or> del \<and> so_empty (sdb_db s) obj")
  case True
  let ?t = "deleteStateObject obj s"
  have "s' = ?t\<lparr>stateObjectsDirty := List.insert a (stateObjectsDirty ?t)\<rparr>" using assms(2,4) True by (simp add: finaliseObject_def)
  then show ?thesis
    using deleteStateObject_settles [of obj a del s] True assms(3) settled_dirty by (auto simp: final_ok_def elsewhere_def)
next
  case False
  obtain obj' t where "updateRoot (sdb_db s) obj = Some obj'" "updateStateObject obj' (setStateObject obj' s) = Some t"
    "s' = t\<lparr>stateObjectsDirty := List.insert a (stateObjectsDirty t)\<rparr>"
    using assms(2,4) False by (auto simp: finaliseObject_def bind_eq_Some_conv)
  then show ?thesis
    using updateStateObject_settles [OF assms(1) _ _ _ False, of a obj' t] assms(3) settled_dirty by (auto simp: final_ok_def elsewhere_def)
qed

lemma finaliseObjects_settle:
  assumes "db_ok (sdb_db s)" "distinct as" "finaliseObjects del as s = Some s'"
    and "\<And>a obj. a \<in> set as \<Longrightarrow> stateObjects s a = Some obj \<Longrightarrow> final_ok (sdb_db s) a obj"
  shows "(\<forall>a obj. a \<in> set as \<longrightarrow> stateObjects s a = Some obj \<longrightarrow> settled del obj a s') \<and>
         (\<forall>b. b \<notin> set as \<or> stateObjects s b = None \<longrightarrow> elsewhere b s s')"
  using assms
proof (induction as arbitrary: s)
  case Nil
  then show ?case by (simp add: elsewhere_def)
next
  case (Cons a as)
  obtain t where t: "finaliseObject del a s = Some t" "finaliseObjects del as t = Some s'"
    using Cons.prems(3) by (auto simp: bind_eq_Some_conv)
  have first: "(\<forall>obj. stateObjects s a = Some obj \<longrightarrow> settled del obj a t) \<and> (\<forall>b. b \<noteq> a \<or> stateObjects s a = None \<longrightarrow> elsewhere b s t)"
  proof (cases "stateObjects s a")
    case None
    then show ?thesis using t(1) by (simp add: finaliseObject_def elsewhere_def)
  next
    case (Some obj)
    then show ?thesis using finaliseObject_settles [OF Cons.prems(1) Some _ t(1)] Cons.prems(4) by simp
  qed
  have else1: "elsewhere b s t" if "b \<noteq> a" for b using first that by blast
  have db: "sdb_db t = sdb_db s" using else1 [of "a + 1"] by (simp add: elsewhere_def)
  have same: "stateObjects t b = stateObjects s b" if "b \<in> set as" for b
    using else1 [of b] that Cons.prems(2) by (auto simp: elsewhere_def)
  have rest: "(\<forall>b obj. b \<in> set as \<longrightarrow> stateObjects t b = Some obj \<longrightarrow> settled del obj b s') \<and>
      (\<forall>b. b \<notin> set as \<or> stateObjects t b = None \<longrightarrow> elsewhere b t s')"
    by (rule Cons.IH) (use Cons.prems t(2) db same in auto)
  show ?case
  proof (intro conjI allI impI)
    fix b obj
    assume b: "b \<in> set (a # as)" "stateObjects s b = Some obj"
    show "settled del obj b s'"
    proof (cases "b = a")
      case True
      then have "settled del obj b t" "elsewhere b t s'" using first rest b Cons.prems(2) by auto
      then show ?thesis by (rule elsewhere_settled [rotated])
    next
      case False
      then show ?thesis using rest same b by simp
    qed
  next
    fix b
    assume b: "b \<notin> set (a # as) \<or> stateObjects s b = None"
    then have "elsewhere b s t" using first by auto
    moreover have "elsewhere b t s'" using rest b same by (cases "b \<in> set as") auto
    ultimately show "elsewhere b s s'" by (rule elsewhere_trans)
  qed
qed

text \<open>
  C32. Finalise deletes every dirty account that suicided, or is empty when empty accounts are
  deleted; for every other dirty account the account trie then holds the RLP form of its data and
  the storage trie holds every slot as the account showed it. Other accounts are untouched, and
  journal, snapshots and refund counter are reset. The changed slots of a dirty account must have
  been read before, as SetState does.
\<close>
theorem finalise_writes_state:
  assumes "Finalise del s = Some s'" "db_ok (sdb_db s)" "distinct (map fst (dirties (sdb_journal s)))"
    and "\<And>a obj. a \<in> fst ` set (dirties (sdb_journal s)) \<Longrightarrow> stateObjects s a = Some obj \<Longrightarrow> final_ok (sdb_db s) a obj"
  shows "(\<forall>a obj. a \<in> fst ` set (dirties (sdb_journal s)) \<longrightarrow> stateObjects s a = Some obj \<longrightarrow> settled del obj a s') \<and>
         (\<forall>a. a \<notin> fst ` set (dirties (sdb_journal s)) \<longrightarrow> obj_at s' a = obj_at s a \<and> load_account a s' = load_account a s) \<and>
         sdb_journal s' = newJournal \<and> validRevisions s' = [] \<and> refund s' = 0"
proof -
  obtain t where t: "finaliseObjects del (map fst (dirties (sdb_journal s))) s = Some t" "s' = clearJournalAndRefund t"
    using assms(1) by (auto simp: Finalise_def bind_eq_Some_conv)
  note f = finaliseObjects_settle [OF assms(2,3) t(1)]
  have e: "elsewhere a t s'" for a by (simp add: elsewhere_def t(2) clearJournalAndRefund_def)
  then show ?thesis
    using f assms(4) elsewhere_settled [OF e] elsewhere_obj [OF elsewhere_trans [OF _ e]] elsewhere_load [OF elsewhere_trans [OF _ e]]
    by (simp add: t(2) clearJournalAndRefund_def)
qed


text \<open>An account with one changed slot, for the example.\<close>

definition demo_object :: stateObject where
  "demo_object = (newObject demo_db 7 None)\<lparr>so_trie := Some Map.empty, originStorage := [(1, 0)], dirtyStorage := [(1, 5)]\<rparr>"

definition demo_dirty :: StateDB where
  "demo_dirty = demo_state\<lparr>stateObjects := [7 \<mapsto> demo_object],
     sdb_journal := \<lparr>entries = [createObjectChange 7, storageChange 7 1 0], dirties = [(7, 2)]\<rparr>\<rparr>"

lemma demo_dirty_reached: "SetState 7 1 5 demo_state = Some demo_dirty"
  by (simp add: SetState_def so_SetState_def GetOrNewStateObject_def createObject_def getStateObject_def load_account_def
      demo_state_def demo_db_def setStateObject_def mod_object_def TryGet_def Let_def so_setNonce_def newObject_def
      so_GetState_def so_GetCommittedState_def getTrie_def append_change_def j_append_def j_dirty_def count_of_def newJournal_def
      so_setState_def demo_dirty_def demo_object_def)

lemma demo_storage_ok: "storage_ok demo_db demo_object"
  by (auto simp: storage_ok_def demo_object_def fst_getTrie origin_ok_def trie_slot_def TryGet_def slot_value_def)

lemma demo_final: "Finalise False demo_dirty \<noteq> None"
proof -
  obtain obj' tr where u: "updateRoot demo_db demo_object = Some obj'"
    "so_data obj' = (so_data demo_object)\<lparr>acc_Root := trie_Hash demo_db tr\<rparr>"
    using updateRoot_spec [OF demo_db_ok demo_storage_ok] by metis
  have "EncodeToBytes account_item (so_data obj') \<noteq> None"
    by (simp add: u(2) demo_object_def newObject_def emptyCodeHash_def demo_db_def EncodeToBytes_def account_item_def uint64_item_def
        bigInt_item_def array_item_def bytes_item_def slice_len_ok_def rlp_string_def rlp_head_def Let_def be_bytes.simps)
  then show ?thesis
    using u(1) by (auto simp: Finalise_def finaliseObject_def demo_dirty_def demo_state_def updateStateObject_def setStateObject_def)
qed

theorem finalise_writes_state_witness:
  "\<exists>s'. SetState 7 1 5 demo_state = Some demo_dirty \<and> Finalise False demo_dirty = Some s' \<and> settled False demo_object 7 s' \<and> refund s' = 0"
proof -
  obtain s' where s': "Finalise False demo_dirty = Some s'" using demo_final by blast
  have st: "stateObjects demo_dirty 7 = Some demo_object" "dirties (sdb_journal demo_dirty) = [(7, 2)]" "sdb_db demo_dirty = demo_db"
    by (simp_all add: demo_dirty_def demo_state_def)
  have "final_ok demo_db 7 demo_object" using demo_storage_ok by (simp add: final_ok_def) (simp add: demo_object_def)
  then show ?thesis
    using finalise_writes_state [OF s'] st demo_db_ok demo_dirty_reached s' by simp
qed



subsection \<open>Copies\<close>

lemma deepCopy_view:
  assumes "obj_ok db obj"
  shows "obj_view db (deepCopy db obj) = obj_view db obj" "deleted (deepCopy db obj) = deleted obj"
proof -
  have "committed db (deepCopy db obj) = committed db obj"
    by (intro committed_cong getTrie_cong) (use assms in \<open>simp_all add: deepCopy_def obj_ok_def newObject_def addrHash_def\<close>)
  then show "obj_view db (deepCopy db obj) = obj_view db obj"
    using assms by (simp add: obj_view_def deepCopy_def obj_ok_def newObject_def addrHash_def cong: option.case_cong)
qed (simp add: deepCopy_def)

lemma copyDirty_frame:
  "sdb_db (copyDirty self a t) = sdb_db t" "sdb_trie (copyDirty self a t) = sdb_trie t" "refund (copyDirty self a t) = refund t"
  "sdb_logs (copyDirty self a t) = sdb_logs t" "logSize (copyDirty self a t) = logSize t" "preimages (copyDirty self a t) = preimages t"
  "sdb_journal (copyDirty self a t) = sdb_journal t" "validRevisions (copyDirty self a t) = validRevisions t"
  by (simp_all add: copyDirty_def split: option.split)

text \<open>The fields that both loops of \<open>Copy\<close> leave alone.\<close>

definition copy_base :: "StateDB \<Rightarrow> StateDB \<Rightarrow> bool" where
  "copy_base s t \<longleftrightarrow>
     sdb_db t = sdb_db s \<and> sdb_trie t = sdb_trie s \<and> refund t = refund s \<and> sdb_logs t = sdb_logs s \<and> logSize t = logSize s \<and>
     preimages t = preimages s \<and> sdb_journal t = newJournal \<and> validRevisions t = []"

lemma copyDirty_objects:
  assumes "copy_base self t"
  shows "copy_base self (fold (copyDirty self) as t) \<and>
    stateObjects (fold (copyDirty self) as t) b =
      (if b \<in> set as \<and> stateObjects self b \<noteq> None then map_option (deepCopy (sdb_db self)) (stateObjects self b) else stateObjects t b)"
  using assms
proof (induction as arbitrary: t)
  case (Cons a as)
  have "copy_base self (copyDirty self a t)" using Cons.prems by (simp add: copy_base_def copyDirty_frame)
  from Cons.IH [OF this] show ?case by (auto simp: copyDirty_def split: option.split)
qed simp

lemma copyRest_objects:
  assumes "copy_base self t" "\<And>a. a \<in> set as \<Longrightarrow> stateObjects self a \<noteq> None"
    and "\<And>b. stateObjects t b \<noteq> None \<Longrightarrow> stateObjects t b = map_option (deepCopy (sdb_db self)) (stateObjects self b)"
  obtains u where "copyRest self as t = Some u" "copy_base self u"
    "\<And>b. stateObjects u b = (if b \<in> set as then map_option (deepCopy (sdb_db self)) (stateObjects self b) else stateObjects t b)"
  using assms
proof (induction as arbitrary: t thesis)
  case (Cons a as)
  obtain obj where obj: "stateObjects self a = Some obj" using Cons.prems(3) by force
  show ?case
  proof (cases "stateObjects t a")
    case None
    let ?t = "t\<lparr>stateObjects := (stateObjects t)(a \<mapsto> deepCopy (sdb_db self) obj), stateObjectsDirty := List.insert a (stateObjectsDirty t)\<rparr>"
    have b: "copy_base self ?t" using Cons.prems(2) by (simp add: copy_base_def)
    show ?thesis
      by (rule Cons.IH [OF _ b]) (use Cons.prems None obj in \<open>auto split: if_splits\<close>)
  next
    case (Some x)
    then have x: "stateObjects t a = Some (deepCopy (sdb_db self) obj)" using Cons.prems(4) [of a] obj by simp
    obtain u where u: "copyRest self as t = Some u" "copy_base self u"
      "\<And>b. stateObjects u b = (if b \<in> set as then map_option (deepCopy (sdb_db self)) (stateObjects self b) else stateObjects t b)"
      by (rule Cons.IH [OF _ Cons.prems(2)]) (use Cons.prems(3,4) in auto)
    show ?thesis by (rule Cons.prems(1) [of u]) (use u x obj Some in auto)
  qed
qed simp

text \<open>
  C33. A copy of the state shows the same accounts, logs, preimages and refund counter, with an
  empty journal, as long as every account that is not marked dirty still agrees with the account
  trie.
\<close>
theorem copy_shows_same:
  assumes "objects_ok s" "set (stateObjectsDirty s) \<subseteq> dom (stateObjects s)"
    and "\<And>a obj. stateObjects s a = Some obj \<Longrightarrow> a \<notin> fst ` set (dirties (sdb_journal s)) \<Longrightarrow> a \<notin> set (stateObjectsDirty s) \<Longrightarrow>
           map_option (obj_view (sdb_db s)) (load_account a s) = (if deleted obj then None else Some (obj_view (sdb_db s) obj))"
  shows "\<exists>c. sdb_Copy s = Some c \<and> view_of c = view_of s \<and> sdb_journal c = newJournal \<and> validRevisions c = []"
proof -
  let ?t0 = "\<lparr>sdb_db = sdb_db s, sdb_trie = sdb_trie s, stateObjects = Map.empty, stateObjectsDirty = [],
          refund = refund s, thash = 0, bhash = 0, txIndex = 0, sdb_logs = sdb_logs s, logSize = logSize s,
          preimages = preimages s, sdb_journal = newJournal, validRevisions = [], nextRevisionId = 0\<rparr>"
  let ?ds = "map fst (dirties (sdb_journal s))"
  have t: "copy_base s (fold (copyDirty s) ?ds ?t0)" and to: "\<And>b. stateObjects (fold (copyDirty s) ?ds ?t0) b =
      (if b \<in> set ?ds then map_option (deepCopy (sdb_db s)) (stateObjects s b) else None)"
    using copyDirty_objects [of s ?t0 ?ds] by (auto simp: copy_base_def)
  obtain u where u: "copyRest s (stateObjectsDirty s) (fold (copyDirty s) ?ds ?t0) = Some u" "copy_base s u"
    "\<And>b. stateObjects u b = (if b \<in> set (stateObjectsDirty s) then map_option (deepCopy (sdb_db s)) (stateObjects s b)
       else if b \<in> set ?ds then map_option (deepCopy (sdb_db s)) (stateObjects s b) else None)"
    by (rule copyRest_objects [OF t, of "stateObjectsDirty s"]) (use assms(2) to in \<open>auto split: if_splits\<close>)
  have "map_option (obj_view (sdb_db s)) (obj_at u a) = map_option (obj_view (sdb_db s)) (obj_at s a)" for a
  proof (cases "stateObjects s a")
    case None
    then have "stateObjects u a = None" using u(3) by simp
    then show ?thesis using None load_account_cong [of u s a] u(2) by (simp add: obj_at_load copy_base_def)
  next
    case (Some obj)
    have ok: "obj_ok (sdb_db s) obj" using objects_okD(2) [OF assms(1) Some] by simp
    show ?thesis
    proof (cases "a \<in> set (stateObjectsDirty s) \<or> a \<in> set ?ds")
      case True
      then have "stateObjects u a = Some (deepCopy (sdb_db s) obj)" using u(3) Some by auto
      then show ?thesis using Some deepCopy_view [OF ok] by (simp add: obj_at_live)
    next
      case False
      then have "stateObjects u a = None" using u(3) by simp
      then show ?thesis
        using False Some assms(3) [OF Some] load_account_cong [of u s a] u(2) by (simp add: obj_at_load obj_at_live copy_base_def)
    qed
  qed
  then have "view_of u = view_of s" using u(2) by (simp add: view_of_def GetLogs_def copy_base_def)
  then show ?thesis using u(1,2) by (simp add: sdb_Copy_def copy_base_def)
qed

theorem copy_shows_same_witness:
  "\<exists>c. sdb_Copy demo_dirty = Some c \<and> view_of c = view_of demo_dirty \<and> sdb_journal c = newJournal \<and> validRevisions c = []"
proof (rule copy_shows_same)
  show "objects_ok demo_dirty"
    using state_op_journaled [OF state_op.intros(10) [OF demo_dirty_reached]] demo_state_ok by (simp add: state_ok_def journaled_def)
qed (auto simp: demo_dirty_def demo_state_def split: if_splits)

end
