(* ===== verification/Spec2Isabelle.thy ===== *)
theory Spec2Isabelle
  imports Core_Props Core_Checks Engine_Accept Gossip State_Final
begin

text \<open>
  Verification of the Smilo BFT node.
\<close>

end
